(* ===== verification/Roboflex_Prelude.thy ===== *)
theory Roboflex_Prelude
  imports Main "HOL-Library.Word"
begin

text \<open>
  What the component theories share: the outcome of an operation that can throw or fail to
  return, sequencing and the for loop over it, little-endian byte strings, the interface of a
  fixed-width byte codec and of a stream of framed records.
\<close>

type_synonym byte = "8 word"
type_synonym u32 = "32 word"
type_synonym u64 = "64 word"

named_theorems outcome_simps \<open>equations that compute outcomes\<close>
named_theorems framing \<open>facts saying that an operation leaves a part of the state alone\<close>

section \<open>Errors\<close>

text \<open>
  What the code throws, one constructor per throw statement. \<open>OutOfBounds\<close> stands for a read
  or a write outside a buffer, which C++ leaves undefined, and \<open>LogicError\<close> for the
  \<open>std::logic_error\<close> of a string made from a null pointer, and \<open>MissingKey\<close> for what
  \<open>std::map::at\<close> throws. A failing \<open>assert\<close>, which ends the program, is \<open>AssertionFailed\<close>. \<open>UserException\<close> is an exception
  of a callback that a client installed.
\<close>

datatype error =
    NameTooLong string
  | UnexpectedMessage string string
  | MoreThanOneChild
  | MoreThanOneParent
  | CannotOpenFile string
  | OutOfBounds
  | LogicError
  | MissingKey string
  | AssertionFailed
  | SignedOverflow
  | UserException nat

section \<open>Outcomes\<close>

text \<open>
  An operation on a state either returns a value and a new state, or throws: the state it had
  reached when it threw stays as it was left, as in C++. \<open>NoReturn\<close> is an
  operation that has used up its call depth, so a call that never returns has the value
  \<open>NoReturn\<close> for every depth.
\<close>

datatype ('e, 's, 'a) outcome = Returns 'a 's | Throws 'e 's | NoReturn

fun bnd :: "('e, 's, 'a) outcome \<Rightarrow> ('a \<Rightarrow> 's \<Rightarrow> ('e, 's, 'b) outcome) \<Rightarrow> ('e, 's, 'b) outcome" where
  "bnd (Returns a s) f = f a s"
| "bnd (Throws e s) f = Throws e s"
| "bnd NoReturn f = NoReturn"

text \<open>Run the second statement after the first, as the semicolon does.\<close>

definition andthen :: "('e, 's, unit) outcome \<Rightarrow> ('s \<Rightarrow> ('e, 's, 'b) outcome) \<Rightarrow> ('e, 's, 'b) outcome" where
  "andthen r f = bnd r (\<lambda>_. f)"

lemma andthen_simps [simp]:
  "andthen (Returns u s) f = f s"
  "andthen (Throws e s) f = Throws e s"
  "andthen NoReturn f = NoReturn"
  by (simp_all add: andthen_def)

lemma bnd_assoc: "bnd (bnd r f) g = bnd r (\<lambda>a s. bnd (f a s) g)"
  by (cases r) simp_all

lemma andthen_assoc: "andthen (andthen r f) g = andthen r (\<lambda>s. andthen (f s) g)"
  by (cases r) simp_all

lemma andthen_Returns_iff:
  "andthen r f = Returns a t \<longleftrightarrow> (\<exists>s. r = Returns () s \<and> f s = Returns a t)"
  by (cases r) auto

lemma andthen_NoReturn_iff:
  "andthen r f = NoReturn \<longleftrightarrow> r = NoReturn \<or> (\<exists>s. r = Returns () s \<and> f s = NoReturn)"
  by (cases r) auto

text \<open>A range-based for loop over a snapshot of a list: it stops at the first throw.\<close>

primrec for_each :: "('x \<Rightarrow> 's \<Rightarrow> ('e, 's, unit) outcome) \<Rightarrow> 'x list \<Rightarrow> 's \<Rightarrow> ('e, 's, unit) outcome" where
  "for_each f [] s = Returns () s"
| "for_each f (x # xs) s = andthen (f x s) (for_each f xs)"

lemma andthen_cong: "r = r' \<Longrightarrow> (\<And>s. f s = g s) \<Longrightarrow> andthen r f = andthen r' g"
  by (cases r') (simp_all add: andthen_def)

lemma for_each_append: "for_each f (xs @ ys) s = andthen (for_each f xs s) (for_each f ys)"
  by (induction xs arbitrary: s) (auto simp: andthen_assoc intro: andthen_cong)

lemma for_each_cong [fundef_cong]:
  assumes "xs = ys" and "s = t" and "\<And>x u. x \<in> set ys \<Longrightarrow> f x u = g x u"
  shows "for_each f xs s = for_each g ys t"
  using assms by (induction ys arbitrary: xs s t) (auto intro: andthen_cong)

text \<open>\<open>ends P r\<close>: whatever way the operation ends, the state it leaves satisfies \<open>P\<close>.\<close>

fun ends :: "('s \<Rightarrow> bool) \<Rightarrow> ('e, 's, 'a) outcome \<Rightarrow> bool" where
  "ends P (Returns a s) = P s"
| "ends P (Throws e s) = P s"
| "ends P NoReturn = True"

lemma ends_True [simp]: "ends (\<lambda>_. True) r"
  by (cases r) simp_all

lemma ends_bnd:
  assumes "ends P r" and "\<And>a s. P s \<Longrightarrow> ends P (f a s)"
  shows "ends P (bnd r f)"
  using assms by (cases r) auto

lemma ends_andthen:
  assumes "ends P r" and "\<And>s. P s \<Longrightarrow> ends P (f s)"
  shows "ends P (andthen r f)"
  using assms by (cases r) auto

lemma ends_for_each:
  assumes "P s" and "\<And>x s. x \<in> set xs \<Longrightarrow> P s \<Longrightarrow> ends P (f x s)"
  shows "ends P (for_each f xs s)"
  using assms
proof (induction xs arbitrary: s)
  case Nil
  then show ?case by simp
next
  case (Cons x xs)
  then show ?case by (auto intro!: ends_andthen)
qed

lemma ends_mono: "ends P r \<Longrightarrow> (\<And>s. P s \<Longrightarrow> Q s) \<Longrightarrow> ends Q r"
  by (cases r) auto

lemma ends_Returns: "ends P r \<Longrightarrow> r = Returns a s \<Longrightarrow> P s"
  by simp

text \<open>An operation with a smaller depth either does not return or does the same.\<close>

definition approx :: "('e, 's, 'a) outcome \<Rightarrow> ('e, 's, 'a) outcome \<Rightarrow> bool" where
  "approx r r' \<longleftrightarrow> r = NoReturn \<or> r' = r"

lemma approx_simps [simp]: "approx NoReturn r" "approx r r"
  by (simp_all add: approx_def)

lemma approx_bnd: "approx r r' \<Longrightarrow> (\<And>a s. approx (f a s) (f' a s)) \<Longrightarrow> approx (bnd r f) (bnd r' f')"
  by (cases r) (auto simp: approx_def)

lemma approx_andthen: "approx r r' \<Longrightarrow> (\<And>s. approx (f s) (f' s)) \<Longrightarrow> approx (andthen r f) (andthen r' f')"
  by (cases r) (auto simp: approx_def)

lemma approx_for_each:
  assumes "\<And>x s. approx (f x s) (f' x s)"
  shows "approx (for_each f xs s) (for_each f' xs s)"
  by (induction xs arbitrary: s) (auto intro: approx_andthen assms)

lemma approx_returns: "approx r r' \<Longrightarrow> r \<noteq> NoReturn \<Longrightarrow> r' = r"
  by (auto simp: approx_def)

lemma returns_andthen:
  assumes "r \<noteq> NoReturn" and "ends P r" and "\<And>s. P s \<Longrightarrow> f s \<noteq> NoReturn"
  shows "andthen r f \<noteq> NoReturn"
  using assms by (cases r) auto

lemma returns_bnd:
  assumes "r \<noteq> NoReturn" and "ends P r" and "\<And>a s. P s \<Longrightarrow> f a s \<noteq> NoReturn"
  shows "bnd r f \<noteq> NoReturn"
  using assms by (cases r) auto

lemma returns_for_each:
  assumes "P s" and "\<And>x s. x \<in> set xs \<Longrightarrow> P s \<Longrightarrow> f x s \<noteq> NoReturn \<and> ends P (f x s)"
  shows "for_each f xs s \<noteq> NoReturn"
  using assms
proof (induction xs arbitrary: s)
  case Nil
  then show ?case by simp
next
  case (Cons x xs)
  then have "f x s \<noteq> NoReturn" "ends P (f x s)" by simp_all
  then show ?case
    unfolding for_each.simps by (rule returns_andthen) (use Cons in simp)
qed

section \<open>Little-endian byte strings\<close>

text \<open>
  \<open>le_bytes n x\<close> is what \<open>memcpy(buf, &x, n)\<close> writes on the little-endian hosts the
  library is built for, and \<open>le_value\<close> reads such a string back.
\<close>

primrec le_bytes :: "nat \<Rightarrow> nat \<Rightarrow> byte list" where
  "le_bytes 0 x = []"
| "le_bytes (Suc n) x = word_of_nat x # le_bytes n (x div 256)"

primrec le_value :: "byte list \<Rightarrow> nat" where
  "le_value [] = 0"
| "le_value (b # bs) = unat b + 256 * le_value bs"

lemma unat_less_pow: "unat (w :: 'a::len word) < 2 ^ LENGTH('a)"
  by (rule unsigned_less)

lemma length_le_bytes [simp]: "length (le_bytes n x) = n"
  by (induction n arbitrary: x) simp_all

lemma le_bytes_zero: "le_bytes n 0 = replicate n 0"
  by (induction n) simp_all

lemma unat_byte_of_nat: "unat (word_of_nat x :: byte) = x mod 256"
  by (simp add: unat_of_nat)

lemma le_value_le_bytes [simp]: "le_value (le_bytes n x) = x mod 256 ^ n"
proof (induction n arbitrary: x)
  case 0
  then show ?case by simp
next
  case (Suc n)
  then show ?case by (simp add: unat_byte_of_nat mod_mult2_eq)
qed

lemma le_value_bound: "le_value bs < 256 ^ length bs"
proof (induction bs)
  case Nil
  then show ?case by simp
next
  case (Cons b bs)
  have "unat b < 256"
    using unat_less_pow [of b] by simp
  moreover from Cons have "Suc (le_value bs) \<le> 256 ^ length bs"
    by simp
  then have "256 * Suc (le_value bs) \<le> 256 * 256 ^ length bs"
    by (rule mult_le_mono2)
  ultimately show ?case by simp
qed

lemma byte_of_nat_add_256: "(word_of_nat (unat b + 256 * n) :: byte) = b"
  by (rule word_unat_eq_iff [THEN iffD2]) (use unat_less_pow [of b] in \<open>simp add: unat_byte_of_nat del: of_nat_add of_nat_mult\<close>)

lemma le_bytes_le_value [simp]: "le_bytes (length bs) (le_value bs) = bs"
proof (induction bs)
  case Nil
  then show ?case by simp
next
  case (Cons b bs)
  have "unat b < 256"
    using unat_less_pow [of b] by simp
  with Cons show ?case
    by (simp add: byte_of_nat_add_256 del: of_nat_add of_nat_mult)
qed

section \<open>Printing numbers\<close>

text \<open>The digits of a number in base \<open>b\<close>, most significant first, as the stream inserters print it.\<close>

function radix :: "nat \<Rightarrow> nat \<Rightarrow> nat list" where
  "radix b n = (if b < 2 \<or> n < b then [n] else radix b (n div b) @ [n mod b])"
  by pat_completeness auto
termination
  by (relation "measure snd") (auto intro: div_less_dividend)

declare radix.simps [simp del]

definition radix_value :: "nat \<Rightarrow> nat list \<Rightarrow> nat" where
  "radix_value b ds = foldl (\<lambda>v d. b * v + d) 0 ds"

lemma radix_value_snoc: "radix_value b (ds @ [d]) = b * radix_value b ds + d"
  by (simp add: radix_value_def)

lemma radix_value_radix: "2 \<le> b \<Longrightarrow> radix_value b (radix b n) = n"
proof (induction b n rule: radix.induct)
  case (1 b n)
  show ?case
  proof (cases "n < b")
    case True
    then show ?thesis by (simp add: radix.simps [of b n] radix_value_def)
  next
    case False
    with 1 show ?thesis by (simp add: radix.simps [of b n] radix_value_snoc)
  qed
qed

lemma radix_digits: "2 \<le> b \<Longrightarrow> d \<in> set (radix b n) \<Longrightarrow> d < b"
proof (induction b n rule: radix.induct)
  case (1 b n)
  then show ?case by (cases "n < b") (auto simp: radix.simps [of b n])
qed

lemma radix_not_Nil [simp]: "radix b n \<noteq> []"
  by (subst radix.simps) simp

lemma length_radix: "2 \<le> b \<Longrightarrow> n < b ^ Suc k \<Longrightarrow> length (radix b n) \<le> Suc k"
proof (induction k arbitrary: n)
  case 0
  then show ?case by (simp add: radix.simps [of b n])
next
  case (Suc k)
  show ?case
  proof (cases "n < b")
    case True
    then show ?thesis by (simp add: radix.simps [of b n])
  next
    case False
    from Suc.prems have "n div b < b ^ Suc k"
      by (simp add: less_mult_imp_div_less mult.commute)
    with Suc.IH [of "n div b"] Suc.prems False show ?thesis
      by (simp add: radix.simps [of b n])
  qed
qed

lemma radix_value_zeros: "radix_value b (replicate k 0 @ ds) = radix_value b ds"
  by (induction k) (simp_all add: radix_value_def)

section \<open>The interface of a fixed-width codec\<close>

text \<open>
  Several parts write a value as a fixed number of raw bytes and read it back from the front of
  a buffer. A client of the interface may use that the bytes decode to the value, also with
  other bytes behind them.
\<close>

locale fixed_codec =
  fixes width :: nat
    and enc :: "'a \<Rightarrow> byte list"
    and dec :: "byte list \<Rightarrow> 'a"
  assumes length_enc: "length (enc x) = width"
    and dec_enc: "dec (enc x) = x"
begin

lemma dec_take: "dec (take width (enc x @ rest)) = x"
  by (simp add: length_enc dec_enc)

lemma drop_enc: "drop width (enc x @ rest) = rest"
  by (simp add: length_enc)

lemma enc_inject: "enc x = enc y \<longleftrightarrow> x = y"
  by (metis dec_enc)

end

definition u32_bytes :: "u32 \<Rightarrow> byte list" where
  "u32_bytes w = le_bytes 4 (unat w)"

definition u32_value :: "byte list \<Rightarrow> u32" where
  "u32_value bs = word_of_nat (le_value bs)"

definition u64_bytes :: "u64 \<Rightarrow> byte list" where
  "u64_bytes w = le_bytes 8 (unat w)"

definition u64_value :: "byte list \<Rightarrow> u64" where
  "u64_value bs = word_of_nat (le_value bs)"

interpretation le32: fixed_codec 4 u32_bytes u32_value
proof unfold_locales
  show "length (u32_bytes x) = 4" for x
    by (simp add: u32_bytes_def)
  show "u32_value (u32_bytes x) = x" for x
    using unat_less_pow [of x] by (simp add: u32_bytes_def u32_value_def)
qed

interpretation le64: fixed_codec 8 u64_bytes u64_value
proof unfold_locales
  show "length (u64_bytes x) = 8" for x
    by (simp add: u64_bytes_def)
  show "u64_value (u64_bytes x) = x" for x
    using unat_less_pow [of x] by (simp add: u64_bytes_def u64_value_def)
qed

lemmas codec_simps [simp] = le32.length_enc le32.dec_enc le64.length_enc le64.dec_enc

end
