(* ===== verification/Uuid.thy ===== *)
theory Uuid
  imports Roboflex_Prelude "HOL-Library.Monad_Syntax"
begin

unbundle bit_operations_syntax

text \<open>
  The identifiers of nodes (\<open>include/roboflex_core/util/uuid.h\<close>): the 128-bit value, its order,
  the two printed forms and the parser that reads both back, and the three generators. The
  random numbers, the clock, the process id and the MAC address that the generators read are
  arguments; the locale-dependent date that \<open>pretty\<close> prints is a parameter.
\<close>

section \<open>The value and its order\<close>

datatype uuid = Uuid (ab: u64) (cd: u64)

definition uuid_eq :: "uuid \<Rightarrow> uuid \<Rightarrow> bool" where
  "uuid_eq self other \<longleftrightarrow> ab self = ab other \<and> cd self = cd other"

definition uuid_neq :: "uuid \<Rightarrow> uuid \<Rightarrow> bool" where
  "uuid_neq self other \<longleftrightarrow> \<not> uuid_eq self other"

definition uuid_less :: "uuid \<Rightarrow> uuid \<Rightarrow> bool" where
  "uuid_less self other =
     (if ab self < ab other then True
      else if ab self > ab other then False
      else if cd self < cd other then True
      else False)"

lemma uuid_eq_iff [simp]: "uuid_eq u v \<longleftrightarrow> u = v"
  by (cases u; cases v) (simp add: uuid_eq_def)

instantiation uuid :: linorder
begin

definition less_uuid :: "uuid \<Rightarrow> uuid \<Rightarrow> bool" where
  "less_uuid u v \<longleftrightarrow> uuid_less u v"

definition less_eq_uuid :: "uuid \<Rightarrow> uuid \<Rightarrow> bool" where
  "less_eq_uuid u v \<longleftrightarrow> \<not> uuid_less v u"

instance
proof
  fix u v w :: uuid
  show "u < v \<longleftrightarrow> u \<le> v \<and> \<not> v \<le> u"
    by (auto simp: less_uuid_def less_eq_uuid_def uuid_less_def)
  show "u \<le> u"
    by (simp add: less_eq_uuid_def uuid_less_def)
  show "u \<le> w" if "u \<le> v" and "v \<le> w"
    using that by (auto simp: less_eq_uuid_def uuid_less_def split: if_splits)
  show "u = v" if "u \<le> v" and "v \<le> u"
    using that by (cases u; cases v) (auto simp: less_eq_uuid_def uuid_less_def split: if_splits)
  show "u \<le> v \<or> v \<le> u"
    by (auto simp: less_eq_uuid_def uuid_less_def)
qed

end

definition rebuild :: "u64 \<Rightarrow> u64 \<Rightarrow> uuid" where
  "rebuild hi lo = Uuid hi lo"

text \<open>The hash functor, on a host whose \<open>size_t\<close> has 64 bits.\<close>

definition uuid_hash :: "uuid \<Rightarrow> u64" where
  "uuid_hash u = ab u XOR cd u"

section \<open>Printing\<close>

definition hex_digit :: "nat \<Rightarrow> char" where
  "hex_digit d = ''0123456789abcdef'' ! d"

definition hex_str :: "nat \<Rightarrow> string" where
  "hex_str n = map hex_digit (radix 16 n)"

definition dec_str :: "nat \<Rightarrow> string" where
  "dec_str n = map hex_digit (radix 10 n)"

text \<open>\<open>std::setw\<close> with \<open>std::setfill('0')\<close>.\<close>

definition setw0 :: "nat \<Rightarrow> string \<Rightarrow> string" where
  "setw0 k s = replicate (k - length s) CHR ''0'' @ s"

definition str :: "uuid \<Rightarrow> string" where
  "str u =
     (let a = ucast (drop_bit 32 (ab u)) :: u32;
          b = ucast (ab u AND 0xFFFFFFFF) :: u32;
          c = ucast (drop_bit 32 (cd u)) :: u32;
          d = ucast (cd u AND 0xFFFFFFFF) :: u32
      in setw0 8 (hex_str (unat a)) @ ''-'' @
         setw0 4 (hex_str (unat (drop_bit 16 b))) @ ''-'' @
         setw0 4 (hex_str (unat (b AND 0xFFFF))) @ ''-'' @
         setw0 4 (hex_str (unat (drop_bit 16 c))) @ ''-'' @
         setw0 4 (hex_str (unat (c AND 0xFFFF))) @
         setw0 8 (hex_str (unat d)))"

definition base62_table :: string where
  "base62_table = ''0123456789ABCDEFGHIJKLMNOPQRSTUVWXYZabcdefghijklmnopqrstuvwxyz''"

text \<open>One of the two do-while loops: it writes the digits backwards in front of \<open>acc\<close>.\<close>

function base62_loop :: "nat \<Rightarrow> string \<Rightarrow> string" where
  "base62_loop n acc =
     (let acc' = base62_table ! (n mod 62) # acc; n' = n div 62
      in if 0 < n' then base62_loop n' acc' else acc')"
  by pat_completeness auto
termination
  by (relation "measure fst") auto

declare base62_loop.simps [simp del]

definition base62 :: "uuid \<Rightarrow> string" where
  "base62 u = base62_loop (unat (ab u)) (CHR ''-'' # base62_loop (unat (cd u)) [])"

definition uuid_version :: "uuid \<Rightarrow> u64" where
  "uuid_version u = drop_bit 12 ((ab u AND 0xFFFFFFFF) AND 0xF000)"

definition pretty :: "(u64 \<Rightarrow> string) \<Rightarrow> uuid \<Rightarrow> string" where
  "pretty printftime u =
     (let a = drop_bit 32 (ab u);
          b = ab u AND 0xFFFFFFFF;
          c = drop_bit 32 (cd u);
          d = cd u AND 0xFFFFFFFF;
          version = uuid_version u;
          stamp = push_bit 48 (b AND 0x0FFF) OR push_bit 32 (drop_bit 16 b) OR a;
          timestamp = (if version = 1 then stamp - 0x01b21dd213814000 else stamp)
      in ''version='' @ dec_str (unat version) @ '','' @
         (if version \<le> 1 then ''timestamp='' @ printftime (timestamp div 10000000) @ '','' else []) @
         (if version \<le> 1
          then ''mac='' @ setw0 4 (hex_str (unat (c AND 0xFFFF))) @ setw0 8 (hex_str (unat d)) @ '',''
          else []) @
         (if version = 4
          then ''randbits='' @ setw0 8 (hex_str (unat (ab u AND 0xFFFFFFFFFFFF0FFF))) @
               setw0 8 (hex_str (unat (cd u AND 0x3FFFFFFFFFFFFFFF))) @ '',''
          else []) @
         (if version = 0 then ''pid='' @ setw0 4 (dec_str (unat (drop_bit 16 c))) @ '','' else []) @
         (if version = 1
          then ''clock_seq='' @ setw0 4 (dec_str (unat (drop_bit 16 c AND 0x3FFF))) @ '','' else []))"

section \<open>Parsing\<close>

text \<open>
  \<open>std::istream >> std::hex >> uint64_t\<close>: skip white space, take an optional sign and an
  optional \<open>0x\<close>, then the longest run of hexadecimal digits. \<open>None\<close> is a stream whose
  failbit is set (no digits, or a value that does not fit). The end of the stream has been met
  exactly when nothing is left.
\<close>

definition is_ws :: "char \<Rightarrow> bool" where
  "is_ws c \<longleftrightarrow> c = CHR '' '' \<or> (9 \<le> (of_char c :: nat) \<and> (of_char c :: nat) \<le> 13)"

definition hex_val :: "char \<Rightarrow> nat option" where
  "hex_val ch =
     (let n = of_char ch :: nat in
      if 48 \<le> n \<and> n \<le> 57 then Some (n - 48)
      else if 97 \<le> n \<and> n \<le> 102 then Some (n - 97 + 10)
      else if 65 \<le> n \<and> n \<le> 70 then Some (n - 65 + 10)
      else None)"

fun split_sign :: "string \<Rightarrow> bool \<times> string" where
  "split_sign (c # cs) = (if c = CHR ''-'' then (True, cs) else if c = CHR ''+'' then (False, cs) else (False, c # cs))"
| "split_sign [] = (False, [])"

fun strip_0x :: "string \<Rightarrow> string" where
  "strip_0x (c # d # cs) = (if c = CHR ''0'' \<and> (d = CHR ''x'' \<or> d = CHR ''X'') then cs else c # d # cs)"
| "strip_0x cs = cs"

definition is_hex :: "char \<Rightarrow> bool" where
  "is_hex c \<longleftrightarrow> hex_val c \<noteq> None"

definition read_hex :: "string \<Rightarrow> (u64 \<times> string) option" where
  "read_hex s =
     (let (negative, s1) = split_sign (dropWhile is_ws s);
          s2 = strip_0x s1;
          ds = takeWhile is_hex s2;
          v = radix_value 16 (map (\<lambda>c. the (hex_val c)) ds)
      in if ds = [] \<or> 2 ^ 64 \<le> v then None
         else Some (if negative then - word_of_nat v else word_of_nat v, dropWhile is_hex s2))"

text \<open>\<open>std::istream >> char\<close>.\<close>

definition read_char :: "string \<Rightarrow> string option" where
  "read_char s = (case dropWhile is_ws s of [] \<Rightarrow> None | c # cs \<Rightarrow> Some cs)"

definition rebuild_hex :: "string \<Rightarrow> uuid" where
  "rebuild_hex s =
     (case do { (a, s) \<leftarrow> read_hex s; s \<leftarrow> read_char s;
                (b, s) \<leftarrow> read_hex s; s \<leftarrow> read_char s;
                (c, s) \<leftarrow> read_hex s; s \<leftarrow> read_char s;
                (d, s) \<leftarrow> read_hex s; s \<leftarrow> read_char s;
                (e, s) \<leftarrow> read_hex s;
                Some (a, b, c, d, e, s) } of
        None \<Rightarrow> Uuid 0 0
      | Some (a, b, c, d, e, rest) \<Rightarrow>
          if rest = []
          then Uuid (push_bit 32 a OR push_bit 16 b OR c) (push_bit 48 d OR e)
          else Uuid 0 0)"

text \<open>
  The base 62 reader. A \<open>char\<close> is signed, and the arithmetic on the result of \<open>strpos\<close>
  is that of \<open>uint64_t\<close>. The input is read up to the terminating zero of the string.
\<close>

definition char_int :: "char \<Rightarrow> int" where
  "char_int c = (let n = int (of_char c) in if 128 \<le> n then n - 256 else n)"

definition strpos :: "char \<Rightarrow> u64" where
  "strpos ch =
     (if char_int ch \<ge> 97 then word_of_int (char_int ch - 97 + 10 + 26)
      else if char_int ch \<ge> 65 then word_of_int (char_int ch - 65 + 10)
      else word_of_int (char_int ch - 48))"

definition rebase62 :: "string \<Rightarrow> nat \<Rightarrow> u64" where
  "rebase62 input limit =
     foldl (\<lambda>res ch. 62 * res + strpos ch) (strpos (hd input)) (take (limit - 1) (tl input))"

definition rebuild_str :: "string \<Rightarrow> uuid" where
  "rebuild_str uustr =
     (let idx = length (takeWhile (\<lambda>c. c \<noteq> CHR ''-'') uustr) in
      if idx = length uustr then Uuid 0 0
      else if CHR ''-'' \<notin> set (drop (idx + 1) uustr)
      then Uuid (rebase62 (uustr @ [CHR 0x00]) idx)
             (rebase62 (drop (idx + 1) uustr @ [CHR 0x00]) (length uustr - (idx + 1)))
      else rebuild_hex uustr)"

section \<open>Generators\<close>

text \<open>
  \<open>uuid4\<close> takes the two draws of the random device. \<open>get_time\<close> takes the thread's
  \<open>last_uuid_time\<close> and the seconds and nanoseconds of the clock, and returns the time and the
  new \<open>last_uuid_time\<close>. \<open>get_any_mac48\<close> takes what \<open>get_any_mac\<close> found, if anything.
\<close>

definition uuid4 :: "u64 \<Rightarrow> u64 \<Rightarrow> uuid" where
  "uuid4 r1 r2 =
     Uuid ((r1 AND 0xFFFFFFFFFFFF0FFF) OR 0x0000000000004000)
          ((r2 AND 0x3FFFFFFFFFFFFFFF) OR 0x8000000000000000)"

definition get_time :: "u64 \<Rightarrow> u64 \<Rightarrow> u64 \<Rightarrow> u64 \<Rightarrow> u64 \<times> u64" where
  "get_time last_uuid_time tv_sec tv_nsec offset =
     (let uuid_time = tv_sec * 10000000;
          uuid_time = uuid_time + tv_nsec div 100;
          uuid_time = (if last_uuid_time \<ge> uuid_time then last_uuid_time + 1 else uuid_time)
      in (uuid_time + offset, uuid_time))"

definition get_any_mac48 :: "byte list option \<Rightarrow> u64" where
  "get_any_mac48 node =
     (case node of
        None \<Rightarrow> 0
      | Some bs \<Rightarrow>
          (case read_hex (concat (map (\<lambda>b. setw0 2 (hex_str (unat b))) (take 6 (bs @ replicate 6 0)))) of
             None \<Rightarrow> 0
           | Some (t, _) \<Rightarrow> t))"

definition uuid1 :: "u64 \<Rightarrow> u64 \<Rightarrow> uuid" where
  "uuid1 ns100_intervals mac =
     (let clock_seq = ucast (ns100_intervals AND 0x3fff) :: 16 word;
          time_low = ucast (ns100_intervals AND 0xffffffff) :: u32;
          time_mid = ucast (drop_bit 32 ns100_intervals AND 0xffff) :: 16 word;
          time_hi_version = ucast (drop_bit 48 ns100_intervals AND 0xfff) :: 16 word;
          clock_seq_low = ucast (clock_seq AND 0xff) :: byte;
          clock_seq_hi_variant = ucast (drop_bit 8 clock_seq AND 0x3f) :: byte;
          upper = push_bit 32 (ucast time_low);
          upper = upper OR push_bit 16 (ucast time_mid);
          upper = upper OR ucast time_hi_version;
          lower = push_bit 48 (push_bit 8 (ucast clock_seq_hi_variant) OR ucast clock_seq_low);
          lower = lower OR mac;
          lower = lower AND NOT (push_bit 48 0xc000);
          lower = lower OR push_bit 48 0x8000;
          upper = upper AND NOT 0xf000;
          upper = upper OR push_bit 12 1
      in Uuid upper lower)"

definition uuid0 :: "u64 \<Rightarrow> u64 \<Rightarrow> u64 \<Rightarrow> uuid" where
  "uuid0 ns100_intervals pid mac =
     (let pid16 = ucast (pid AND 0xffff) :: 16 word;
          time_low = ucast (ns100_intervals AND 0xffffffff) :: u32;
          time_mid = ucast (drop_bit 32 ns100_intervals AND 0xffff) :: 16 word;
          time_hi_version = ucast (drop_bit 48 ns100_intervals AND 0xfff) :: 16 word;
          pid_low = ucast (pid16 AND 0xff) :: byte;
          pid_hi = ucast (drop_bit 8 pid16 AND 0xff) :: byte;
          upper = push_bit 32 (ucast time_low);
          upper = upper OR push_bit 16 (ucast time_mid);
          upper = upper OR ucast time_hi_version;
          lower = push_bit 48 (push_bit 8 (ucast pid_hi) OR ucast pid_low);
          lower = lower OR mac;
          upper = upper AND NOT 0xf000;
          upper = upper OR push_bit 12 0
      in Uuid upper lower)"

section \<open>Facts about the printed forms\<close>

lemma radix_value_append: "radix_value b (xs @ ys) = radix_value b xs * b ^ length ys + radix_value b ys"
proof (induction ys rule: rev_induct)
  case Nil
  then show ?case by (simp add: radix_value_def)
next
  case (snoc y ys)
  have "radix_value b (xs @ ys @ [y]) = b * radix_value b (xs @ ys) + y"
    by (simp add: radix_value_snoc flip: append_assoc)
  with snoc show ?case by (simp add: radix_value_snoc algebra_simps)
qed

definition hex_field :: "nat \<Rightarrow> nat \<Rightarrow> nat list" where
  "hex_field k n = replicate (k - length (radix 16 n)) 0 @ radix 16 n"

lemma setw0_hex_str: "setw0 k (hex_str n) = map hex_digit (hex_field k n)"
  by (simp add: setw0_def hex_str_def hex_field_def hex_digit_def)

lemma hex_field_simps [simp]:
  "hex_field k n \<noteq> []"
  "radix_value 16 (hex_field k n) = n"
  "\<forall>d \<in> set (hex_field k n). d < 16"
  by (auto simp: hex_field_def radix_value_zeros radix_value_radix dest: radix_digits [rotated])

lemma length_hex_field: "n < 16 ^ Suc k \<Longrightarrow> length (hex_field (Suc k) n) = Suc k"
  using length_radix [of 16 n k] by (simp add: hex_field_def)

lemma hex_digit_table:
  "\<forall>d \<in> set [0..<16]. hex_val (hex_digit d) = Some d \<and> \<not> is_ws (hex_digit d) \<and>
     hex_digit d \<notin> set ''-+xX''"
  by code_simp

lemma hex_digit_simps [simp]:
  assumes "d < 16"
  shows "hex_val (hex_digit d) = Some d" and "\<not> is_ws (hex_digit d)" and "is_hex (hex_digit d)"
    and "hex_digit d \<noteq> CHR ''-''" and "hex_digit d \<noteq> CHR ''+''"
    and "hex_digit d \<noteq> CHR ''x''" and "hex_digit d \<noteq> CHR ''X''"
  using hex_digit_table assms by (auto simp: is_hex_def)

definition field_end :: "string \<Rightarrow> bool" where
  "field_end rest \<longleftrightarrow> (case rest of [] \<Rightarrow> True | c # _ \<Rightarrow> c = CHR ''-'')"

lemma not_hex_dash [simp]: "\<not> is_hex CHR ''-''" "\<not> is_ws CHR ''-''"
  by (simp_all add: is_hex_def hex_val_def is_ws_def)

lemma strip_0x_digits:
  assumes "\<forall>d \<in> set ds. d < 16" and "ds \<noteq> []" and "field_end rest"
  shows "strip_0x (map hex_digit ds @ rest) = map hex_digit ds @ rest"
proof (cases "map hex_digit ds @ rest" rule: strip_0x.cases)
  case (1 c d cs)
  with assms have "d \<noteq> CHR ''x'' \<and> d \<noteq> CHR ''X''"
    by (cases ds; cases "tl ds") (auto simp: field_end_def split: list.splits)
  with 1 show ?thesis by simp
qed simp_all

lemma read_hex_digits:
  assumes ds: "\<forall>d \<in> set ds. d < 16" and ne: "ds \<noteq> []" and v: "radix_value 16 ds < 2 ^ 64"
    and rest: "field_end rest"
  shows "read_hex (map hex_digit ds @ rest) = Some (word_of_nat (radix_value 16 ds), rest)"
proof -
  obtain d ds' where d: "ds = d # ds'" "d < 16"
    using ne ds by (cases ds) auto
  have 1: "dropWhile is_ws (map hex_digit ds @ rest) = map hex_digit ds @ rest"
    using d by simp
  have 2: "split_sign (map hex_digit ds @ rest) = (False, map hex_digit ds @ rest)"
    using d by simp
  have 3: "takeWhile is_hex (map hex_digit ds @ rest) = map hex_digit ds"
    using ds rest by (induction ds) (auto simp: field_end_def split: list.splits)
  have 4: "dropWhile is_hex (map hex_digit ds @ rest) = rest"
    using ds rest by (induction ds) (auto simp: field_end_def split: list.splits)
  have 5: "map (\<lambda>c. the (hex_val c)) (map hex_digit ds) = ds"
    using ds by (induction ds) auto
  show ?thesis
    unfolding read_hex_def 1 2 Let_def prod.case strip_0x_digits [OF ds ne rest] 3 4 5
    using ne v by simp
qed

lemma read_hex_field:
  assumes "n < 2 ^ 64" and "field_end rest"
  shows "read_hex (map hex_digit (hex_field k n) @ rest) = Some (word_of_nat n, rest)"
  using assms by (subst read_hex_digits) auto

lemma field_end_simps [simp]: "field_end []" "field_end (CHR ''-'' # cs)"
  by (simp_all add: field_end_def)

lemma read_char_dash [simp]: "read_char (CHR ''-'' # cs) = Some cs"
  by (simp add: read_char_def)

definition printed :: "nat \<Rightarrow> nat \<Rightarrow> nat \<Rightarrow> nat \<Rightarrow> nat \<Rightarrow> nat \<Rightarrow> string" where
  "printed a b c d e f =
     map hex_digit (hex_field 8 a) @ ''-'' @ map hex_digit (hex_field 4 b) @ ''-'' @
     map hex_digit (hex_field 4 c) @ ''-'' @ map hex_digit (hex_field 4 d) @ ''-'' @
     map hex_digit (hex_field 4 e @ hex_field 8 f)"

lemma takeWhile_dash:
  "\<forall>d \<in> set ds. d < 16 \<Longrightarrow> takeWhile (\<lambda>c. c \<noteq> CHR ''-'') (map hex_digit ds @ CHR ''-'' # r) = map hex_digit ds"
  by (induction ds) auto

lemma rebuild_hex_printed:
  assumes "a < 2 ^ 32" "b < 2 ^ 16" "c < 2 ^ 16" "d < 2 ^ 16" "e < 2 ^ 16" "f < 2 ^ 32"
  shows "rebuild_hex (printed a b c d e f) =
    Uuid (push_bit 32 (word_of_nat a) OR push_bit 16 (word_of_nat b) OR word_of_nat c)
         (push_bit 48 (word_of_nat d) OR word_of_nat (e * 2 ^ 32 + f))"
proof -
  have len: "length (hex_field 8 f) = 8"
    using length_hex_field [of f 7] assms by simp
  have v: "radix_value 16 (hex_field 4 e @ hex_field 8 f) = e * 2 ^ 32 + f"
    by (simp add: radix_value_append len)
  have "read_hex (map hex_digit (hex_field 4 e @ hex_field 8 f) @ []) =
    Some (word_of_nat (e * 2 ^ 32 + f), [])"
    using assms by (subst read_hex_digits) (auto simp: v simp del: map_append)
  then show ?thesis
    using assms by (simp add: rebuild_hex_def printed_def read_hex_field)
qed

lemma rebuild_str_printed: "rebuild_str (printed a b c d e f) = rebuild_hex (printed a b c d e f)"
proof -
  obtain r where r: "printed a b c d e f =
      map hex_digit (hex_field 8 a) @ CHR ''-'' # map hex_digit (hex_field 4 b) @ CHR ''-'' # r"
    by (simp add: printed_def)
  show ?thesis
    by (simp add: rebuild_str_def r takeWhile_dash)
qed

lemma and_low_bits:
  "w AND 0xFFFF = take_bit 16 (w :: 'a::len word)"
  "w AND 0xFFFFFFFF = take_bit 32 w"
  by (simp_all add: take_bit_eq_mask mask_eq_exp_minus_1)

lemma take_bit_unat: "LENGTH('a) \<le> k \<Longrightarrow> take_bit k (unat (w :: 'a::len word)) = unat w"
  by (rule take_bit_nat_eq_self, rule less_le_trans [OF unat_less_pow]) simp

lemma unat_bits:
  "unat (drop_bit k w) = drop_bit k (unat (w :: 'a::len word))"
  "unat (take_bit k w) = take_bit k (unat w)"
  "unat (ucast v :: u32) = take_bit 32 (unat (v :: u64))"
  by (simp_all add: unsigned_drop_bit_eq unsigned_take_bit_eq unsigned_ucast_eq take_bit_unat drop_bit_take_bit)

lemma str_printed:
  "str u = printed (drop_bit 32 (unat (ab u))) (take_bit 16 (drop_bit 16 (unat (ab u))))
     (take_bit 16 (unat (ab u))) (drop_bit 48 (unat (cd u)))
     (take_bit 16 (drop_bit 32 (unat (cd u)))) (take_bit 32 (unat (cd u)))"
proof -
  have "take_bit 32 (drop_bit 32 (unat w)) = drop_bit 32 (unat w)" for w :: u64
    by (simp add: take_bit_unat take_bit_drop_bit)
  then show ?thesis
    by (simp add: str_def setw0_hex_str printed_def and_low_bits unat_bits drop_bit_take_bit)
qed

lemma word_of_nat_bits:
  "word_of_nat (drop_bit k (unat w)) = drop_bit k (w :: u64)"
  "word_of_nat (take_bit k (unat w)) = take_bit k w"
  "word_of_nat (take_bit k (drop_bit l (unat w))) = take_bit k (drop_bit l w)"
  by (simp_all flip: unat_bits)

lemma join_ab: "push_bit 32 (drop_bit 32 w) OR push_bit 16 (take_bit 16 (drop_bit 16 w)) OR take_bit 16 w = (w :: u64)"
proof (rule bit_eqI)
  show "bit (push_bit 32 (drop_bit 32 w) OR push_bit 16 (take_bit 16 (drop_bit 16 w)) OR take_bit 16 w) n = bit w n" for n
    by (cases "n < 16"; cases "n < 32") (auto simp: bit_simps dest: bit_imp_le_length)
qed

lemma join_cd: "push_bit 48 (drop_bit 48 w) OR take_bit 48 w = (w :: u64)"
  by (rule bit_eqI) (auto simp: bit_simps)

lemma join_low: "take_bit 16 (drop_bit 32 n) * 2 ^ 32 + take_bit 32 n = take_bit 48 (n :: nat)"
  using mod_mult2_eq [of n "2 ^ 32" "2 ^ 16"] by (simp add: take_bit_eq_mod drop_bit_eq_div)

lemma rebuild_str_str: "rebuild_str (str u) = u"
proof -
  have "unat (ab u) < 2 ^ 64" "unat (cd u) < 2 ^ 64"
    using unat_less_pow [of "ab u"] unat_less_pow [of "cd u"] by simp_all
  then have bounds: "drop_bit 32 (unat (ab u)) < 2 ^ 32" "drop_bit 48 (unat (cd u)) < 2 ^ 16"
    by (simp_all add: drop_bit_eq_div less_mult_imp_div_less)
  show ?thesis
    unfolding str_printed rebuild_str_printed
    by (subst rebuild_hex_printed)
      (use bounds in \<open>simp_all only: join_low word_of_nat_bits join_ab join_cd uuid.collapse take_bit_nat_less_exp\<close>)
qed

section \<open>Base 62\<close>

lemma base62_loop_radix: "base62_loop n acc = map ((!) base62_table) (radix 62 n) @ acc"
proof (induction n acc rule: base62_loop.induct)
  case (1 n acc)
  show ?case
  proof (cases "0 < n div 62")
    case True
    then have "\<not> n < 62" by auto
    with 1 True show ?thesis
      by (simp add: base62_loop.simps [of n acc] radix.simps [of 62 n] Let_def)
  next
    case False
    then have "n < 62" by auto
    then show ?thesis
      by (simp add: base62_loop.simps [of n acc] radix.simps [of 62 n] Let_def)
  qed
qed

lemma base62_table_facts:
  "list_all2 (\<lambda>d c. strpos c = word_of_nat d \<and> c \<noteq> CHR ''-'') [0..<62] base62_table"
  unfolding base62_table_def strpos_def char_int_def Let_def by (simp add: upt_rec)

lemma base62_digit [simp]:
  assumes "d < 62"
  shows "strpos (base62_table ! d) = word_of_nat d" and "base62_table ! d \<noteq> CHR ''-''"
  using list_all2_nthD [OF base62_table_facts, of d] assms by simp_all

lemma foldl_base62:
  "\<forall>d \<in> set ds. d < 62 \<Longrightarrow>
   foldl (\<lambda>res ch. 62 * res + strpos ch) (word_of_nat v) (map ((!) base62_table) ds) =
   word_of_nat (foldl (\<lambda>v d. 62 * v + d) v ds)"
proof (induction ds arbitrary: v)
  case Nil
  then show ?case by simp
next
  case (Cons d ds)
  then have "62 * word_of_nat v + strpos (base62_table ! d) = (word_of_nat (62 * v + d) :: u64)"
    by simp
  with Cons show ?case by (simp del: of_nat_add of_nat_mult)
qed

lemma rebase62_radix:
  "rebase62 (map ((!) base62_table) (radix 62 n) @ rest) (length (radix 62 n)) = word_of_nat n"
proof -
  obtain d ds where ds: "radix 62 n = d # ds"
    by (cases "radix 62 n") auto
  have small: "d < 62" "\<forall>x \<in> set ds. x < 62"
    using radix_digits [of 62 _ n] ds by auto
  have "foldl (\<lambda>v d. 62 * v + d) d ds = n"
    using radix_value_radix [of 62 n] ds by (simp add: radix_value_def)
  with small foldl_base62 [of ds d] show ?thesis
    by (simp add: rebase62_def ds)
qed

lemma rebuild_str_base62: "rebuild_str (base62 u) = u"
proof -
  let ?f = "map ((!) base62_table)" and ?a = "radix 62 (unat (ab u))" and ?c = "radix 62 (unat (cd u))"
  have no_dash: "CHR ''-'' \<notin> set (?f (radix 62 n))" for n
    using radix_digits [of 62 _ n] base62_digit(2) by (auto simp del: base62_digit) metis
  have b: "base62 u = ?f ?a @ CHR ''-'' # ?f ?c"
    by (simp add: base62_def base62_loop_radix)
  have t: "takeWhile (\<lambda>c. c \<noteq> CHR ''-'') (base62 u) = ?f ?a"
    unfolding b using no_dash [of "unat (ab u)"] by (subst takeWhile_append2) (auto, metis imageI)
  show ?thesis
    using no_dash [of "unat (cd u)"] rebase62_radix [of "unat (ab u)"] rebase62_radix [of "unat (cd u)"]
    by (simp add: rebuild_str_def t) (simp add: b)
qed

lemma length_base62: "length (base62 u) \<le> 23"
proof -
  have "length (radix 62 (unat w)) \<le> Suc 10" for w :: u64
    using unat_less_pow [of w] by (intro length_radix) simp_all
  from this [of "ab u"] this [of "cd u"] show ?thesis
    by (simp add: base62_def base62_loop_radix)
qed

lemma length_str: "length (str u) = 36"
proof -
  have "drop_bit 32 (unat (ab u)) < 16 ^ 8" "drop_bit 48 (unat (cd u)) < 16 ^ 4"
    using unat_less_pow [of "ab u"] unat_less_pow [of "cd u"]
    by (simp_all add: drop_bit_eq_div less_mult_imp_div_less)
  moreover have "take_bit 16 n < 16 ^ 4" "take_bit 32 n < 16 ^ 8" for n :: nat
    using take_bit_nat_less_exp [of 16 n] take_bit_nat_less_exp [of 32 n] by simp_all
  ultimately show ?thesis
    using length_hex_field [of _ 3] length_hex_field [of _ 7]
    by (simp add: str_printed printed_def)
qed
section \<open>Facts about the generators\<close>

definition nil_uuid :: uuid where
  "nil_uuid = Uuid 0 0"

lemma version_uuid4: "uuid_version (uuid4 r1 r2) = 4"
  by (simp add: uuid_version_def uuid4_def bit.conj_disj_distrib2 bit.conj_disj_distrib and.assoc)

lemma uuid4_not_nil: "uuid4 r1 r2 \<noteq> nil_uuid"
proof
  assume "uuid4 r1 r2 = nil_uuid"
  then have "uuid_version (uuid4 r1 r2) = 0"
    by (simp add: uuid_version_def nil_uuid_def)
  then show False by (simp add: version_uuid4)
qed

lemma get_time_increases:
  assumes "get_time last0 sec nsec offset = (t, last1)" and "last0 \<noteq> - 1"
  shows "last0 < last1" and "t = last1 + offset"
proof -
  have "last0 < last0 + 1"
    using assms(2) by (metis inc_less_eq_triv_imp linorder_less_linear word_le_less_eq)
  then show "last0 < last1" and "t = last1 + offset"
    using assms by (auto simp: get_time_def Let_def split: if_splits)
qed

section \<open>Properties\<close>

text \<open>The self test of the header: a number of identifiers from a generator are printed, parsed and compared.\<close>

primrec verify_uuids :: "('g \<Rightarrow> uuid \<times> 'g) \<Rightarrow> nat \<Rightarrow> 'g \<Rightarrow> (error, 'g, unit) outcome" where
  "verify_uuids fn 0 g = Returns () g"
| "verify_uuids fn (Suc n) g =
     (let (u, g) = fn g; rebuilt1 = rebuild_str (str u); rebuilt2 = rebuild_str (base62 u) in
      if \<not> uuid_eq rebuilt1 u then Throws AssertionFailed g
      else if \<not> uuid_eq rebuilt2 u then Throws AssertionFailed g
      else verify_uuids fn n g)"

lemma verify_uuids_passes: "\<exists>g'. verify_uuids fn n g = Returns () g'"
  by (induction n arbitrary: g) (simp_all add: split_beta rebuild_str_str rebuild_str_base62)

text \<open>C22: Both printed forms of an identifier, the hexadecimal one and the one in base 62, are parsed back
  to the identifier by \<open>rebuild\<close>.\<close>

theorem printed_uuid_is_rebuilt: "rebuild_str (str u) = u \<and> rebuild_str (base62 u) = u"
  by (simp add: rebuild_str_str rebuild_str_base62)

text \<open>The hexadecimal form has 36 characters, and the base 62 form fits the buffer of 24 characters that
  \<open>base62\<close> fills from its end.\<close>

theorem printed_uuid_fits: "length (str u) = 36 \<and> length (base62 u) < 24"
  using length_str [of u] length_base62 [of u] by simp

text \<open>A random identifier says that it has version 4, and is never the zero identifier, which in a
  message stands for the absence of a sender.\<close>

theorem random_uuid_is_valid: "uuid_version (uuid4 r1 r2) = 4 \<and> uuid4 r1 r2 \<noteq> nil_uuid"
  by (simp add: version_uuid4 uuid4_not_nil)

text \<open>C28: The times that one thread puts into identifiers increase strictly from call to call, whatever
  the clock does, until the 64-bit time has reached its last value.\<close>

theorem uuid_time_increases:
  assumes "get_time last0 sec0 nsec0 offset = (t0, last1)" and "get_time last1 sec1 nsec1 offset = (t1, last2)"
    and "last1 \<noteq> - 1"
  shows "last1 < last2 \<and> t0 = last1 + offset \<and> t1 = last2 + offset"
  using get_time_increases [OF assms(2,3)] assms(1) by (auto simp: get_time_def Let_def split: if_splits)

theorem uuid_time_increases_witness:
  "get_time 0 5 0 0 = (50000000, 50000000) \<and> get_time 50000000 4 0 0 = (50000001, 50000001) \<and>
   (50000000 :: u64) < 50000001"
proof -
  have 1: "get_time 0 5 0 0 = (50000000, 50000000)" and 2: "get_time 50000000 4 0 0 = (50000001, 50000001)"
    by (simp_all add: get_time_def)
  have "(50000000 :: u64) \<noteq> - 1"
    by simp
  from uuid_time_increases [OF 1 2 this] 1 2 show ?thesis by simp
qed

end
