(* ===== verification/Backing_Store.thy ===== *)
theory Backing_Store
  imports Roboflex_Prelude "HOL-Library.Monad_Syntax"
begin

unbundle bit_operations_syntax

text \<open>
  The buffers that hold a message (\<open>message_backing_store.h\<close>, \<open>message_backing_store.cpp\<close>):
  eight header bytes, \<open>RFLX\<close> and the total size in little-endian order, and behind them the
  data. A store made from a vector owns its bytes; a store made from a \<open>new\<close>ed buffer has a
  size of its own beside the allocation. A size is a \<open>uint32_t\<close>, so it wraps at 4 GiB.
  Reading or writing outside the buffer is \<open>None\<close>. Pointers into the buffer are the suffixes
  they point to.
\<close>

datatype backing_store =
    VectorStore (vec_bytes: "byte list")
  | NewStore (new_data: "byte list") (new_size: nat)

definition MESSAGE_HEADER_SIZE :: u32 where
  "MESSAGE_HEADER_SIZE = 8"

definition format_header :: "byte list" where
  "format_header = map (\<lambda>c. word_of_nat (of_char c)) ''RFLX''"

fun get_raw_data :: "backing_store \<Rightarrow> byte list" where
  "get_raw_data (VectorStore bs) = bs"
| "get_raw_data (NewStore bs n) = bs"

fun get_raw_size :: "backing_store \<Rightarrow> u32" where
  "get_raw_size (VectorStore bs) = word_of_nat (length bs)"
| "get_raw_size (NewStore bs n) = word_of_nat n"

fun set_raw_data :: "backing_store \<Rightarrow> byte list \<Rightarrow> backing_store" where
  "set_raw_data (VectorStore bs) bs' = VectorStore bs'"
| "set_raw_data (NewStore bs n) bs' = NewStore bs' n"

definition get_data :: "backing_store \<Rightarrow> byte list" where
  "get_data s = drop (unat MESSAGE_HEADER_SIZE) (get_raw_data s)"

definition get_size :: "backing_store \<Rightarrow> u32" where
  "get_size s = get_raw_size s - MESSAGE_HEADER_SIZE"

text \<open>\<open>memcpy\<close> of a block over the bytes at an offset of a buffer.\<close>

definition memcpy_at :: "byte list \<Rightarrow> nat \<Rightarrow> byte list \<Rightarrow> byte list option" where
  "memcpy_at dst off src =
     (if off + length src \<le> length dst
      then Some (take off dst @ src @ drop (off + length src) dst) else None)"

definition blit_header :: "backing_store \<Rightarrow> backing_store option" where
  "blit_header s = do {
     bs \<leftarrow> memcpy_at (get_raw_data s) 0 format_header;
     let size = get_size s + MESSAGE_HEADER_SIZE;
     bs \<leftarrow> memcpy_at bs 4 (u32_bytes size);
     Some (set_raw_data s bs) }"

definition message_announce :: "backing_store \<Rightarrow> byte list option" where
  "message_announce s =
     (if 4 \<le> length (get_raw_data s) then Some (take 4 (get_raw_data s)) else None)"

definition message_size :: "backing_store \<Rightarrow> u32 option" where
  "message_size s =
     (let szpos = drop 4 (get_raw_data s) in
      if length szpos < 4 then None
      else Some (push_bit 24 (ucast (szpos ! 3)) OR push_bit 16 (ucast (szpos ! 2)) OR
                 push_bit 8 (ucast (szpos ! 1)) OR ucast (szpos ! 0)))"

text \<open>
  Printing: \<open>ptr\<close> prints the address at an offset in the buffer, \<open>num\<close> a number. The range that is printed
  for a vector ends where the data would if there were no header, eight bytes early.
\<close>

fun store_to_string :: "(nat \<Rightarrow> string) \<Rightarrow> (nat \<Rightarrow> string) \<Rightarrow> backing_store \<Rightarrow> string" where
  "store_to_string ptr num (VectorStore bs) =
     (let s = VectorStore bs in
      ''<MessageBackingStoreVector'' @ '' from: '' @ ptr 0 @ '' to: '' @ ptr (unat (get_size s - 1)) @
      '' bytes: '' @ num (unat (get_size s)) @ ''>'')"
| "store_to_string ptr num (NewStore bs n) =
     ''<MessageBackingStoreNew'' @ '' data: '' @ ptr 0 @ '' size: '' @ num (unat (get_size (NewStore bs n))) @ ''>''"

section \<open>Facts\<close>

lemma get_raw_data_set [simp]:
  "get_raw_data (set_raw_data s bs) = bs"
  by (cases s) simp_all

lemma get_raw_size_set_same_length:
  "length bs = length (get_raw_data s) \<Longrightarrow> get_raw_size (set_raw_data s bs) = get_raw_size s"
  by (cases s) simp_all

lemma length_format_header [simp]: "length format_header = 4"
  by (simp add: format_header_def)

lemma blit_header_eq:
  "blit_header s =
     (if length (get_raw_data s) < 8 then None
      else Some (set_raw_data s (format_header @ u32_bytes (get_raw_size s) @ get_data s)))"
  by (auto simp: blit_header_def memcpy_at_def get_size_def get_data_def MESSAGE_HEADER_SIZE_def Let_def)

text \<open>Reading the size by shifts gives the little-endian value of the four bytes.\<close>

lemma bit_byte: "8 \<le> n \<Longrightarrow> \<not> bit (b :: byte) n"
  using bit_imp_le_length [of b n] by auto

lemma shifts_le_value:
  "push_bit 24 (ucast b3) OR push_bit 16 (ucast b2) OR push_bit 8 (ucast b1) OR ucast b0 =
   u32_value [b0, b1, b2, b3 :: byte]"
proof -
  have join: "ucast (b :: byte) + 256 * w = (push_bit 8 w OR ucast b :: u32)" for b w
  proof -
    have "256 * w = push_bit 8 w"
      by (simp add: push_bit_eq_mult)
    moreover have "ucast b + push_bit 8 w = (ucast b OR push_bit 8 w :: u32)"
      by (rule disjunctive_add_eq_or) (auto intro!: bit_eqI simp: bit_simps bit_byte)
    ultimately show ?thesis by (simp add: ac_simps)
  qed
  have bytes: "word_of_nat (unat b) = (ucast b :: u32)" for b :: byte
    by simp
  have "u32_value [b0, b1, b2, b3] =
      push_bit 8 (push_bit 8 (push_bit 8 (ucast b3) OR ucast b2) OR ucast b1) OR ucast b0"
    by (simp add: u32_value_def join [symmetric] bytes)
  then show ?thesis
    by (simp add: push_bit_or ac_simps)
qed

lemma message_size_eq:
  "message_size s =
     (if length (get_raw_data s) < 8 then None
      else Some (u32_value (take 4 (drop 4 (get_raw_data s)))))"
proof -
  have "take 4 bs = [bs ! 0, bs ! 1, bs ! 2, bs ! 3]" if "4 \<le> length bs" for bs :: "byte list"
    using that by (auto intro!: nth_equalityI simp: less_Suc_eq numeral_eq_Suc)
  then show ?thesis
    by (auto simp: message_size_def shifts_le_value Let_def)
qed

section \<open>Properties\<close>

text \<open>C11: Writing the header of a store of at least eight bytes makes the store announce \<open>RFLX\<close> and its own
  size, and leaves the data behind the header and the size alone.\<close>

theorem blit_header_is_read_back:
  assumes "8 \<le> length (get_raw_data s)"
  shows "\<exists>s'. blit_header s = Some s' \<and> message_announce s' = Some format_header \<and>
    message_size s' = Some (get_raw_size s) \<and> get_data s' = get_data s \<and> get_raw_size s' = get_raw_size s"
proof -
  let ?bs = "format_header @ u32_bytes (get_raw_size s) @ get_data s"
  have "length ?bs = length (get_raw_data s)"
    using assms by (simp add: get_data_def MESSAGE_HEADER_SIZE_def)
  then have "get_raw_size (set_raw_data s ?bs) = get_raw_size s"
    by (rule get_raw_size_set_same_length)
  then show ?thesis
    using assms
    by (simp add: blit_header_eq message_announce_def message_size_eq get_data_def MESSAGE_HEADER_SIZE_def)
qed

theorem blit_header_is_read_back_witness:
  "\<exists>s'. blit_header (VectorStore (replicate 9 1)) = Some s' \<and> message_size s' = Some 9"
  using blit_header_is_read_back [of "VectorStore (replicate 9 1)"] by auto

text \<open>A store shorter than a header cannot take one, and the size of its data, computed as an unsigned
  32-bit difference, wraps around to almost 4 GiB.\<close>

theorem short_store_size_wraps:
  assumes "length bs < 8"
  shows "blit_header (VectorStore bs) = None \<and> unat (get_size (VectorStore bs)) = 2 ^ 32 - 8 + length bs"
proof -
  have "word_of_nat (length bs) - (8 :: u32) = word_of_nat (2 ^ 32 - 8 + length bs)"
    using assms by (simp add: of_nat_diff)
  then have "unat (get_size (VectorStore bs)) = (2 ^ 32 - 8 + length bs) mod 2 ^ 32"
    by (simp add: get_size_def MESSAGE_HEADER_SIZE_def unat_of_nat del: of_nat_add)
  with assms show ?thesis
    by (simp add: blit_header_eq)
qed

theorem short_store_size_wraps_witness: "unat (get_size (VectorStore [1, 2, 3])) = 4294967291"
  using short_store_size_wraps [of "[1, 2, 3]"] by simp

end
