(* ===== verification/Flex_Value.thy ===== *)
theory Flex_Value
  imports Roboflex_Prelude Complex_Main
begin

text \<open>
  FlexBuffers is a library outside the repository. A message's data is modelled as the value it
  holds, one constructor per value type that \<open>copy_flex\<close> lists, and the library itself is a
  parameter, the record below: how values become bytes, the width of the slots of a
  vector, what overwriting a scalar in place leaves there, the order in which \<open>Keys\<close> lists the
  keys of a map, and what an accessor returns for a value of another type. A double is a real number: rounding is not modelled. The documented
  behaviour that theorems rely on is stated by the predicates at the end, which occur in those
  theorems as hypotheses.
\<close>

datatype flex =
    FNull
  | FInt u64
  | FUInt u64
  | FFloat real
  | FKey string
  | FString string
  | FIndirectInt u64
  | FIndirectUInt u64
  | FIndirectFloat real
  | FMap "(string \<times> flex) list"
  | FVector nat "flex list"
  | FVecInt "u64 list"
  | FVecUInt "u64 list"
  | FVecFloat "real list"
  | FVecBool "bool list"
  | FVecKey "string list"
  | FVecStringDeprecated "string list"
  | FFixInt "u64 list"
  | FFixUInt "u64 list"
  | FFixFloat "real list"
  | FBlob "byte list"
  | FBool bool

record flexlib =
  fl_encode :: "flex \<Rightarrow> byte list"
  fl_decode :: "byte list \<Rightarrow> flex"
  fl_width :: "flex list \<Rightarrow> nat"
  fl_mutate :: "nat \<Rightarrow> flex \<Rightarrow> flex \<Rightarrow> flex"
  fl_empty_typed :: flex
  fl_uint64 :: "flex \<Rightarrow> u64"
  fl_int64 :: "flex \<Rightarrow> u64"
  fl_double :: "flex \<Rightarrow> real"
  fl_string :: "flex \<Rightarrow> string"
  fl_blob :: "flex \<Rightarrow> byte list"
  fl_vector :: "flex \<Rightarrow> flex list"
  fl_map :: "flex \<Rightarrow> (string \<times> flex) list"
  fl_typed :: "flex \<Rightarrow> flex list"
  fl_key_vector :: "string list \<Rightarrow> string list"
  fl_keys :: "string list \<Rightarrow> string list"

section \<open>Reading\<close>

fun as_uint64 :: "flexlib \<Rightarrow> flex \<Rightarrow> u64" where
  "as_uint64 L (FUInt u) = u"
| "as_uint64 L (FIndirectUInt u) = u"
| "as_uint64 L v = fl_uint64 L v"

fun as_int64 :: "flexlib \<Rightarrow> flex \<Rightarrow> u64" where
  "as_int64 L (FInt i) = i"
| "as_int64 L (FIndirectInt i) = i"
| "as_int64 L v = fl_int64 L v"

definition as_int32 :: "flexlib \<Rightarrow> flex \<Rightarrow> u32" where
  "as_int32 L v = ucast (as_int64 L v)"

fun as_double :: "flexlib \<Rightarrow> flex \<Rightarrow> real" where
  "as_double L (FFloat x) = x"
| "as_double L (FIndirectFloat x) = x"
| "as_double L v = fl_double L v"

fun as_string :: "flexlib \<Rightarrow> flex \<Rightarrow> string" where
  "as_string L (FString s) = s"
| "as_string L v = fl_string L v"

fun as_blob :: "flexlib \<Rightarrow> flex \<Rightarrow> byte list" where
  "as_blob L (FBlob b) = b"
| "as_blob L v = fl_blob L v"

fun as_vector :: "flexlib \<Rightarrow> flex \<Rightarrow> flex list" where
  "as_vector L (FVector w xs) = xs"
| "as_vector L v = fl_vector L v"

fun is_map :: "flex \<Rightarrow> bool" where
  "is_map (FMap kvs) = True"
| "is_map v = False"

fun as_map :: "flexlib \<Rightarrow> flex \<Rightarrow> (string \<times> flex) list" where
  "as_map L (FMap kvs) = kvs"
| "as_map L v = fl_map L v"

text \<open>
  A missing key and an index past the end give a null reference. FlexBuffers sorts the entries of a map and
  leaves open which of two entries with the same key is found: the model takes the first, and theorems
  about looking up a key are about maps that have no key twice.
\<close>

definition map_at :: "(string \<times> flex) list \<Rightarrow> string \<Rightarrow> flex" where
  "map_at kvs k = (case map_of kvs k of Some v \<Rightarrow> v | None \<Rightarrow> FNull)"

definition vec_at :: "flex list \<Rightarrow> nat \<Rightarrow> flex" where
  "vec_at xs i = (if i < length xs then xs ! i else FNull)"

section \<open>Building\<close>

definition fb_vector :: "flexlib \<Rightarrow> flex list \<Rightarrow> flex" where
  "fb_vector L xs = FVector (fl_width L xs) xs"

text \<open>A typed vector takes the type of its elements, which must agree.\<close>

fun all_ints :: "flex list \<Rightarrow> u64 list option" where
  "all_ints [] = Some []"
| "all_ints (FInt i # xs) = map_option (Cons i) (all_ints xs)"
| "all_ints _ = None"

fun all_uints :: "flex list \<Rightarrow> u64 list option" where
  "all_uints [] = Some []"
| "all_uints (FUInt i # xs) = map_option (Cons i) (all_uints xs)"
| "all_uints _ = None"

fun all_floats :: "flex list \<Rightarrow> real list option" where
  "all_floats [] = Some []"
| "all_floats (FFloat i # xs) = map_option (Cons i) (all_floats xs)"
| "all_floats _ = None"

fun all_bools :: "flex list \<Rightarrow> bool list option" where
  "all_bools [] = Some []"
| "all_bools (FBool i # xs) = map_option (Cons i) (all_bools xs)"
| "all_bools _ = None"

fun fb_typed_vector :: "flexlib \<Rightarrow> flex list \<Rightarrow> flex option" where
  "fb_typed_vector L [] = Some (fl_empty_typed L)"
| "fb_typed_vector L (FInt i # xs) = map_option FVecInt (all_ints (FInt i # xs))"
| "fb_typed_vector L (FUInt i # xs) = map_option FVecUInt (all_uints (FUInt i # xs))"
| "fb_typed_vector L (FFloat i # xs) = map_option FVecFloat (all_floats (FFloat i # xs))"
| "fb_typed_vector L (FBool i # xs) = map_option FVecBool (all_bools (FBool i # xs))"
| "fb_typed_vector L _ = None"

section \<open>Documented behaviour of the library\<close>

text \<open>
  Overwriting a scalar of the same type works when it fits the slot, and eight bytes fit any; a
  string may be overwritten by one of the same length; the slots of a vector are as wide as its
  widest element needs, so an integer of more than 32 bits makes them eight bytes wide.
\<close>

definition mutation_laws :: "flexlib \<Rightarrow> bool" where
  "mutation_laws L \<longleftrightarrow>
     (\<forall>a b. fl_mutate L 8 (FUInt a) (FInt b) = FUInt b) \<and>
     (\<forall>x y. fl_mutate L 8 (FFloat x) (FFloat y) = FFloat y) \<and>
     (\<forall>w s t. length s = length t \<longrightarrow> fl_mutate L w (FString s) (FString t) = FString t) \<and>
     (\<forall>xs u. FUInt u \<in> set xs \<and> 2 ^ 32 \<le> unat u \<longrightarrow> fl_width L xs = 8)"

lemma mutation_width: "mutation_laws L \<Longrightarrow> FUInt u \<in> set xs \<Longrightarrow> 2 ^ 32 \<le> unat u \<Longrightarrow> fl_width L xs = 8"
  unfolding mutation_laws_def by blast

text \<open>What the builder wrote is read back.\<close>

definition reads_back :: "flexlib \<Rightarrow> flex \<Rightarrow> bool" where
  "reads_back L v \<longleftrightarrow> fl_encode L v \<noteq> [] \<and> fl_decode L (fl_encode L v) = v"

lemma map_at_simps [simp]:
  "map_at ((k, v) # kvs) k = v"
  "k \<noteq> k' \<Longrightarrow> map_at ((k', v) # kvs) k = map_at kvs k"
  "map_at [] k = FNull"
  by (simp_all add: map_at_def)

text \<open>
  A library with the documented behaviour, used to instantiate the parameter: every value is
  encoded as a single byte and decodes to a given value, slots are eight bytes wide.
\<close>

fun sample_mutate :: "nat \<Rightarrow> flex \<Rightarrow> flex \<Rightarrow> flex" where
  "sample_mutate w (FUInt a) (FInt b) = FUInt b"
| "sample_mutate w v v' = v'"

definition sample_lib :: "flex \<Rightarrow> flexlib" where
  "sample_lib v0 =
     \<lparr>fl_encode = (\<lambda>_. [1]), fl_decode = (\<lambda>_. v0), fl_width = (\<lambda>_. 8),
      fl_mutate = sample_mutate, fl_empty_typed = FVecKey [],
      fl_uint64 = (\<lambda>_. 0), fl_int64 = (\<lambda>_. 0), fl_double = (\<lambda>_. 0), fl_string = (\<lambda>_. []), fl_blob = (\<lambda>_. []),
      fl_vector = (\<lambda>_. []), fl_map = (\<lambda>_. []), fl_typed = (\<lambda>_. []), fl_key_vector = (\<lambda>ks. ks),
      fl_keys = (\<lambda>ks. ks)\<rparr>"

lemma sample_lib_laws: "mutation_laws (sample_lib v)"
  by (simp add: mutation_laws_def sample_lib_def)

end
