(* ===== verification/Message.thy ===== *)
theory Message
  imports Uuid Backing_Store Flex_Value "HOL-Library.AList"
begin

text \<open>
  The \<open>Message\<close> class (\<open>message.h\<close>, \<open>message.cpp\<close>) and the uuid serialization of
  \<open>flex_utils.cpp\<close>. A message is its backing store: the eight header bytes, the value that the
  data bytes encode, and the number of those bytes, which overwriting in place does not change.
  Two message objects made from each other share the store, so they are one message here. The
  clock that constructors read is an argument.
\<close>

record message =
  header :: "byte list"
  root :: flex
  data_len :: nat

definition raw_bytes :: "flexlib \<Rightarrow> message \<Rightarrow> byte list" where
  "raw_bytes L m = header m @ fl_encode L (root m)"

definition message_raw_size :: "message \<Rightarrow> u32" where
  "message_raw_size m = word_of_nat (length (header m) + data_len m)"

definition message_data_size :: "message \<Rightarrow> u32" where
  "message_data_size m = message_raw_size m - MESSAGE_HEADER_SIZE"

section \<open>Identifiers in a buffer\<close>

definition uuid_bytes :: "uuid \<Rightarrow> byte list" where
  "uuid_bytes g = u64_bytes (ab g) @ u64_bytes (cd g)"

definition serialize_uuid :: "uuid \<Rightarrow> string \<Rightarrow> string \<times> flex" where
  "serialize_uuid g key = (key, FBlob (uuid_bytes g))"

definition deserialize_uuid :: "byte list \<Rightarrow> uuid option" where
  "deserialize_uuid blob =
     (if length blob < 16 then None
      else Some (rebuild (u64_value (take 8 blob)) (u64_value (take 8 (drop 8 blob)))))"

section \<open>Accessors\<close>

definition get_flex_root :: "message \<Rightarrow> flex" where
  "get_flex_root m = (if message_data_size m = 0 then FNull else root m)"

definition root_map :: "flexlib \<Rightarrow> message \<Rightarrow> (string \<times> flex) list" where
  "root_map L m = as_map L (get_flex_root m)"

definition root_val :: "flexlib \<Rightarrow> message \<Rightarrow> string \<Rightarrow> flex" where
  "root_val L m key = map_at (root_map L m) key"

definition get_meta :: "flexlib \<Rightarrow> message \<Rightarrow> flex list" where
  "get_meta L m = as_vector L (root_val L m ''_meta'')"

definition timestamp :: "flexlib \<Rightarrow> message \<Rightarrow> real" where
  "timestamp L m = as_double L (vec_at (get_meta L m) 0)"

definition message_counter :: "flexlib \<Rightarrow> message \<Rightarrow> u64" where
  "message_counter L m = as_uint64 L (vec_at (get_meta L m) 1)"

definition source_node_guid :: "flexlib \<Rightarrow> message \<Rightarrow> uuid option" where
  "source_node_guid L m = deserialize_uuid (as_blob L (vec_at (get_meta L m) 2))"

definition source_node_name :: "flexlib \<Rightarrow> message \<Rightarrow> string" where
  "source_node_name L m = takeWhile (\<lambda>c. c \<noteq> CHR 0x00) (as_string L (vec_at (get_meta L m) 3))"

definition module_name_of :: "flexlib \<Rightarrow> message \<Rightarrow> string" where
  "module_name_of L m = as_string L (vec_at (get_meta L m) 4)"

definition message_name :: "flexlib \<Rightarrow> message \<Rightarrow> string" where
  "message_name L m = as_string L (vec_at (get_meta L m) 5)"

section \<open>Overwriting the meta information in place\<close>

text \<open>
  \<open>f\<close> gets the slot width of the meta vector and the old value. A message without a meta
  vector, or with a shorter one, yields null references, and overwriting those does nothing.
\<close>

definition mutate_meta :: "nat \<Rightarrow> (nat \<Rightarrow> flex \<Rightarrow> flex) \<Rightarrow> message \<Rightarrow> message" where
  "mutate_meta i f m =
     (case get_flex_root m of
        FMap kvs \<Rightarrow>
          (case map_of kvs ''_meta'' of
             Some (FVector w xs) \<Rightarrow>
               if i < length xs
               then m\<lparr>root := FMap (AList.update ''_meta'' (FVector w (xs[i := f w (xs ! i)])) kvs)\<rparr>
               else m
           | _ \<Rightarrow> m)
      | _ \<Rightarrow> m)"

definition set_timestamp :: "flexlib \<Rightarrow> real \<Rightarrow> message \<Rightarrow> message" where
  "set_timestamp L t = mutate_meta 0 (\<lambda>w old. fl_mutate L w old (FFloat t))"

definition set_message_counter :: "flexlib \<Rightarrow> u64 \<Rightarrow> message \<Rightarrow> message" where
  "set_message_counter L c = mutate_meta 1 (\<lambda>w old. fl_mutate L w old (FInt c))"

fun blit_blob :: "flexlib \<Rightarrow> byte list \<Rightarrow> nat \<Rightarrow> flex \<Rightarrow> flex" where
  "blit_blob L bs w (FBlob old) = FBlob (bs @ drop (length bs) old)"
| "blit_blob L bs w v = fl_mutate L w v (FBlob bs)"

definition set_source_node_guid :: "flexlib \<Rightarrow> uuid \<Rightarrow> message \<Rightarrow> (error, message, unit) outcome" where
  "set_source_node_guid L g m =
     (if length (as_blob L (vec_at (get_meta L m) 2)) < 16 then Throws OutOfBounds m
      else Returns () (mutate_meta 2 (blit_blob L (uuid_bytes g)) m))"

definition set_source_node_name :: "flexlib \<Rightarrow> string \<Rightarrow> message \<Rightarrow> (error, message, unit) outcome" where
  "set_source_node_name L n m =
     (if length n > 32 then Throws (NameTooLong n) m
      else Returns () (mutate_meta 3
             (\<lambda>w old. fl_mutate L w old (FString (n @ replicate (32 - length n) CHR 0x00))) m))"

definition set_sender_info :: "flexlib \<Rightarrow> string \<Rightarrow> uuid \<Rightarrow> u64 \<Rightarrow> message \<Rightarrow> (error, message, unit) outcome" where
  "set_sender_info L name guid message_send_counter m =
     (let m1 = (if message_counter L m = - 1 then set_message_counter L message_send_counter m else m) in
      case source_node_guid L m1 of
        None \<Rightarrow> Throws OutOfBounds m1
      | Some g \<Rightarrow>
          if ab g = 0 \<and> cd g = 0
          then andthen (set_source_node_guid L guid m1) (set_source_node_name L name)
          else Returns () m1)"

section \<open>Making a message\<close>

text \<open>
  \<open>get_builder\<close> leaves room for the header in front of the data, so \<open>finish_serialization\<close>
  always finds the room it writes the header to.
\<close>

definition finish_serialization :: "flexlib \<Rightarrow> flex \<Rightarrow> message" where
  "finish_serialization L v =
     (let s0 = VectorStore (replicate (unat MESSAGE_HEADER_SIZE) 0 @ fl_encode L v);
          s = (case blit_header s0 of Some s \<Rightarrow> s | None \<Rightarrow> s0)
      in \<lparr>header = take (unat MESSAGE_HEADER_SIZE) (get_raw_data s), root = v,
          data_len = length (fl_encode L v)\<rparr>)"

definition fresh_meta :: "flexlib \<Rightarrow> real \<Rightarrow> u64 \<Rightarrow> string \<Rightarrow> string \<Rightarrow> flex" where
  "fresh_meta L t c md nm =
     fb_vector L [FFloat t, FUInt c, FBlob (replicate 16 0), FString (replicate 32 CHR 0x00),
                  FString md, FString nm]"

text \<open>\<open>WriteMapRoot\<close> with its own meta information; \<open>payload\<close> is what \<open>f\<close> writes.\<close>

definition write_map_root :: "flexlib \<Rightarrow> real \<Rightarrow> string \<Rightarrow> string \<Rightarrow> (string \<times> flex) list \<Rightarrow> message" where
  "write_map_root L now md nm payload =
     finish_serialization L (FMap ((''_meta'', fresh_meta L now (- 1) md nm) # payload))"

text \<open>The constructor that takes over the meta information of another message.\<close>

definition message_with_header_of ::
  "flexlib \<Rightarrow> real \<Rightarrow> message \<Rightarrow> (string \<times> flex) list \<Rightarrow> (error, message, unit) outcome" where
  "message_with_header_of L now other payload =
     (let m = set_timestamp L (timestamp L other)
                (write_map_root L now (module_name_of L other) (message_name L other) payload) in
      andthen (set_source_node_name L (source_node_name L other) m)
        (\<lambda>m. case source_node_guid L other of
               None \<Rightarrow> Throws OutOfBounds m
             | Some g \<Rightarrow>
                 andthen (set_source_node_guid L g m)
                   (\<lambda>m. Returns () (set_message_counter L (message_counter L other) m))))"

text \<open>The constructor that shares the data of another message, and checks its name if given one.\<close>

definition message_from :: "flexlib \<Rightarrow> message \<Rightarrow> string \<Rightarrow> error + message" where
  "message_from L other child_message_name =
     (if child_message_name \<noteq> [] \<and> message_name L other \<noteq> child_message_name
      then Inl (UnexpectedMessage child_message_name (message_name L other))
      else Inr other)"

section \<open>Printing\<close>

text \<open>\<open>std::fixed\<close> with a precision: ties of the last digit go to the even one.\<close>

definition round_half_even :: "real \<Rightarrow> int" where
  "round_half_even x =
     (let f = \<lfloor>x\<rfloor>; d = x - of_int f in
      if d < 1 / 2 then f else if d > 1 / 2 then f + 1 else if even f then f else f + 1)"

definition fixed :: "nat \<Rightarrow> real \<Rightarrow> string" where
  "fixed p x =
     (let n = nat (round_half_even (\<bar>x\<bar> * 10 ^ p)) in
      (if x < 0 then ''-'' else []) @ dec_str (n div 10 ^ p) @
      (if p = 0 then [] else ''.'' @ setw0 p (dec_str (n mod 10 ^ p))))"

definition join_keys :: "string list \<Rightarrow> string" where
  "join_keys ks = concat (map (\<lambda>(i, k). (if i \<noteq> 0 then '', '' else []) @ k) (enumerate 0 ks))"

definition chars_of :: "byte list \<Rightarrow> string" where
  "chars_of bs = map (\<lambda>b. char_of (unat b)) bs"

text \<open>\<open>None\<close>: the identifier or the header is read outside its buffer.\<close>

definition message_to_string :: "flexlib \<Rightarrow> message \<Rightarrow> string option" where
  "message_to_string L m = do {
     guid \<leftarrow> source_node_guid L m;
     announce \<leftarrow> message_announce (VectorStore (raw_bytes L m));
     size \<leftarrow> message_size (VectorStore (raw_bytes L m));
     Some (''<Message \"'' @ module_name_of L m @ ''::'' @ message_name L m @ ''\"'' @
       '' t: '' @ fixed 3 (timestamp L m) @
       '' #: '' @ dec_str (unat (message_counter L m)) @
       '' source: \"'' @ source_node_name L m @ ''\"|'' @ str guid @
       '' payload: '' @ dec_str (unat (message_data_size m)) @ '' bytes, top-level keys: ['' @
       join_keys (fl_keys L (map fst (root_map L m))) @
       ''] <'' @ chars_of announce @ ''|'' @ dec_str (unat size) @ ''>>'') }"

section \<open>Well-formed messages\<close>

text \<open>
  \<open>has_meta m t c g n md nm\<close>: the message has data, its root is a map, and its meta vector has
  eight-byte slots holding these values.
\<close>

definition has_meta :: "message \<Rightarrow> real \<Rightarrow> u64 \<Rightarrow> uuid \<Rightarrow> string \<Rightarrow> string \<Rightarrow> string \<Rightarrow> bool" where
  "has_meta m t c g n md nm \<longleftrightarrow>
     message_data_size m \<noteq> 0 \<and> length n = 32 \<and>
     (\<exists>kvs. root m = FMap kvs \<and>
        map_of kvs ''_meta'' =
          Some (FVector 8 [FFloat t, FUInt c, FBlob (uuid_bytes g), FString n, FString md, FString nm]))"

definition wf_message :: "message \<Rightarrow> bool" where
  "wf_message m \<longleftrightarrow> (\<exists>t c g n md nm. has_meta m t c g n md nm)"

lemma wf_messageI: "has_meta m t c g n md nm \<Longrightarrow> wf_message m"
  unfolding wf_message_def by blast

lemma length_uuid_bytes [simp]: "length (uuid_bytes g) = 16"
  by (simp add: uuid_bytes_def)

lemma deserialize_uuid_bytes [simp]: "deserialize_uuid (uuid_bytes g) = Some g"
  by (simp add: deserialize_uuid_def rebuild_def uuid_bytes_def)

lemma has_meta_vector:
  assumes "has_meta m t c g n md nm"
  shows "get_meta L m = [FFloat t, FUInt c, FBlob (uuid_bytes g), FString n, FString md, FString nm]"
  using assms
  by (auto simp: has_meta_def get_meta_def root_val_def root_map_def get_flex_root_def map_at_def)

lemma has_meta_simps:
  assumes "has_meta m t c g n md nm"
  shows "timestamp L m = t" and "message_counter L m = c" and "source_node_guid L m = Some g"
    and "source_node_name L m = takeWhile (\<lambda>c. c \<noteq> CHR 0x00) n"
    and "module_name_of L m = md" and "message_name L m = nm"
  by (simp_all add: timestamp_def message_counter_def source_node_guid_def source_node_name_def
      module_name_of_def message_name_def vec_at_def has_meta_vector [OF assms])

lemma map_of_update_assoc: "map_of (AList.update k v kvs) = (map_of kvs)(k \<mapsto> v)"
  by (simp add: update_conv')

lemma mutate_meta_root:
  assumes "has_meta m t c g n md nm" and "i < 6"
  shows "\<exists>kvs. root m = FMap kvs \<and>
    mutate_meta i f m = m\<lparr>root := FMap (AList.update ''_meta'' (FVector 8
      ([FFloat t, FUInt c, FBlob (uuid_bytes g), FString n, FString md, FString nm]
         [i := f 8 ([FFloat t, FUInt c, FBlob (uuid_bytes g), FString n, FString md, FString nm] ! i)])) kvs)\<rparr>"
  using assms by (auto simp: mutate_meta_def has_meta_def get_flex_root_def)

lemma message_data_size_root [simp]:
  "message_data_size (m\<lparr>root := v\<rparr>) = message_data_size m"
  "message_raw_size (m\<lparr>root := v\<rparr>) = message_raw_size m"
  by (simp_all add: message_data_size_def message_raw_size_def)

lemma has_meta_mutate:
  assumes "has_meta m t c g n md nm" and "i < 6"
    and "[FFloat t, FUInt c, FBlob (uuid_bytes g), FString n, FString md, FString nm]
         [i := f 8 ([FFloat t, FUInt c, FBlob (uuid_bytes g), FString n, FString md, FString nm] ! i)] =
         [FFloat t', FUInt c', FBlob (uuid_bytes g'), FString n', FString md, FString nm]"
    and "length n' = 32"
  shows "has_meta (mutate_meta i f m) t' c' g' n' md nm"
  using mutate_meta_root [OF assms(1,2), of f] assms
  by (auto simp: has_meta_def map_of_update_assoc)

text \<open>Overwriting meta information leaves the payload, the header and the size alone.\<close>

lemma root_val_mutate_meta [framing]: "k \<noteq> ''_meta'' \<Longrightarrow> root_val L (mutate_meta i f m) k = root_val L m k"
  by (auto simp: mutate_meta_def root_val_def root_map_def get_flex_root_def map_at_def map_of_update_assoc
      split: flex.splits option.splits)

lemma header_mutate_meta [framing, simp]:
  "header (mutate_meta i f m) = header m" "data_len (mutate_meta i f m) = data_len m"
  by (auto simp: mutate_meta_def split: flex.splits option.splits)

lemma has_meta_set_timestamp:
  assumes "mutation_laws L" and "has_meta m t c g n md nm"
  shows "has_meta (set_timestamp L t' m) t' c g n md nm"
  unfolding set_timestamp_def using assms
  by (intro has_meta_mutate [OF assms(2)]) (auto simp: mutation_laws_def has_meta_def)

lemma has_meta_set_counter:
  assumes "mutation_laws L" and "has_meta m t c g n md nm"
  shows "has_meta (set_message_counter L c' m) t c' g n md nm"
  unfolding set_message_counter_def using assms
  by (intro has_meta_mutate [OF assms(2)]) (auto simp: mutation_laws_def has_meta_def)

definition padded_name :: "string \<Rightarrow> string" where
  "padded_name n = n @ replicate (32 - length n) CHR 0x00"

lemma takeWhile_padded_name:
  "CHR 0x00 \<notin> set n \<Longrightarrow> takeWhile (\<lambda>c. c \<noteq> CHR 0x00) (padded_name n) = n"
proof (induction n)
  case Nil
  have "takeWhile (\<lambda>c. c \<noteq> CHR 0x00) (replicate k CHR 0x00) = []" for k
    by (cases k) simp_all
  then show ?case by (simp add: padded_name_def)
next
  case (Cons c n)
  have "takeWhile (\<lambda>c. c \<noteq> CHR 0x00) ((c # n) @ replicate k CHR 0x00) = c # n" for k
    using Cons.prems by (subst takeWhile_append2) (auto simp: takeWhile_eq_Nil_iff)
  then show ?case by (simp only: padded_name_def)
qed

lemma set_guid_eq:
  assumes "has_meta m t c g n md nm"
  shows "set_source_node_guid L g' m = Returns () (mutate_meta 2 (blit_blob L (uuid_bytes g')) m)"
  by (simp add: set_source_node_guid_def has_meta_vector [OF assms] vec_at_def)

lemma has_meta_set_guid:
  assumes "has_meta m t c g n md nm"
  shows "has_meta (mutate_meta 2 (blit_blob L (uuid_bytes g')) m) t c g' n md nm"
  using assms by (intro has_meta_mutate [OF assms]) (auto simp: has_meta_def)

lemma has_meta_set_name:
  assumes "mutation_laws L" and "has_meta m t c g n md nm" and "length n' \<le> 32"
  shows "has_meta (mutate_meta 3 (\<lambda>w old. fl_mutate L w old (FString (padded_name n'))) m) t c g (padded_name n') md nm"
  using assms
  by (intro has_meta_mutate [OF assms(2)]) (auto simp: has_meta_def mutation_laws_def padded_name_def)

lemma set_name_eq:
  "set_source_node_name L n' m =
    (if length n' > 32 then Throws (NameTooLong n') m
     else Returns () (mutate_meta 3 (\<lambda>w old. fl_mutate L w old (FString (padded_name n'))) m))"
  by (simp add: set_source_node_name_def padded_name_def)

section \<open>Stamping a message with its sender\<close>

lemma stamp_first:
  assumes L: "mutation_laws L" and m: "has_meta m t (- 1) nil_uuid n md nm" and len: "length name \<le> 32"
  obtains m' where "set_sender_info L name guid c m = Returns () m'"
    and "has_meta m' t c guid (padded_name name) md nm"
    and "\<And>k. k \<noteq> ''_meta'' \<Longrightarrow> root_val L m' k = root_val L m k"
    and "header m' = header m" and "data_len m' = data_len m"
proof -
  define m1 where "m1 = set_message_counter L c m"
  define m2 where "m2 = mutate_meta 2 (blit_blob L (uuid_bytes guid)) m1"
  define m3 where "m3 = mutate_meta 3 (\<lambda>w old. fl_mutate L w old (FString (padded_name name))) m2"
  have h1: "has_meta m1 t c nil_uuid n md nm"
    unfolding m1_def by (rule has_meta_set_counter [OF L m])
  have h2: "has_meta m2 t c guid n md nm"
    unfolding m2_def by (rule has_meta_set_guid [OF h1])
  have h3: "has_meta m3 t c guid (padded_name name) md nm"
    unfolding m3_def by (rule has_meta_set_name [OF L h2 len])
  have "set_sender_info L name guid c m = Returns () m3"
    using len
    by (simp add: set_sender_info_def has_meta_simps [OF m] has_meta_simps [OF h1] set_guid_eq [OF h1]
        set_name_eq nil_uuid_def flip: m1_def m2_def m3_def)
  moreover have "root_val L m3 k = root_val L m k" if "k \<noteq> ''_meta''" for k
    using that by (simp add: m3_def m2_def m1_def set_message_counter_def framing)
  ultimately show ?thesis
    using that h3 by (simp add: m3_def m2_def m1_def set_message_counter_def)
qed

lemma stamp_keeps:
  assumes m: "has_meta m t c g n md nm" and "c \<noteq> - 1" and "g \<noteq> nil_uuid"
  shows "set_sender_info L name guid c' m = Returns () m"
proof -
  have "\<not> (ab g = 0 \<and> cd g = 0)"
    using assms(3) by (cases g) (simp add: nil_uuid_def)
  then show ?thesis
    using assms(2) by (auto simp: set_sender_info_def has_meta_simps [OF m])
qed

lemma wf_message_stamp:
  assumes L: "mutation_laws L" and m: "wf_message m"
  shows "ends wf_message (set_sender_info L name guid c m)"
proof -
  from m obtain t c0 g n md nm where h: "has_meta m t c0 g n md nm"
    by (auto simp: wf_message_def)
  define m1 where "m1 = (if c0 = - 1 then set_message_counter L c m else m)"
  have h1: "has_meta m1 t (if c0 = - 1 then c else c0) g n md nm"
    using has_meta_set_counter [OF L h] h by (simp add: m1_def)
  note h2 = has_meta_set_guid [OF h1, of L guid]
  note wf = wf_messageI [OF h1] wf_messageI [OF h2] wf_messageI [OF has_meta_set_name [OF L h2]]
  show ?thesis
    using wf
    by (cases "length name \<le> 32")
      (auto simp: set_sender_info_def has_meta_simps [OF h] has_meta_simps [OF h1] set_guid_eq [OF h1]
        set_name_eq simp flip: m1_def)
qed

section \<open>New messages\<close>

lemma header_finish:
  "header (finish_serialization L v) =
     format_header @ u32_bytes (word_of_nat (8 + length (fl_encode L v)))"
  by (simp add: finish_serialization_def blit_header_eq MESSAGE_HEADER_SIZE_def Let_def)

lemma finish_simps [simp]:
  "root (finish_serialization L v) = v"
  "data_len (finish_serialization L v) = length (fl_encode L v)"
  by (simp_all add: finish_serialization_def Let_def)

lemma raw_bytes_finish:
  "blit_header (VectorStore (replicate 8 0 @ fl_encode L v)) =
     Some (VectorStore (raw_bytes L (finish_serialization L v)))"
  by (simp add: raw_bytes_def header_finish blit_header_eq get_data_def MESSAGE_HEADER_SIZE_def)

definition has_data :: "flexlib \<Rightarrow> flex \<Rightarrow> bool" where
  "has_data L v \<longleftrightarrow> fl_encode L v \<noteq> [] \<and> length (fl_encode L v) < 2 ^ 32"

lemma data_size_finish:
  "message_data_size (finish_serialization L v) = word_of_nat (length (fl_encode L v))"
  by (simp add: message_data_size_def message_raw_size_def header_finish MESSAGE_HEADER_SIZE_def)

lemma has_meta_new:
  assumes L: "mutation_laws L" and d: "has_data L (FMap ((''_meta'', fresh_meta L now (- 1) md nm) # payload))"
  shows "has_meta (write_map_root L now md nm payload) now (- 1) nil_uuid (replicate 32 CHR 0x00) md nm"
proof -
  have "unat (- 1 :: u64) = 2 ^ 64 - 1"
    by (simp add: unsigned_minus_1_eq_mask mask_eq_exp_minus_1)
  then have "2 ^ 32 \<le> unat (- 1 :: u64)"
    by simp
  then have w: "fl_width L (FFloat now # FUInt (- 1) # xs) = 8" for xs
    by (intro mutation_width [OF L, of "- 1"]) simp_all
  have "replicate 16 (0 :: byte) = uuid_bytes nil_uuid"
    by (simp add: uuid_bytes_def nil_uuid_def u64_bytes_def le_bytes_zero flip: replicate_add)
  moreover have "message_data_size (write_map_root L now md nm payload) \<noteq> 0"
    using d unfolding write_map_root_def data_size_finish
    by (auto simp: has_data_def word_of_nat_eq_0_iff dvd_def)
  ultimately show ?thesis
    using w by (auto simp: has_meta_def write_map_root_def fresh_meta_def fb_vector_def)
qed
end
