(* ===== verification/Copy_Flex.thy ===== *)
theory Copy_Flex
  imports Message
begin

text \<open>
  \<open>copy_flex\<close> of \<open>message.cpp\<close> and the constructor that copies all top-level entries of a
  message but some. \<open>copy_flex\<close> pushes values onto the stack of the builder: one for most types,
  none for the deprecated string vectors. A map whose entry got no value, and a typed vector
  whose elements differ in type, leave the builder malformed, which is \<open>None\<close>.
\<close>

fun sole_value :: "flex list option \<Rightarrow> flex option" where
  "sole_value (Some [v]) = Some v"
| "sole_value _ = None"

lemma size_map_at: "map_of kvs k = Some v \<Longrightarrow> size v \<le> size_list (size_prod (\<lambda>x. 0) size) kvs"
  by (induction kvs) (auto split: if_splits)

function copy_flex :: "flexlib \<Rightarrow> flex \<Rightarrow> flex list option" where
  "copy_flex L FNull = Some [FNull]"
| "copy_flex L (FInt i) = Some [FInt i]"
| "copy_flex L (FUInt u) = Some [FUInt u]"
| "copy_flex L (FFloat x) = Some [FFloat x]"
| "copy_flex L (FKey s) = Some [FString s]"
| "copy_flex L (FString s) = Some [FString s]"
| "copy_flex L (FIndirectInt i) = Some [FInt i]"
| "copy_flex L (FIndirectUInt u) = Some [FUInt u]"
| "copy_flex L (FIndirectFloat x) = Some [FFloat x]"
| "copy_flex L (FMap kvs) =
     map_option (\<lambda>vs. [FMap (zip (map fst kvs) vs)])
       (those (map (\<lambda>key. case map_of kvs key of
                            None \<Rightarrow> None
                          | Some v \<Rightarrow> sole_value (copy_flex L v)) (map fst kvs)))"
| "copy_flex L (FVector w xs) =
     map_option (\<lambda>vss. [fb_vector L (concat vss)]) (those (map (copy_flex L) xs))"
| "copy_flex L (FVecInt xs) = map_option (\<lambda>v. [v]) (fb_typed_vector L (map FInt xs))"
| "copy_flex L (FVecUInt xs) = map_option (\<lambda>v. [v]) (fb_typed_vector L (map FUInt xs))"
| "copy_flex L (FVecFloat xs) = map_option (\<lambda>v. [v]) (fb_typed_vector L (map FFloat xs))"
| "copy_flex L (FVecBool xs) = map_option (\<lambda>v. [v]) (fb_typed_vector L (map FBool xs))"
| "copy_flex L (FVecKey ks) = Some [fb_vector L (map FString (fl_key_vector L ks))]"
| "copy_flex L (FVecStringDeprecated ss) = Some []"
| "copy_flex L (FFixInt xs) = Some [FFixInt xs]"
| "copy_flex L (FFixUInt xs) = Some [FFixUInt xs]"
| "copy_flex L (FFixFloat xs) = Some [FFixFloat xs]"
| "copy_flex L (FBlob b) = Some [FBlob b]"
| "copy_flex L (FBool b) = Some [FBool b]"
  by pat_completeness auto
termination
  by (relation "measure (\<lambda>(L, v). size v)") (auto simp: size_map_at less_Suc_eq_le intro: size_list_estimation')

definition message_copying ::
  "flexlib \<Rightarrow> string \<Rightarrow> string \<Rightarrow> message \<Rightarrow> string set \<Rightarrow> (string \<times> flex) list \<Rightarrow> message option" where
  "message_copying L md nm copy_from omit_keys payload =
     (let copy_from_root = root_map L copy_from;
          keys = filter (\<lambda>key. key \<notin> omit_keys \<and> key \<noteq> ''_meta'') (map fst copy_from_root);
          meta = fresh_meta L (timestamp L copy_from) (message_counter L copy_from) md nm
      in map_option
           (\<lambda>vs. finish_serialization L (FMap (zip keys vs @ (''_meta'', meta) # payload)))
           (those (map (\<lambda>key. sole_value (copy_flex L (map_at copy_from_root key))) keys)))"

section \<open>What a copy keeps\<close>

text \<open>
  Values that the copy reproduces exactly: keys as values, indirect scalars and key vectors come
  out as strings, direct scalars and vectors.
\<close>

fun plain :: "flexlib \<Rightarrow> flex \<Rightarrow> bool" where
  "plain L (FKey s) = False"
| "plain L (FIndirectInt i) = False"
| "plain L (FIndirectUInt i) = False"
| "plain L (FIndirectFloat x) = False"
| "plain L (FMap kvs) = (distinct (map fst kvs) \<and> (\<forall>kv \<in> set kvs. plain L (snd kv)))"
| "plain L (FVector w xs) = (w = fl_width L xs \<and> (\<forall>x \<in> set xs. plain L x))"
| "plain L (FVecInt xs) = (xs \<noteq> [])"
| "plain L (FVecUInt xs) = (xs \<noteq> [])"
| "plain L (FVecFloat xs) = (xs \<noteq> [])"
| "plain L (FVecBool xs) = (xs \<noteq> [])"
| "plain L (FVecKey ks) = False"
| "plain L (FVecStringDeprecated ss) = False"
| "plain L _ = True"

lemma all_ints_map [simp]: "all_ints (map FInt xs) = Some xs"
  by (induction xs) simp_all

lemma all_uints_map [simp]: "all_uints (map FUInt xs) = Some xs"
  by (induction xs) simp_all

lemma all_floats_map [simp]: "all_floats (map FFloat xs) = Some xs"
  by (induction xs) simp_all

lemma all_bools_map [simp]: "all_bools (map FBool xs) = Some xs"
  by (induction xs) simp_all

lemma those_map_Some: "(\<And>x. x \<in> set xs \<Longrightarrow> f x = Some (g x)) \<Longrightarrow> those (map f xs) = Some (map g xs)"
  by (induction xs) auto

lemma copy_plain: "plain L v \<Longrightarrow> copy_flex L v = Some [v]"
proof (induction L v rule: copy_flex.induct)
  case (10 L kvs)
  have entry: "(case map_of kvs key of None \<Rightarrow> None | Some v \<Rightarrow> sole_value (copy_flex L v)) =
      Some (the (map_of kvs key))" if key: "key \<in> set (map fst kvs)" for key
  proof -
    obtain v where v: "map_of kvs key = Some v"
      using key by (auto simp: domD dom_map_of_conv_image_fst image_iff dest: weak_map_of_SomeI)
    moreover have "plain L v"
      using 10(2) map_of_SomeD [OF v] by auto
    ultimately show ?thesis
      using 10(1) key by simp
  qed
  have "map (\<lambda>key. the (map_of kvs key)) (map fst kvs) = map snd kvs"
    using 10(2) by (auto simp: map_of_is_SomeI)
  moreover have "those (map (\<lambda>key. case map_of kvs key of None \<Rightarrow> None
        | Some v \<Rightarrow> sole_value (copy_flex L v)) (map fst kvs)) =
      Some (map (\<lambda>key. the (map_of kvs key)) (map fst kvs))"
    by (rule those_map_Some) (rule entry)
  ultimately show ?case
    by (simp only: copy_flex.simps option.map zip_map_fst_snd)
next
  case (11 L w xs)
  have "those (map (copy_flex L) xs) = Some (map (\<lambda>x. [x]) xs)"
    using 11 by (intro those_map_Some) auto
  then show ?case
    using 11 by (simp add: fb_vector_def)
next
  case (12 L xs)
  then show ?case by (cases xs) auto
next
  case (13 L xs)
  then show ?case by (cases xs) auto
next
  case (14 L xs)
  then show ?case by (cases xs) auto
next
  case (15 L xs)
  then show ?case by (cases xs) auto
qed simp_all

definition copied_keys :: "flexlib \<Rightarrow> message \<Rightarrow> string set \<Rightarrow> string list" where
  "copied_keys L m omit_keys = filter (\<lambda>key. key \<notin> omit_keys \<and> key \<noteq> ''_meta'') (map fst (root_map L m))"

definition copied_map ::
  "flexlib \<Rightarrow> string \<Rightarrow> string \<Rightarrow> message \<Rightarrow> string set \<Rightarrow> (string \<times> flex) list \<Rightarrow> (string \<times> flex) list" where
  "copied_map L md nm m omit_keys payload =
     map (\<lambda>key. (key, the (sole_value (copy_flex L (map_at (root_map L m) key))))) (copied_keys L m omit_keys) @
     (''_meta'', fresh_meta L (timestamp L m) (message_counter L m) md nm) # payload"

lemma message_copying_eq:
  assumes "\<And>key. key \<in> set (copied_keys L m omit_keys) \<Longrightarrow> sole_value (copy_flex L (map_at (root_map L m) key)) \<noteq> None"
  shows "message_copying L md nm m omit_keys payload =
    Some (finish_serialization L (FMap (copied_map L md nm m omit_keys payload)))"
proof -
  have "those (map (\<lambda>key. sole_value (copy_flex L (map_at (root_map L m) key))) (copied_keys L m omit_keys)) =
      Some (map (\<lambda>key. the (sole_value (copy_flex L (map_at (root_map L m) key)))) (copied_keys L m omit_keys))"
    by (rule those_map_Some) (use assms in force)
  moreover have "zip ks (map f ks) = map (\<lambda>k. (k, f k)) ks" for ks :: "string list" and f :: "string \<Rightarrow> flex"
    by (induction ks) simp_all
  ultimately show ?thesis
    by (simp add: message_copying_def Let_def copied_map_def flip: copied_keys_def)
qed

lemma sole_value_Some: "sole_value r = Some v \<longleftrightarrow> r = Some [v]"
  by (cases r rule: sole_value.cases) simp_all

lemma map_at_tabulate: "map_at (map (\<lambda>k. (k, f k)) ks @ rest) k = (if k \<in> set ks then f k else map_at rest k)"
  by (induction ks) (auto simp: map_at_def)

lemma map_at_copied:
  "map_at (copied_map L md nm m omit_keys payload) k =
    (if k \<in> set (copied_keys L m omit_keys) then the (sole_value (copy_flex L (map_at (root_map L m) k)))
     else if k = ''_meta'' then fresh_meta L (timestamp L m) (message_counter L m) md nm
     else map_at payload k)"
  by (simp add: copied_map_def map_at_tabulate)

lemma root_map_finish:
  "has_data L (FMap kvs) \<Longrightarrow> root_map L (finish_serialization L (FMap kvs)) = kvs"
  by (auto simp: root_map_def get_flex_root_def data_size_finish has_data_def word_of_nat_eq_0_iff dvd_def)

lemma meta_of_copy:
  assumes "has_data L (FMap (copied_map L md nm m omit_keys payload))"
  shows "get_meta L (finish_serialization L (FMap (copied_map L md nm m omit_keys payload))) =
    [FFloat (timestamp L m), FUInt (message_counter L m), FBlob (replicate 16 0),
     FString (replicate 32 CHR 0x00), FString md, FString nm]"
  by (simp add: get_meta_def root_val_def root_map_finish [OF assms] map_at_copied)
    (simp add: copied_keys_def fresh_meta_def fb_vector_def)

section \<open>Properties\<close>

text \<open>C21: If every entry to copy has one value that the builder can hold, and no key comes twice, then the
  message made by copying another has for every entry of the original but the omitted ones its copy, and
  the entries of its payload, the time and the counter of the original, and no sender. The copy of an entry is
  the entry itself where it is plain: keys, indirect scalars, vectors of keys and empty typed vectors are not.\<close>

theorem copy_keeps_entries:
  assumes copies: "\<And>key. key \<in> set (copied_keys L m omit_keys) \<Longrightarrow> sole_value (copy_flex L (root_val L m key)) \<noteq> None"
    and "has_data L (FMap (copied_map L md nm m omit_keys payload))"
    and "distinct (map fst (copied_map L md nm m omit_keys payload))"
  shows "\<exists>m'. message_copying L md nm m omit_keys payload = Some m' \<and>
    (\<forall>k \<in> set (copied_keys L m omit_keys). copy_flex L (root_val L m k) = Some [root_val L m' k] \<and>
       (plain L (root_val L m k) \<longrightarrow> root_val L m' k = root_val L m k)) \<and>
    (\<forall>(k, v) \<in> set payload. root_val L m' k = v) \<and>
    (\<forall>k. k \<noteq> ''_meta'' \<and> k \<notin> set (copied_keys L m omit_keys) \<and> k \<notin> set (map fst payload) \<longrightarrow> root_val L m' k = FNull) \<and>
    timestamp L m' = timestamp L m \<and> message_counter L m' = message_counter L m \<and>
    source_node_guid L m' = Some nil_uuid \<and> message_name L m' = nm \<and> module_name_of L m' = md"
proof -
  let ?kvs = "copied_map L md nm m omit_keys payload"
  let ?m' = "finish_serialization L (FMap ?kvs)"
  have "deserialize_uuid (replicate 16 0) = Some nil_uuid"
    by code_simp
  then have meta: "timestamp L ?m' = timestamp L m" "message_counter L ?m' = message_counter L m"
      "source_node_guid L ?m' = Some nil_uuid" "message_name L ?m' = nm" "module_name_of L ?m' = md"
    using meta_of_copy [OF assms(2)]
    by (simp_all add: timestamp_def message_counter_def source_node_guid_def message_name_def module_name_of_def vec_at_def)
  have copied: "copy_flex L (root_val L m k) = Some [root_val L ?m' k]" if "k \<in> set (copied_keys L m omit_keys)" for k
    using copies [OF that] that
    by (auto simp: root_val_def root_map_finish [OF assms(2)] map_at_copied simp flip: sole_value_Some)
  have payload: "root_val L ?m' k = v" if "(k, v) \<in> set payload" for k v
  proof -
    have "(k, v) \<in> set ?kvs"
      using that by (simp add: copied_map_def)
    then show ?thesis
      using assms(3) by (simp add: root_val_def root_map_finish [OF assms(2)] map_at_def)
  qed
  have none: "root_val L ?m' k = FNull"
    if "k \<noteq> ''_meta''" "k \<notin> set (copied_keys L m omit_keys)" "k \<notin> set (map fst payload)" for k
  proof -
    have "map_of payload k = None"
      using that(3) by (simp add: map_of_eq_None_iff)
    then have "map_at payload k = FNull"
      by (simp add: map_at_def)
    then show ?thesis
      using that(1,2) by (simp add: root_val_def root_map_finish [OF assms(2)] map_at_copied)
  qed
  have same: "root_val L ?m' k = root_val L m k"
    if "k \<in> set (copied_keys L m omit_keys)" "plain L (root_val L m k)" for k
    using copied [OF that(1)] copy_plain [OF that(2)] by simp
  have "message_copying L md nm m omit_keys payload = Some ?m'"
    by (rule message_copying_eq) (use copies in \<open>simp add: root_val_def\<close>)
  with meta copied payload none same show ?thesis
    by (intro exI [of _ ?m']) auto
qed

theorem copy_keeps_entries_witness:
  "\<exists>m'. message_copying (sample_lib FNull) ''core'' ''copy''
      (write_map_root (sample_lib FNull) 3 ''core'' ''orig'' [(''a'', FBool True), (''b'', FBool False), (''i'', FIndirectInt 4)])
      {''b''} [(''c'', FString ''x'')] = Some m' \<and>
    root_val (sample_lib FNull) m' ''a'' = FBool True \<and> root_val (sample_lib FNull) m' ''b'' = FNull \<and>
    root_val (sample_lib FNull) m' ''c'' = FString ''x'' \<and> root_val (sample_lib FNull) m' ''i'' = FInt 4"
proof -
  let ?L = "sample_lib FNull"
  let ?m = "write_map_root ?L 3 ''core'' ''orig'' [(''a'', FBool True), (''b'', FBool False), (''i'', FIndirectInt 4)]"
  have d: "has_data ?L v" for v
    by (simp add: has_data_def sample_lib_def)
  have root: "root_map ?L ?m = (''_meta'', fresh_meta ?L 3 (- 1) ''core'' ''orig'') #
      [(''a'', FBool True), (''b'', FBool False), (''i'', FIndirectInt 4)]"
    unfolding write_map_root_def by (rule root_map_finish [OF d])
  have keys: "copied_keys ?L ?m {''b''} = [''a'', ''i'']"
    by (simp add: copied_keys_def root)
  have vals: "root_val ?L ?m ''a'' = FBool True" "root_val ?L ?m ''i'' = FIndirectInt 4"
    by (simp_all add: root_val_def root map_at_def)
  have copies: "sole_value (copy_flex ?L (root_val ?L ?m key)) \<noteq> None" if "key \<in> set (copied_keys ?L ?m {''b''})" for key
    using that vals by (auto simp: keys)
  have dist: "distinct (map fst (copied_map ?L ''core'' ''copy'' ?m {''b''} [(''c'', FString ''x'')]))"
    by (simp add: copied_map_def keys)
  from copy_keeps_entries [OF copies d dist] obtain m' where m':
      "message_copying ?L ''core'' ''copy'' ?m {''b''} [(''c'', FString ''x'')] = Some m' \<and>
       copy_flex ?L (FBool True) = Some [root_val ?L m' ''a''] \<and> copy_flex ?L (FIndirectInt 4) = Some [root_val ?L m' ''i''] \<and>
       root_val ?L m' ''c'' = FString ''x'' \<and> root_val ?L m' ''b'' = FNull"
    using vals by (auto simp: keys)
  then show ?thesis
    by auto
qed

end
