(* ===== verification/Metric_Tracker.thy ===== *)
theory Metric_Tracker
  imports Copy_Flex "HOL-Library.List_Lexorder" "HOL-Library.Char_ord"
begin

text \<open>
  The running statistics of \<open>metrics.cpp\<close>, \<open>MetricTracker\<close>, with its 32-bit sample count, and
  how \<open>MetricsMessage\<close> writes trackers into a message and reads them back. Doubles are real
  numbers, with the two limits of the type the code starts from.
\<close>

definition dbl_min :: real where
  "dbl_min = 1 / 2 ^ 1022"

definition dbl_max :: real where
  "dbl_max = (2 - 1 / 2 ^ 52) * 2 ^ 1023"

record metric_tracker =
  count :: u32
  total :: real
  mean_value :: real
  m2_value :: real
  max_value :: real
  min_value :: real

definition new_tracker :: metric_tracker where
  "new_tracker = \<lparr>count = 0, total = 0, mean_value = 0, m2_value = 0,
                  max_value = dbl_min, min_value = dbl_max\<rparr>"

definition record_value :: "real \<Rightarrow> metric_tracker \<Rightarrow> metric_tracker" where
  "record_value v t =
     (let t = t\<lparr>count := count t + 1, total := total t + v\<rparr>;
          delta = v - mean_value t;
          t = t\<lparr>mean_value := mean_value t + delta / real (unat (count t))\<rparr>;
          delta2 = v - mean_value t;
          t = t\<lparr>m2_value := m2_value t + delta * delta2\<rparr>
      in t\<lparr>min_value := min (min_value t) v, max_value := max (max_value t) v\<rparr>)"

definition reset_tracker :: "metric_tracker \<Rightarrow> metric_tracker" where
  "reset_tracker t = t\<lparr>count := 0, total := 0, mean_value := 0, m2_value := 0,
                        max_value := dbl_min, min_value := dbl_max\<rparr>"

definition variance_value :: "metric_tracker \<Rightarrow> real" where
  "variance_value t = (if count t = 0 then real (unat (count t)) else m2_value t / real (unat (count t)))"

text \<open>A tracker that has recorded the values of a list, in order.\<close>

definition track :: "real list \<Rightarrow> metric_tracker \<Rightarrow> metric_tracker" where
  "track xs t = fold record_value xs t"

section \<open>Trackers in messages\<close>

definition tracker_entry :: "string \<times> metric_tracker \<Rightarrow> string \<times> flex" where
  "tracker_entry x = (case x of (name, t) \<Rightarrow>
     (name, FMap [(''count'', FInt (ucast (count t))), (''total'', FFloat (total t)),
                  (''mean'', FFloat (mean_value t)), (''variance'', FFloat (variance_value t)),
                  (''max'', FFloat (max_value t)), (''min'', FFloat (min_value t))]))"

definition tracker_of_entry :: "flexlib \<Rightarrow> flex \<Rightarrow> metric_tracker" where
  "tracker_of_entry L v =
     (let submap = as_map L v in
      \<lparr>count = as_int32 L (map_at submap ''count''), total = as_double L (map_at submap ''total''),
       mean_value = as_double L (map_at submap ''mean''), m2_value = as_double L (map_at submap ''variance''),
       max_value = as_double L (map_at submap ''max''), min_value = as_double L (map_at submap ''min'')\<rparr>)"

definition metrics_payload ::
  "string \<Rightarrow> string \<Rightarrow> string \<Rightarrow> uuid \<Rightarrow> uuid \<Rightarrow> real \<Rightarrow> u64 \<Rightarrow> (string \<times> metric_tracker) list \<Rightarrow>
   (string \<times> flex) list" where
  "metrics_payload host parent_name child_name parent_guid child_guid elapsed_time rss metrics =
     [(''host_name'', FString host), (''parent_node_name'', FString parent_name),
      (''child_node_name'', FString child_name),
      serialize_uuid parent_guid ''parent_node_guid'', serialize_uuid child_guid ''child_node_guid'',
      (''elapsed_time'', FFloat elapsed_time), (''current_mem_usage'', FUInt rss)] @
     map tracker_entry metrics"

definition metrics_message ::
  "flexlib \<Rightarrow> real \<Rightarrow> real \<Rightarrow> (string \<times> metric_tracker) list \<Rightarrow> uuid \<Rightarrow> string \<Rightarrow> uuid \<Rightarrow> string \<Rightarrow>
   string \<Rightarrow> u64 \<Rightarrow> message" where
  "metrics_message L now elapsed_time metrics parent_guid parent_name child_guid child_name host rss =
     write_map_root L now ''core'' ''MetricsMessage''
       (metrics_payload host parent_name child_name parent_guid child_guid elapsed_time rss metrics)"

text \<open>The metrics that \<open>MetricsMessage(Message&)\<close> reads: every entry of the root that is a map.\<close>

definition read_metrics :: "flexlib \<Rightarrow> message \<Rightarrow> string \<Rightarrow> metric_tracker option" where
  "read_metrics L m name =
     (if name \<in> set (map fst (root_map L m)) \<and> name \<noteq> ''_meta'' \<and> is_map (map_at (root_map L m) name)
      then Some (tracker_of_entry L (map_at (root_map L m) name)) else None)"

section \<open>Printing\<close>

text \<open>
  Streams are states: an operation that prints appends to the text. A quotient of doubles with
  divisor zero is printed as an infinity or as not a number.
\<close>

definition fixed_quotient :: "nat \<Rightarrow> real \<Rightarrow> real \<Rightarrow> string" where
  "fixed_quotient p a b =
     (if b = 0 then (if a = 0 then ''nan'' else if a < 0 then ''-inf'' else ''inf'') else fixed p (a / b))"

definition tracker_pretty :: "metric_tracker \<Rightarrow> string" where
  "tracker_pretty t =
     ''mean: '' @ fixed 4 (mean_value t) @ '' ['' @ fixed 4 (min_value t) @ '', '' @ fixed 4 (max_value t) @
     '']  var: '' @ fixed 4 (variance_value t) @ '']  total: '' @ fixed 4 (total t)"

text \<open>The \<open>metrics\<close> member of a message that was read: a \<open>std::map\<close>, in the order of its keys.\<close>

definition message_metrics :: "flexlib \<Rightarrow> message \<Rightarrow> (string \<times> metric_tracker) list" where
  "message_metrics L m =
     concat (map (\<lambda>name. case read_metrics L m name of Some t \<Rightarrow> [(name, t)] | None \<Rightarrow> [])
       (sort (remdups (map fst (root_map L m)))))"

definition put :: "string \<Rightarrow> string \<Rightarrow> (error, string, unit) outcome" where
  "put text os = Returns () (os @ text)"

definition metrics_at :: "(string \<times> metric_tracker) list \<Rightarrow> string \<Rightarrow> string \<Rightarrow> (error, string, metric_tracker) outcome" where
  "metrics_at ms name os = (case map_of ms name of None \<Rightarrow> Throws (MissingKey name) os | Some t \<Rightarrow> Returns t os)"

definition line :: "string \<Rightarrow> string \<Rightarrow> string" where
  "line title v = title @ v @ ''\<newline>''"

definition uuid_field :: "flexlib \<Rightarrow> message \<Rightarrow> string \<Rightarrow> string \<Rightarrow> string \<Rightarrow> (error, string, unit) outcome" where
  "uuid_field L m title key os =
     (case deserialize_uuid (as_blob L (root_val L m key)) of
        None \<Rightarrow> Throws OutOfBounds os
      | Some g \<Rightarrow> put (line title (str g)) os)"

definition metrics_pretty_print :: "flexlib \<Rightarrow> message \<Rightarrow> string \<Rightarrow> (error, string, unit) outcome" where
  "metrics_pretty_print L m os =
     (let ms = message_metrics L m;
          elapsed = as_double L (root_val L m ''elapsed_time'')
      in bnd (metrics_at ms ''dt'' os) (\<lambda>dt os.
         andthen (put (''MetricsMessage \<newline>'' @ line ''           frequency  ''
            (if mean_value dt = 0 then ''NAN'' else fixed 4 (1 / mean_value dt))) os) (\<lambda>os.
         bnd (metrics_at ms ''time'' os) (\<lambda>t os.
         andthen (put (line ''               count  '' (dec_str (unat (count t))) @
            line ''   elapsed_time, sec  '' (fixed 4 elapsed) @
            line ''        my time, sec  '' (fixed 4 (as_double L (root_val L m ''time''))) @
            line ''       time fraction  '' (fixed_quotient 4 (real (unat (count t)) * mean_value t) elapsed)) os) (\<lambda>os.
         bnd (metrics_at ms ''bytes'' os) (\<lambda>b os.
         andthen (put (line ''       bytes per sec  '' (fixed_quotient 4 (total b) elapsed) @
            line ''   current_mem_usage  '' (dec_str (unat (as_uint64 L (root_val L m ''current_mem_usage'')))) @
            line ''    parent_node_name  '' (as_string L (root_val L m ''parent_node_name'')) @
            line ''     child_node_name  '' (as_string L (root_val L m ''child_node_name''))) os) (\<lambda>os.
         andthen (uuid_field L m ''    parent_node_guid  '' ''parent_node_guid'' os) (\<lambda>os.
         andthen (uuid_field L m ''     child_node_guid  '' ''child_node_guid'' os) (\<lambda>os.
         andthen (put (line ''           host_name  '' (as_string L (root_val L m ''host_name''))) os)
           (for_each (\<lambda>(name, t). put (replicate (max 1 (20 - length name)) CHR '' '' @ name @ ''  '' @
              tracker_pretty t @ ''\<newline>'')) ms))))))))))"

lemma put_returns: "put text os \<noteq> NoReturn"
  by (simp add: put_def)

lemma metrics_at_returns: "metrics_at ms name os \<noteq> NoReturn"
  by (simp add: metrics_at_def split: option.split)

lemma uuid_field_returns: "uuid_field L m title key os \<noteq> NoReturn"
  by (simp add: uuid_field_def put_def split: option.split)

lemma metrics_pretty_print_returns: "metrics_pretty_print L m os \<noteq> NoReturn"
  unfolding metrics_pretty_print_def Let_def
  by (intro returns_andthen [OF _ ends_True] returns_bnd [OF _ ends_True] put_returns metrics_at_returns
      uuid_field_returns returns_for_each [where P = "\<lambda>_. True"]) (auto simp: put_def)

section \<open>The statistics are right\<close>

text \<open>The two sums that determine mean and squared deviation.\<close>

lemma sum_sq_dev:
  fixes xs :: "real list"
  assumes "xs \<noteq> []"
  shows "(\<Sum>x\<leftarrow>xs. (x - sum_list xs / real (length xs)) ^ 2) =
         (\<Sum>x\<leftarrow>xs. x ^ 2) - (sum_list xs) ^ 2 / real (length xs)"
proof -
  have "(\<Sum>x\<leftarrow>xs. (x - c) ^ 2) = (\<Sum>x\<leftarrow>xs. x ^ 2) - 2 * c * sum_list xs + real (length xs) * c ^ 2" for c
    by (induction xs) (simp_all add: algebra_simps power2_eq_square)
  from this [of "sum_list xs / real (length xs)"] assms show ?thesis
    by (simp add: power2_eq_square field_simps)
qed

definition tracks :: "metric_tracker \<Rightarrow> real list \<Rightarrow> bool" where
  "tracks t xs \<longleftrightarrow>
     unat (count t) = length xs \<and> total t = sum_list xs \<and>
     mean_value t = sum_list xs / length xs \<and>
     m2_value t = (\<Sum>x\<leftarrow>xs. x ^ 2) - (sum_list xs) ^ 2 / length xs \<and>
     max_value t = Max (insert dbl_min (set xs)) \<and> min_value t = Min (insert dbl_max (set xs))"

lemma welford_step:
  fixes s x n :: real
  assumes "n \<ge> 1"
  shows "s / n + (x - s / n) / (n + 1) = (s + x) / (n + 1)"
    and "(x - s / n) * (x - (s + x) / (n + 1)) = x ^ 2 - (s + x) ^ 2 / (n + 1) + s ^ 2 / n"
  using assms by (simp_all add: divide_simps power2_eq_square) (simp_all add: algebra_simps)

lemma tracks_record:
  assumes t: "tracks t xs" and len: "length xs + 1 < 2 ^ 32"
  shows "tracks (record_value x t) (xs @ [x])"
proof -
  have c: "unat (count t + 1) = length xs + 1"
    using t len by (simp add: tracks_def unat_word_ariths)
  then have "real (unat (count t + 1)) = real (length xs + 1)"
    by (simp only:)
  then have c': "(unsigned (count t + 1) :: real) = real (length xs) + 1"
    by simp
  have mm: "Max (insert dbl_min (insert x (set xs))) = max (Max (insert dbl_min (set xs))) x"
           "Min (insert dbl_max (insert x (set xs))) = min (Min (insert dbl_max (set xs))) x"
    by (simp_all add: insert_commute [of _ x] max.commute min.commute)
  show ?thesis
  proof (cases "xs = []")
    case True
    then show ?thesis
      using t c c' mm by (simp add: tracks_def record_value_def Let_def max.commute min.commute)
  next
    case False
    then have n: "real (length xs) \<ge> 1"
      by (cases xs) simp_all
    show ?thesis
      using t c c' mm welford_step(1) [OF n, of "sum_list xs" x] welford_step(2) [OF n, of x "sum_list xs"]
      by (simp add: tracks_def record_value_def Let_def ac_simps)
  qed
qed

lemma tracks_track: "length xs < 2 ^ 32 \<Longrightarrow> tracks (track xs new_tracker) xs"
proof (induction xs rule: rev_induct)
  case Nil
  then show ?case by (simp add: tracks_def track_def new_tracker_def)
next
  case (snoc x xs)
  then show ?case by (simp add: track_def tracks_record)
qed

lemma reset_new: "reset_tracker t = new_tracker"
  by (simp add: reset_tracker_def new_tracker_def)

text \<open>
  A value read back from a message: every field is the one written, but the field that held the
  squared deviations now holds their mean.
\<close>

lemma tracker_of_entry_eq:
  "tracker_of_entry L (snd (tracker_entry (name, t))) = t\<lparr>m2_value := variance_value t\<rparr>"
proof -
  have "take_bit 64 w = w" for w :: u32
    by (rule bit_word_eqI) (simp add: bit_take_bit_iff)
  then show ?thesis
    by (simp add: tracker_of_entry_def tracker_entry_def as_int32_def unsigned_ucast_eq)
qed

section \<open>Properties\<close>

text \<open>C8: The running statistics are the statistics: after fewer than 2 to the 32 samples a tracker has their
  number, their sum, their mean, their variance and their least value.\<close>

theorem tracker_statistics:
  assumes "xs \<noteq> []" and "length xs < 2 ^ 32" and "\<forall>x \<in> set xs. x \<le> dbl_max"
  shows "let t = track xs new_tracker; n = real (length xs) in
    unat (count t) = length xs \<and> total t = sum_list xs \<and> mean_value t = sum_list xs / n \<and>
    variance_value t = (\<Sum>x\<leftarrow>xs. (x - sum_list xs / n) ^ 2) / n \<and> min_value t = Min (set xs)"
proof -
  let ?t = "track xs new_tracker"
  have t: "tracks ?t xs"
    by (rule tracks_track [OF assms(2)])
  then have n: "unat (count ?t) = length xs"
    by (simp add: tracks_def)
  then have "real (unat (count ?t)) = real (length xs)" "count ?t \<noteq> 0"
    using assms(1) by auto
  then have "variance_value ?t = m2_value ?t / real (length xs)"
    by (simp add: variance_value_def)
  moreover have "Min (insert dbl_max (set xs)) = Min (set xs)"
    using assms(1,3) Min_in [of "set xs"] by (simp add: min_def) (metis List.finite_set Min_in order_antisym set_empty2)
  ultimately show ?thesis
    using t n by (simp add: tracks_def sum_sq_dev [OF assms(1)] Let_def)
qed

theorem tracker_statistics_witness:
  "mean_value (track [1, 2, 6] new_tracker) = 3 \<and> variance_value (track [1, 2, 6] new_tracker) = 14 / 3"
proof -
  have "(6 :: real) \<le> dbl_max"
    by (simp add: dbl_max_def)
  then have "\<forall>x \<in> set [1, 2, 6 :: real]. x \<le> dbl_max"
    by auto
  from tracker_statistics [OF _ _ this] show ?thesis
    by (simp add: Let_def)
qed

text \<open>C27: The greatest value is wrong when every sample is below the least positive normal double, for
  instance for negative samples: the tracker starts from \<open>numeric_limits<double>::min()\<close>, which is
  positive, and reports that.\<close>

theorem tracker_max_of_small_samples:
  assumes "length xs < 2 ^ 32" and "\<forall>x \<in> set xs. x < dbl_min"
  shows "max_value (track xs new_tracker) = dbl_min \<and> max_value (track xs new_tracker) \<notin> set xs"
proof -
  have "max_value (track xs new_tracker) = Max (insert dbl_min (set xs))"
    using tracks_track [OF assms(1)] by (simp add: tracks_def)
  also have "\<dots> = dbl_min"
    using assms(2) by (intro Max_eqI) (auto intro: less_imp_le)
  finally show ?thesis
    using assms(2) by auto
qed

theorem tracker_max_of_small_samples_witness:
  "max_value (track [- 2, - 5] new_tracker) = dbl_min \<and> 0 < dbl_min"
proof -
  have "0 < dbl_min"
    by (simp add: dbl_min_def)
  with tracker_max_of_small_samples [of "[- 2, - 5]"] show ?thesis
    by simp
qed

text \<open>C26: A \<open>MetricsMessage\<close> that is read back has the counts, sums, means and limits of the trackers it was
  made from, but a variance divided once more by the number of samples: the message holds the
  variance, and the reader stores it where the sum of squared deviations belongs.\<close>

theorem read_metrics_divides_variance:
  assumes "map_of metrics name = Some t" and "count t \<noteq> 0"
    and "name \<notin> {''_meta'', ''host_name'', ''parent_node_name'', ''child_node_name'', ''parent_node_guid'',
      ''child_node_guid'', ''elapsed_time'', ''current_mem_usage''}"
    and "has_data L (FMap ((''_meta'', fresh_meta L now (- 1) ''core'' ''MetricsMessage'') #
      metrics_payload hst pname cname pguid cguid elapsed rss metrics))"
  shows "\<exists>t'. read_metrics L (metrics_message L now elapsed metrics pguid pname cguid cname hst rss) name = Some t' \<and>
    count t' = count t \<and> total t' = total t \<and> mean_value t' = mean_value t \<and>
    max_value t' = max_value t \<and> min_value t' = min_value t \<and>
    variance_value t' = variance_value t / real (unat (count t))"
proof -
  let ?kvs = "(''_meta'', fresh_meta L now (- 1) ''core'' ''MetricsMessage'') #
      metrics_payload hst pname cname pguid cguid elapsed rss metrics"
  have root: "root_map L (metrics_message L now elapsed metrics pguid pname cguid cname hst rss) = ?kvs"
    unfolding metrics_message_def write_map_root_def by (rule root_map_finish [OF assms(4)])
  have "map_of (map tracker_entry ms) name = map_option (\<lambda>t. snd (tracker_entry (name, t))) (map_of ms name)" for ms
    by (induction ms) (auto simp: tracker_entry_def)
  then have entry: "map_at ?kvs name = snd (tracker_entry (name, t))"
    using assms(1,3) by (simp add: metrics_payload_def serialize_uuid_def map_at_def)
  have "name \<in> set (map fst ?kvs)"
    using map_of_SomeD [OF assms(1)] by (force simp: metrics_payload_def tracker_entry_def)
  then have "read_metrics L (metrics_message L now elapsed metrics pguid pname cguid cname hst rss) name =
      Some (t\<lparr>m2_value := variance_value t\<rparr>)"
    using assms(3) unfolding read_metrics_def root entry tracker_of_entry_eq by (simp add: tracker_entry_def)
  then show ?thesis
    using assms(2) by (simp add: variance_value_def)
qed

theorem read_metrics_divides_variance_witness:
  "\<exists>t'. read_metrics (sample_lib FNull)
      (metrics_message (sample_lib FNull) 0 1 [(''dt'', track [1, 3] new_tracker)] nil_uuid ''p'' nil_uuid ''c'' ''h'' 0)
      ''dt'' = Some t' \<and> variance_value (track [1, 3] new_tracker) = 1 \<and> variance_value t' = 1 / 2"
proof -
  let ?t = "track [1, 3] new_tracker"
  have d: "has_data (sample_lib FNull) v" for v
    by (simp add: has_data_def sample_lib_def)
  have t: "tracks ?t [1, 3]"
    by (rule tracks_track) simp
  then have u: "unat (count ?t) = 2"
    by (simp add: tracks_def)
  then have r: "real (unat (count ?t)) = 2" and n: "count ?t \<noteq> 0"
    by auto
  have v: "variance_value ?t = 1"
    using t n unfolding variance_value_def r by (simp add: tracks_def)
  have "map_of [(''dt'', ?t)] ''dt'' = Some ?t"
    by simp
  from read_metrics_divides_variance [where now = 0 and hst = "''h''" and pname = "''p''" and cname = "''c''" and pguid = nil_uuid
    and cguid = nil_uuid and elapsed = 1 and rss = 0, OF this n _ d]
  show ?thesis
    unfolding r v by auto
qed

end
