(* ===== verification/World.thy ===== *)
theory World
  imports Copy_Flex Metric_Tracker
begin

text \<open>
  The objects of a running program: nodes and messages live at addresses, and shared pointers are
  addresses. A node has what the base class \<open>Node\<close> holds, the thread of \<open>RunnableNode\<close> where it
  is one, and the members of its own class. Creating nodes, connecting and disconnecting them
  (\<open>node.h\<close>, \<open>node.cpp\<close>) and what connecting does to a \<open>MetricsNode\<close> (\<open>metrics.cpp\<close>).
\<close>

type_synonym nid = nat
type_synonym mid = nat

section \<open>The classes\<close>

text \<open>\<open>mtx\<close> says whether the mutex of the publisher is held.\<close>

record publisher_state =
  tracked_receive_time :: metric_tracker
  tracked_bytes :: metric_tracker
  tracked_dt :: metric_tracker
  tracked_latency :: metric_tracker
  tracked_missed_messages :: metric_tracker
  last_reset_time :: real
  mtx :: bool
  parent_node_guid :: uuid
  child_node_guid :: uuid
  parent_node_name :: string
  child_node_name :: string
  host_name :: string

record metrics_state =
  publisher_node :: nid
  last_receive_time :: real
  passive_frequency_hz :: real
  last_passive_publish_time :: real
  last_received_indexes :: "string \<Rightarrow> u64 option"

text \<open>The output stream of a saver: whether it is open, whether it was opened to append, and its put position.\<close>

record saver_state =
  saver_path :: string
  saver_open :: bool
  saver_app :: bool
  saver_pos :: nat

record istream =
  in_pos :: nat
  in_eof :: bool
  in_fail :: bool

record player_state =
  player_path :: string
  input_file_stream :: istream
  forever :: bool
  realtime :: bool
  rewrite_timestamps :: bool
  verbose :: bool
  num_messages_replayed :: u32
  num_bytes_replayed :: u64
  replay_t0 :: real
  messages_t0 :: real

record producer_state =
  timeout_milliseconds :: int
  last_message :: "mid option"
  has_new_message :: bool

record graph_root_state =
  metrics_instrumented :: bool
  metrics_publishing_frequency_hz :: real
  metrics_trigger :: "nid option"
  metrics_aggregator :: "nid option"
  metrics_publisher :: "nid option"
  debug :: bool
  node_to_run :: "nid option"

datatype node_class =
    PlainNode
  | NullNode
  | CallbackFun nat
  | FilterFun nat
  | FilterName string
  | FilterNamePassthrough string bool
  | MapFun nat
  | EveryN (every_n: int) (every_count: int)
  | LastOne (last_one: "mid option")
  | MessagePrinter
  | MetricsPrinter
  | MetricsPublisherNode (publisher_part: publisher_state)
  | MetricsNode (metrics_part: metrics_state)
  | UniversalDataSaver (saver_part: saver_state)
  | PlainRunnable
  | Producer (producer_part: producer_state)
  | FrequencyGenerator (frequency_hz: real) (invocation_count: u32)
  | UniversalDataPlayer (player_part: player_state)
  | GraphRoot (root_part: graph_root_state)

text \<open>The thread of a \<open>RunnableNode\<close>: none, or one that runs or has left its function.\<close>

datatype thread = Running | Finished

record runnable =
  my_thread :: "thread option"
  stop_signal :: bool

record node =
  node_name :: string
  node_guid :: uuid
  observers :: "nid list"
  message_send_counter :: u64
  thread_part :: "runnable option"
  class_part :: node_class

section \<open>The world and what it is given from outside\<close>

record 'u world =
  heap :: "nid \<Rightarrow> node"
  next_node :: nid
  msgs :: "mid \<Rightarrow> message"
  next_msg :: mid
  ticks :: nat
  draws :: nat
  files :: "string \<Rightarrow> byte list"
  console :: "string list"
  sleeps :: "real list"
  polls :: nat
  user :: 'u

text \<open>
  The surroundings of the program: the FlexBuffers library, the readings of the clock and of the
  random device, the host, whether a file can be opened, the values of members and of bytes that the
  code leaves uninitialised, whether another thread has asked to stop by the time of the given
  question, the default format of a double in a stream, what the virtual \<open>to_string\<close> of the class of a message object
  prints (\<open>None\<close> where it reads outside a buffer; a client may derive such classes), and the functions that clients install in nodes.
  These read the message and change the client's own state, and may throw. A world records the
  durations, in milliseconds, for which threads asked to sleep, and how often they have asked whether
  to stop.
\<close>

datatype mapped = NullMessage | SameMessage | NewMessage message

record 'u env =
  lib :: flexlib
  clock :: "nat \<Rightarrow> real"
  random_draw :: "nat \<Rightarrow> u64 \<times> u64"
  host :: string
  current_rss :: "nat \<Rightarrow> u64"
  can_open :: "string \<Rightarrow> bool"
  indeterminate :: uuid
  junk_byte :: "nat \<Rightarrow> byte"
  stopper :: "nat \<Rightarrow> bool"
  format_double :: "real \<Rightarrow> string"
  virtual_to_string :: "mid \<Rightarrow> message \<Rightarrow> string option"
  callbackfun :: "nat \<Rightarrow> mid \<Rightarrow> message \<Rightarrow> 'u \<Rightarrow> (error, 'u, unit) outcome"
  filterfun :: "nat \<Rightarrow> mid \<Rightarrow> message \<Rightarrow> 'u \<Rightarrow> (error, 'u, bool) outcome"
  mapfun :: "nat \<Rightarrow> mid \<Rightarrow> message \<Rightarrow> 'u \<Rightarrow> (error, 'u, mapped) outcome"

definition get_current_time :: "'u env \<Rightarrow> 'u world \<Rightarrow> real \<times> 'u world" where
  "get_current_time E w = (clock E (ticks w), w\<lparr>ticks := ticks w + 1\<rparr>)"

definition set_node :: "nid \<Rightarrow> (node \<Rightarrow> node) \<Rightarrow> 'u world \<Rightarrow> 'u world" where
  "set_node n f w = w\<lparr>heap := (heap w)(n := f (heap w n))\<rparr>"

definition new_message :: "message \<Rightarrow> 'u world \<Rightarrow> mid \<times> 'u world" where
  "new_message m w = (next_msg w, w\<lparr>msgs := (msgs w)(next_msg w := m), next_msg := next_msg w + 1\<rparr>)"

abbreviation set_class :: "node_class \<Rightarrow> node \<Rightarrow> node" where
  "set_class c nd \<equiv> nd\<lparr>class_part := c\<rparr>"

section \<open>Creating nodes\<close>

text \<open>\<open>Node::Node\<close> and \<open>RunnableNode::RunnableNode\<close>, with the members of the class.\<close>

definition new_node ::
  "'u env \<Rightarrow> string \<Rightarrow> runnable option \<Rightarrow> node_class \<Rightarrow> 'u world \<Rightarrow> nid \<times> 'u world" where
  "new_node E name thread c w =
     (let (r1, r2) = random_draw E (draws w);
          nd = \<lparr>node_name = name, node_guid = uuid4 r1 r2, observers = [], message_send_counter = 0,
                thread_part = thread, class_part = c\<rparr>
      in (next_node w,
          w\<lparr>heap := (heap w)(next_node w := nd), next_node := next_node w + 1, draws := draws w + 1\<rparr>))"

definition new_thread_part :: "runnable option" where
  "new_thread_part = Some \<lparr>my_thread = None, stop_signal = True\<rparr>"

definition reset_publisher :: "real \<Rightarrow> publisher_state \<Rightarrow> publisher_state" where
  "reset_publisher now p =
     p\<lparr>last_reset_time := now,
       tracked_receive_time := reset_tracker (tracked_receive_time p),
       tracked_bytes := reset_tracker (tracked_bytes p),
       tracked_dt := reset_tracker (tracked_dt p),
       tracked_latency := reset_tracker (tracked_latency p),
       tracked_missed_messages := reset_tracker (tracked_missed_messages p)\<rparr>"

definition new_metrics_publisher_node :: "'u env \<Rightarrow> string \<Rightarrow> 'u world \<Rightarrow> nid \<times> 'u world" where
  "new_metrics_publisher_node E name w =
     (let (now, w) = get_current_time E w;
          p = \<lparr>tracked_receive_time = new_tracker, tracked_bytes = new_tracker, tracked_dt = new_tracker,
               tracked_latency = new_tracker, tracked_missed_messages = new_tracker,
               last_reset_time = now, mtx = False,
               parent_node_guid = indeterminate E, child_node_guid = indeterminate E,
               parent_node_name = [], child_node_name = [], host_name = host E\<rparr>
      in new_node E name None (MetricsPublisherNode (reset_publisher now p)) w)"

definition new_metrics_node :: "'u env \<Rightarrow> string \<Rightarrow> real \<Rightarrow> 'u world \<Rightarrow> nid \<times> 'u world" where
  "new_metrics_node E name hz w =
     (let (self, w) = new_node E name None PlainNode w;
          (pub, w) = new_metrics_publisher_node E (take 28 name @ ''_Pub'') w;
          ms = \<lparr>publisher_node = pub, last_receive_time = - 1, passive_frequency_hz = hz,
                last_passive_publish_time = 0, last_received_indexes = (\<lambda>_. None)\<rparr>
      in (self, set_node self (set_class (MetricsNode ms)) w))"

section \<open>Connecting nodes\<close>

definition get_observers :: "'u world \<Rightarrow> nid \<Rightarrow> nid list" where
  "get_observers w n = observers (heap w n)"

definition has_observers :: "'u world \<Rightarrow> nid \<Rightarrow> bool" where
  "has_observers w n \<longleftrightarrow> get_observers w n \<noteq> []"

definition num_observers :: "'u world \<Rightarrow> nid \<Rightarrow> nat" where
  "num_observers w n = length (get_observers w n)"

definition child_node_set :: "uuid \<Rightarrow> string \<Rightarrow> nid \<Rightarrow> 'u world \<Rightarrow> (error, 'u world, unit) outcome" where
  "child_node_set guid name self w =
     (case class_part (heap w self) of
        MetricsPublisherNode p \<Rightarrow>
          if child_node_name p \<noteq> [] then Throws MoreThanOneChild w
          else Returns () (set_node self
                 (set_class (MetricsPublisherNode (p\<lparr>child_node_name := name, child_node_guid := guid\<rparr>))) w)
      | _ \<Rightarrow> Returns () w)"

definition parent_node_set :: "uuid \<Rightarrow> string \<Rightarrow> nid \<Rightarrow> 'u world \<Rightarrow> (error, 'u world, unit) outcome" where
  "parent_node_set guid name self w =
     (case class_part (heap w self) of
        MetricsPublisherNode p \<Rightarrow>
          if parent_node_name p \<noteq> [] then Throws MoreThanOneParent w
          else Returns () (set_node self
                 (set_class (MetricsPublisherNode (p\<lparr>parent_node_name := name, parent_node_guid := guid\<rparr>))) w)
      | _ \<Rightarrow> Returns () w)"

text \<open>The virtual \<open>on_connect\<close> of \<open>self\<close>: only \<open>MetricsNode\<close> overrides the empty one.\<close>

definition on_connect :: "nid \<Rightarrow> nid \<Rightarrow> bool \<Rightarrow> 'u world \<Rightarrow> (error, 'u world, unit) outcome" where
  "on_connect self n node_is_child w =
     (case class_part (heap w self) of
        MetricsNode ms \<Rightarrow>
          if node_is_child
          then child_node_set (node_guid (heap w n)) (node_name (heap w n)) (publisher_node ms) w
          else parent_node_set (node_guid (heap w n)) (node_name (heap w n)) (publisher_node ms) w
      | _ \<Rightarrow> Returns () w)"

definition push_observer :: "nid \<Rightarrow> nid \<Rightarrow> 'u world \<Rightarrow> 'u world" where
  "push_observer self n = set_node self (\<lambda>nd. nd\<lparr>observers := observers nd @ [n]\<rparr>)"

definition connect :: "nid \<Rightarrow> nid \<Rightarrow> 'u world \<Rightarrow> (error, 'u world, unit) outcome" where
  "connect self n w =
     andthen (on_connect n self False (push_observer self n w)) (on_connect self n True)"

definition disconnect :: "nid \<Rightarrow> nid \<Rightarrow> 'u world \<Rightarrow> 'u world" where
  "disconnect self n = set_node self (\<lambda>nd. nd\<lparr>observers := removeAll n (observers nd)\<rparr>)"

text \<open>The constructors that connect the publisher to a target at once.\<close>

definition new_metrics_node_to ::
  "'u env \<Rightarrow> nid \<Rightarrow> string \<Rightarrow> real \<Rightarrow> 'u world \<Rightarrow> (error, 'u world, nid) outcome" where
  "new_metrics_node_to E target name hz w =
     (let (self, w) = new_metrics_node E name hz w in
      case class_part (heap w self) of
        MetricsNode ms \<Rightarrow> andthen (connect (publisher_node ms) target w) (Returns self)
      | _ \<Rightarrow> Returns self w)"

section \<open>Printing nodes\<close>

definition node_base_to_string :: "'u world \<Rightarrow> nid \<Rightarrow> string" where
  "node_base_to_string w n =
     ''<Node'' @ '' name: \"'' @ node_name (heap w n) @ ''\"'' @ '' guid: '' @ str (node_guid (heap w n)) @
     (if has_observers w n
      then '' children('' @ dec_str (num_observers w n) @ ''): ['' @
           concat (map (\<lambda>c. '' \"'' @ node_name (heap w c) @ ''\"'') (get_observers w n)) @ '']''
      else []) @ ''>''"

definition runnable_to_string :: "'u world \<Rightarrow> nid \<Rightarrow> string" where
  "runnable_to_string w n = ''<RunnableNode '' @ node_base_to_string w n @ ''>''"

definition node_to_string :: "'u world \<Rightarrow> nid \<Rightarrow> string" where
  "node_to_string w n =
     (case class_part (heap w n) of
        MetricsNode ms \<Rightarrow> ''<MetricsNode \"'' @ node_name (heap w n) @ ''\">''
      | FrequencyGenerator hz k \<Rightarrow>
          ''<FrequencyGenerator hz='' @ fixed 6 hz @ '' '' @ runnable_to_string w n @ ''>''
      | _ \<Rightarrow> if thread_part (heap w n) = None then node_base_to_string w n else runnable_to_string w n)"

section \<open>Facts about connections\<close>

lemma heap_set_node [simp]: "heap (set_node n f w) = (heap w)(n := f (heap w n))"
  by (simp add: set_node_def)

lemma set_node_simps [simp]:
  "msgs (set_node n f w) = msgs w" "next_msg (set_node n f w) = next_msg w"
  "next_node (set_node n f w) = next_node w" "user (set_node n f w) = user w"
  "ticks (set_node n f w) = ticks w" "draws (set_node n f w) = draws w"
  "files (set_node n f w) = files w" "console (set_node n f w) = console w"
  "sleeps (set_node n f w) = sleeps w" "polls (set_node n f w) = polls w"
  by (simp_all add: set_node_def)

text \<open>Who observes whom, in one world and another.\<close>

definition same_graph :: "'u world \<Rightarrow> 'u world \<Rightarrow> bool" where
  "same_graph w v \<longleftrightarrow> get_observers v = get_observers w"

lemma same_graph_refl [simp]: "same_graph w w"
  by (simp add: same_graph_def)

lemma same_graph_trans: "same_graph u v \<Longrightarrow> same_graph v w \<Longrightarrow> same_graph u w"
  by (simp add: same_graph_def)

lemma same_graph_set_node:
  "observers (f (heap w n)) = observers (heap w n) \<Longrightarrow> same_graph w (set_node n f w)"
  by (auto simp: same_graph_def get_observers_def fun_eq_iff)

lemma on_connect_same_graph [framing]: "ends (same_graph w) (on_connect self n b w)"
  by (auto simp: on_connect_def child_node_set_def parent_node_set_def same_graph_set_node
      split: node_class.split)

text \<open>
  The interface of the observer lists: a connection is appended, and a disconnection removes
  every occurrence. \<open>obs\<close> reads the list of a node.
\<close>

locale connections =
  fixes obs :: "'s \<Rightarrow> 'n \<Rightarrow> 'n list"
    and link :: "'n \<Rightarrow> 'n \<Rightarrow> 's \<Rightarrow> 's"
    and unlink :: "'n \<Rightarrow> 'n \<Rightarrow> 's \<Rightarrow> 's"
  assumes obs_link: "obs (link a b s) = (obs s)(a := obs s a @ [b])"
    and obs_unlink: "obs (unlink a b s) = (obs s)(a := removeAll b (obs s a))"
begin

definition edges :: "'s \<Rightarrow> ('n \<times> 'n) set" where
  "edges s = {(a, b). b \<in> set (obs s a)}"

lemma edges_link: "edges (link a b s) = insert (a, b) (edges s)"
  by (auto simp: edges_def obs_link split: if_splits)

lemma edges_unlink: "edges (unlink a b s) = edges s - {(a, b)}"
  by (auto simp: edges_def obs_unlink split: if_splits)

lemma unlink_link: "b \<notin> set (obs s a) \<Longrightarrow> obs (unlink a b (link a b s)) = obs s"
  by (auto simp: obs_unlink obs_link fun_eq_iff)

lemma obs_between:
  assumes "m \<noteq> a"
  shows "obs (link m b (link a m (unlink a b s))) =
    (obs s)(a := removeAll b (obs s a) @ [m], m := obs s m @ [b])"
  using assms by (auto simp: obs_unlink obs_link fun_eq_iff)

lemma obs_bypass:
  assumes "m \<noteq> a" and "obs s m = bs"
  shows "obs (fold (link a) bs (unlink a m s)) = (obs s)(a := removeAll m (obs s a) @ bs)"
proof -
  have "obs (fold (link a) bs s) = (obs s)(a := obs s a @ bs)" for bs s
    by (induction bs arbitrary: s) (auto simp: obs_link fun_eq_iff)
  then show ?thesis
    by (auto simp: obs_unlink fun_eq_iff)
qed

end

interpretation observer_lists: connections get_observers push_observer disconnect
  by unfold_locales (auto simp: get_observers_def push_observer_def disconnect_def fun_eq_iff)

abbreviation edges :: "'u world \<Rightarrow> (nid \<times> nid) set" where
  "edges \<equiv> observer_lists.edges"

text \<open>However \<open>connect\<close> ends, the edge is there and nothing else of the graph has changed.\<close>

lemma connect_observers:
  "ends (\<lambda>v. get_observers v = (get_observers w)(self := get_observers w self @ [n])) (connect self n w)"
proof -
  have "ends (same_graph (push_observer self n w)) (connect self n w)"
    unfolding connect_def
    by (intro ends_andthen on_connect_same_graph)
      (blast intro: ends_mono [OF on_connect_same_graph] same_graph_trans)
  then show ?thesis
    by (rule ends_mono) (simp add: same_graph_def observer_lists.obs_link)
qed

text \<open>Nodes of the other classes are connected without an error.\<close>

definition is_metrics_node :: "'u world \<Rightarrow> nid \<Rightarrow> bool" where
  "is_metrics_node w n \<longleftrightarrow> (case class_part (heap w n) of MetricsNode ms \<Rightarrow> True | _ \<Rightarrow> False)"

lemma class_push_observer [simp]:
  "class_part (heap (push_observer a b w) n) = class_part (heap w n)"
  "node_name (heap (push_observer a b w) n) = node_name (heap w n)"
  "node_guid (heap (push_observer a b w) n) = node_guid (heap w n)"
  by (simp_all add: push_observer_def)

lemma class_disconnect [simp]:
  "class_part (heap (disconnect a b w) n) = class_part (heap w n)"
  "node_name (heap (disconnect a b w) n) = node_name (heap w n)"
  "node_guid (heap (disconnect a b w) n) = node_guid (heap w n)"
  by (simp_all add: disconnect_def)

lemma on_connect_plain: "\<not> is_metrics_node w self \<Longrightarrow> on_connect self n b w = Returns () w"
  by (auto simp: on_connect_def is_metrics_node_def split: node_class.splits)

lemma connect_plain:
  "\<not> is_metrics_node w self \<Longrightarrow> \<not> is_metrics_node w n \<Longrightarrow> connect self n w = Returns () (push_observer self n w)"
  by (simp add: connect_def on_connect_plain is_metrics_node_def)

end
