(* ===== verification/Example_World.thy ===== *)
theory Example_World
  imports World
begin

text \<open>
  Small concrete surroundings and worlds, on which the theorems about nodes are applied: every node
  is plain, has a name of one letter and the given observers, and one fresh message is at address 0.
\<close>

definition example_env :: "'u env" where
  "example_env =
     \<lparr>lib = sample_lib FNull, clock = real, random_draw = (\<lambda>k. (of_nat k, 7)), host = ''host'',
      current_rss = (\<lambda>_. 4096), can_open = (\<lambda>_. True), indeterminate = Uuid 0 0, junk_byte = (\<lambda>_. 0),
      stopper = (\<lambda>_. False), format_double = fixed 6,
      virtual_to_string = (\<lambda>_. message_to_string (sample_lib FNull)),
      callbackfun = (\<lambda>_ _ _ u. Returns () u), filterfun = (\<lambda>_ _ _ u. Returns True u),
      mapfun = (\<lambda>_ _ _ u. Returns SameMessage u)\<rparr>"

definition example_node :: "nid \<Rightarrow> nid list \<Rightarrow> node_class \<Rightarrow> node" where
  "example_node n cs c =
     \<lparr>node_name = [char_of (97 + n)], node_guid = Uuid 1 (of_nat n), observers = cs,
      message_send_counter = 0, thread_part = None, class_part = c\<rparr>"

definition fresh_message :: message where
  "fresh_message = write_map_root (sample_lib FNull) 0 ''core'' ''ping'' []"

definition example_world :: "(nid \<Rightarrow> nid list) \<Rightarrow> (nid \<Rightarrow> node_class) \<Rightarrow> unit world" where
  "example_world G c =
     \<lparr>heap = (\<lambda>n. example_node n (G n) (c n)), next_node = 10, msgs = (\<lambda>_. fresh_message), next_msg = 1,
      ticks = 0, draws = 10, files = (\<lambda>_. []), console = [], sleeps = [],
      polls = 0, user = ()\<rparr>"

text \<open>One node that observes two others that observe a fourth.\<close>

definition diamond :: "nid \<Rightarrow> nid list" where
  "diamond = (\<lambda>_. [])(0 := [1, 2], 1 := [3], 2 := [3])"

definition ring :: "nid \<Rightarrow> nid list" where
  "ring = (\<lambda>_. [])(0 := [1], 1 := [0])"

lemma example_world_simps [simp]:
  "get_observers (example_world G c) = G"
  "class_part (heap (example_world G c) n) = c n"
  "node_name (heap (example_world G c) n) = [char_of (97 + n)]"
  "node_guid (heap (example_world G c) n) = Uuid 1 (of_nat n)"
  "observers (heap (example_world G c) n) = G n"
  "message_send_counter (heap (example_world G c) n) = 0"
  "msgs (example_world G c) m = fresh_message"
  by (simp_all add: get_observers_def example_world_def example_node_def fun_eq_iff)

lemma example_env_simps [simp]: "lib example_env = sample_lib FNull"
  by (simp add: example_env_def)

lemma sample_has_data: "has_data (sample_lib v0) v"
  by (simp add: has_data_def sample_lib_def)

lemma fresh_message_meta: "has_meta fresh_message 0 (- 1) nil_uuid (replicate 32 CHR 0x00) ''core'' ''ping''"
  unfolding fresh_message_def by (rule has_meta_new [OF sample_lib_laws sample_has_data])

text \<open>The message after a first signal.\<close>

definition sent_message :: message where
  "sent_message = set_message_counter (sample_lib FNull) 5
     (mutate_meta 2 (blit_blob (sample_lib FNull) (uuid_bytes (Uuid 1 1))) fresh_message)"

lemma sent_message_meta: "has_meta sent_message 0 5 (Uuid 1 1) (replicate 32 CHR 0x00) ''core'' ''ping''"
  unfolding sent_message_def
  by (rule has_meta_set_counter [OF sample_lib_laws has_meta_set_guid [OF fresh_message_meta]])

lemma sent_message_store: "length (header sent_message) = 8" "data_len sent_message = 1"
  by (simp_all add: sent_message_def set_message_counter_def fresh_message_def write_map_root_def header_finish
      sample_lib_def format_header_def)

lemma diamond_edges: "{(a, c). c \<in> set (diamond a)} = {(0, 1), (0, 2), (1, 3), (2, 3)}"
  by (auto simp: diamond_def split: if_splits)

lemma acyclic_diamond: "acyclic {(0 :: nat, 1 :: nat), (0, 2), (1, 3), (2, 3)}"
  by (rule acyclic_subset [OF wf_acyclic [OF wf_less_than]]) auto

section \<open>Properties of messages\<close>

text \<open>A new message starts with its format and its own size, has never been sent (all ones as counter,
  zero identifier, empty name), and carries its module, its name and the time at which it was made.\<close>

theorem new_message_is_unsent:
  assumes "mutation_laws L" and "has_data L (FMap ((''_meta'', fresh_meta L now (- 1) md nm) # payload))"
  shows "let m = write_map_root L now md nm payload in
    message_announce (VectorStore (raw_bytes L m)) = Some format_header \<and>
    message_size (VectorStore (raw_bytes L m)) = Some (message_raw_size m) \<and>
    timestamp L m = now \<and> message_counter L m = - 1 \<and> source_node_guid L m = Some nil_uuid \<and>
    source_node_name L m = [] \<and> module_name_of L m = md \<and> message_name L m = nm"
proof -
  note meta = has_meta_simps [OF has_meta_new [OF assms]]
  have "takeWhile (\<lambda>c. c \<noteq> CHR 0x00) (replicate 32 CHR 0x00) = []"
    by (simp add: takeWhile_eq_Nil_iff)
  then show ?thesis
    unfolding Let_def meta
    by (simp add: write_map_root_def raw_bytes_def header_finish message_announce_def message_size_eq
        message_raw_size_def)
qed

theorem new_message_is_unsent_witness:
  "message_counter (sample_lib FNull) fresh_message = - 1 \<and>
   source_node_guid (sample_lib FNull) fresh_message = Some nil_uuid"
  using new_message_is_unsent [OF sample_lib_laws [of FNull] sample_has_data, of 0 "''core''" "''ping''" "[]"]
  by (simp add: Let_def fresh_message_def)

text \<open>C12: The first sender's name, identifier and counter are written into the message in place: the time, the
  names of the module and of the message, the payload, the header and the size stay.\<close>

theorem first_sender_is_stamped:
  assumes "mutation_laws L" and "has_meta m t (- 1) nil_uuid n md nm"
    and "length name \<le> 32" and "CHR 0x00 \<notin> set name"
  shows "\<exists>m'. set_sender_info L name guid c m = Returns () m' \<and>
    message_counter L m' = c \<and> source_node_guid L m' = Some guid \<and> source_node_name L m' = name \<and>
    timestamp L m' = t \<and> module_name_of L m' = md \<and> message_name L m' = nm \<and>
    (\<forall>k. k = ''_meta'' \<or> root_val L m' k = root_val L m k) \<and>
    header m' = header m \<and> message_raw_size m' = message_raw_size m"
proof -
  obtain m' where m': "set_sender_info L name guid c m = Returns () m'"
      "has_meta m' t c guid (padded_name name) md nm"
      "\<And>k. k \<noteq> ''_meta'' \<Longrightarrow> root_val L m' k = root_val L m k" "header m' = header m" "data_len m' = data_len m"
    using stamp_first [OF assms(1-3)] by metis
  have "\<forall>k. k = ''_meta'' \<or> root_val L m' k = root_val L m k"
    using m'(3) by blast
  with m'(1,4,5) has_meta_simps [OF m'(2)] takeWhile_padded_name [OF assms(4)] show ?thesis
    by (simp add: message_raw_size_def)
qed

theorem first_sender_is_stamped_witness:
  "\<exists>m'. set_sender_info (sample_lib FNull) ''camera'' (Uuid 3 4) 5 fresh_message = Returns () m' \<and>
     source_node_name (sample_lib FNull) m' = ''camera'' \<and> message_counter (sample_lib FNull) m' = 5"
  using first_sender_is_stamped [OF sample_lib_laws fresh_message_meta, of "''camera''" FNull "Uuid 3 4" 5] by auto

text \<open>C23: Once a message carries a sender, another node that forwards it changes nothing: the
  message keeps the identity of its origin.\<close>

theorem later_senders_change_nothing:
  assumes "mutation_laws L" and "has_meta m t (- 1) nil_uuid n md nm" and "length name \<le> 32"
    and "c \<noteq> - 1" and "guid \<noteq> nil_uuid"
  shows "andthen (set_sender_info L name guid c m) (set_sender_info L name' guid' c') =
    set_sender_info L name guid c m"
proof -
  obtain m' where "set_sender_info L name guid c m = Returns () m'" "has_meta m' t c guid (padded_name name) md nm"
    using stamp_first [OF assms(1-3)] by metis
  with stamp_keeps [OF this(2) assms(4,5)] show ?thesis by simp
qed

theorem later_senders_change_nothing_witness:
  "andthen (set_sender_info (sample_lib FNull) ''a'' (Uuid 3 4) 5 fresh_message)
     (set_sender_info (sample_lib FNull) ''b'' (Uuid 6 7) 8) =
   set_sender_info (sample_lib FNull) ''a'' (Uuid 3 4) 5 fresh_message"
  by (rule later_senders_change_nothing [OF sample_lib_laws fresh_message_meta]) (simp_all add: nil_uuid_def)

text \<open>C24: Signalling from a node with a name of more than 32 characters throws, but only after the counter and
  the identifier have been written: the message is left half stamped, with an empty name, and the
  next sender will not correct it.\<close>

theorem long_name_half_stamps:
  assumes "mutation_laws L" and "has_meta m t (- 1) nil_uuid (replicate 32 CHR 0x00) md nm" and "32 < length name"
  shows "\<exists>m'. set_sender_info L name guid c m = Throws (NameTooLong name) m' \<and>
    message_counter L m' = c \<and> source_node_guid L m' = Some guid \<and> source_node_name L m' = []"
proof -
  let ?m1 = "set_message_counter L c m"
  let ?m2 = "mutate_meta 2 (blit_blob L (uuid_bytes guid)) ?m1"
  have h1: "has_meta ?m1 t c nil_uuid (replicate 32 CHR 0x00) md nm"
    by (rule has_meta_set_counter [OF assms(1,2)])
  have h2: "has_meta ?m2 t c guid (replicate 32 CHR 0x00) md nm"
    by (rule has_meta_set_guid [OF h1])
  have "set_sender_info L name guid c m = Throws (NameTooLong name) ?m2"
    using assms(3)
    by (simp add: set_sender_info_def has_meta_simps [OF assms(2)] has_meta_simps [OF h1] set_guid_eq [OF h1]
        set_name_eq nil_uuid_def)
  then show ?thesis
    using has_meta_simps [OF h2] by (auto simp: takeWhile_eq_Nil_iff)
qed

theorem long_name_half_stamps_witness:
  "\<exists>m'. set_sender_info (sample_lib FNull) (replicate 33 CHR ''x'') (Uuid 3 4) 5 fresh_message =
     Throws (NameTooLong (replicate 33 CHR ''x'')) m' \<and> source_node_name (sample_lib FNull) m' = []"
  using long_name_half_stamps [OF sample_lib_laws fresh_message_meta, of "replicate 33 CHR ''x''" FNull "Uuid 3 4" 5]
  by auto

end
