(* ===== verification/Graph_Walk.thy ===== *)
theory Graph_Walk
  imports Example_World
begin

text \<open>
  The walks over the graph of nodes (\<open>node.cpp\<close>): \<open>step_nodes\<close>, \<open>step_connections\<close> and
  \<open>filter\<close>, and the member functions that start them. The callbacks run in the middle of a walk and
  may change the graph, which the model keeps: a node's children are read when the node is reached. A
  walk threads the world, what the callback accumulates (\<open>'c\<close>) and the set of visited nodes. Its
  first argument bounds the recursion depth; one more than the number of nodes is always enough.
\<close>

type_synonym ('u, 'c) walk = "('u world \<times> 'c) \<times> nid set"
type_synonym ('u, 'c) ending = "(error, 'u world \<times> 'c, unit) outcome"

text \<open>Run a callback on the part of the state it sees.\<close>

fun on_world :: "('s \<Rightarrow> (error, 's, 'a) outcome) \<Rightarrow> 's \<times> 'v \<Rightarrow> (error, 's \<times> 'v, 'a) outcome" where
  "on_world f (s, v) =
     (case f s of Returns a s' \<Rightarrow> Returns a (s', v) | Throws e s' \<Rightarrow> Throws e (s', v) | NoReturn \<Rightarrow> NoReturn)"

fun without_visited :: "(error, 's \<times> 'v, 'a) outcome \<Rightarrow> (error, 's, 'a) outcome" where
  "without_visited (Returns a sv) = Returns a (fst sv)"
| "without_visited (Throws e sv) = Throws e (fst sv)"
| "without_visited NoReturn = NoReturn"

section \<open>The walks\<close>

fun step_nodes ::
  "nat \<Rightarrow> (nid \<Rightarrow> nat \<Rightarrow> 'u world \<times> 'c \<Rightarrow> ('u, 'c) ending) \<Rightarrow> bool \<Rightarrow> nat \<Rightarrow> nid \<Rightarrow> ('u, 'c) walk \<Rightarrow>
   (error, ('u, 'c) walk, unit) outcome" where
  "step_nodes 0 node_fun forwards level node s = NoReturn"
| "step_nodes (Suc k) node_fun forwards level node (s, visited) =
     (if node \<in> visited then Returns () (s, visited)
      else let visited = insert node visited; children = get_observers (fst s) node in
        if forwards
        then andthen (on_world (node_fun node level) (s, visited))
               (for_each (step_nodes k node_fun True (level + 1)) children)
        else andthen (for_each (step_nodes k node_fun False (level + 1)) children (s, visited))
               (on_world (node_fun node level)))"

definition walk_nodes ::
  "nat \<Rightarrow> (nid \<Rightarrow> nat \<Rightarrow> 'u world \<times> 'c \<Rightarrow> ('u, 'c) ending) \<Rightarrow> bool \<Rightarrow> nid \<Rightarrow> 'u world \<times> 'c \<Rightarrow> ('u, 'c) ending" where
  "walk_nodes k node_fun forwards self s =
     without_visited (for_each (step_nodes k node_fun forwards 0) (get_observers (fst s) self) (s, {}))"

fun step_connections ::
  "nat \<Rightarrow> (nid \<Rightarrow> nid \<Rightarrow> nat \<Rightarrow> 'u world \<times> 'c \<Rightarrow> ('u, 'c) ending) \<Rightarrow> bool \<Rightarrow> nat \<Rightarrow> nid \<Rightarrow> ('u, 'c) walk \<Rightarrow>
   (error, ('u, 'c) walk, unit) outcome" where
  "step_connections 0 connection_fun forwards level node s = NoReturn"
| "step_connections (Suc k) connection_fun forwards level node (s, visited) =
     (if node \<in> visited then Returns () (s, visited)
      else
        for_each (\<lambda>child s.
          if forwards
          then andthen (on_world (connection_fun node child level) s)
                 (step_connections k connection_fun True (level + 1) child)
          else andthen (step_connections k connection_fun False (level + 1) child s)
                 (on_world (connection_fun node child level)))
          (get_observers (fst s) node) (s, insert node visited))"

definition walk_connections ::
  "nat \<Rightarrow> (nid \<Rightarrow> nid \<Rightarrow> nat \<Rightarrow> 'u world \<times> 'c \<Rightarrow> ('u, 'c) ending) \<Rightarrow> bool \<Rightarrow> nid \<Rightarrow> 'u world \<times> 'c \<Rightarrow>
   ('u, 'c) ending" where
  "walk_connections k connection_fun forwards self s =
     without_visited (for_each (step_connections k connection_fun forwards 0) (get_observers (fst s) self) (s, {}))"

fun on_graph :: "('u world \<Rightarrow> (error, 'u world, 'a) outcome) \<Rightarrow> ('u, 'c) walk \<Rightarrow> (error, ('u, 'c) walk, 'a) outcome" where
  "on_graph f ((w, c), v) =
     (case f w of Returns a w' \<Rightarrow> Returns a ((w', c), v) | Throws e w' \<Rightarrow> Throws e ((w', c), v) | NoReturn \<Rightarrow> NoReturn)"

fun filter_step ::
  "nat \<Rightarrow> (nid \<Rightarrow> nat \<Rightarrow> 'u world \<times> 'c \<Rightarrow> (error, 'u world \<times> 'c, bool) outcome) \<Rightarrow> nat \<Rightarrow> nid \<Rightarrow> nid \<Rightarrow>
   ('u, 'c) walk \<Rightarrow> (error, ('u, 'c) walk, unit) outcome" where
  "filter_step 0 filter_fun level parent child s = NoReturn"
| "filter_step (Suc k) filter_fun level parent child (s, visited) =
     (if child \<in> visited then Returns () (s, visited)
      else bnd (on_world (filter_fun child level) (s, insert child visited)) (\<lambda>keep_node s.
        let grand_children = get_observers (fst (fst s)) child in
        andthen
          (if \<not> keep_node
           then andthen (on_graph (\<lambda>w. Returns () (disconnect parent child w)) s)
                  (for_each (\<lambda>grand_child. on_graph (connect parent grand_child)) grand_children)
           else Returns () s)
          (for_each (filter_step k filter_fun (level + 1) child) grand_children)))"

definition filter_nodes ::
  "nat \<Rightarrow> (nid \<Rightarrow> nat \<Rightarrow> 'u world \<times> 'c \<Rightarrow> (error, 'u world \<times> 'c, bool) outcome) \<Rightarrow> nid \<Rightarrow> 'u world \<times> 'c \<Rightarrow>
   ('u, 'c) ending" where
  "filter_nodes k filter_fun self s =
     without_visited (for_each (filter_step k filter_fun 0 self) (get_observers (fst s) self) (s, {}))"

section \<open>Printing a graph\<close>

definition repeated_string :: "string \<Rightarrow> nat \<Rightarrow> string" where
  "repeated_string s n = concat (replicate n s)"

definition graph_line :: "nat \<Rightarrow> nid \<Rightarrow> nat \<Rightarrow> 'u world \<times> string \<Rightarrow> ('u, string) ending" where
  "graph_line init_level node level s =
     Returns () (fst s, snd s @ repeated_string ''  '' (init_level + level) @ node_to_string (fst s) node @ ''\<newline>'')"

definition graph_to_string :: "nat \<Rightarrow> nid \<Rightarrow> nat \<Rightarrow> 'u world \<Rightarrow> (error, 'u world \<times> string, unit) outcome" where
  "graph_to_string k self level w = walk_nodes k (graph_line level) True self (w, [])"

section \<open>The order of a walk\<close>

text \<open>
  The order in which a walk comes to the nodes of a graph that does not change: the nodes with
  their levels, and the nodes visited afterwards.
\<close>

primrec orders ::
  "(nid \<Rightarrow> nid set \<Rightarrow> ((nid \<times> nat) list \<times> nid set) option) \<Rightarrow> nid list \<Rightarrow> nid set \<Rightarrow>
   ((nid \<times> nat) list \<times> nid set) option" where
  "orders f [] V = Some ([], V)"
| "orders f (c # cs) V =
     (case f c V of
        None \<Rightarrow> None
      | Some (xs, V) \<Rightarrow> (case orders f cs V of None \<Rightarrow> None | Some (ys, V) \<Rightarrow> Some (xs @ ys, V)))"

fun node_order ::
  "nat \<Rightarrow> (nid \<Rightarrow> nid list) \<Rightarrow> bool \<Rightarrow> nat \<Rightarrow> nid \<Rightarrow> nid set \<Rightarrow> ((nid \<times> nat) list \<times> nid set) option" where
  "node_order 0 G forwards level node V = None"
| "node_order (Suc k) G forwards level node V =
     (if node \<in> V then Some ([], V)
      else case orders (node_order k G forwards (level + 1)) (G node) (insert node V) of
        None \<Rightarrow> None
      | Some (xs, V) \<Rightarrow> Some (if forwards then (node, level) # xs else xs @ [(node, level)], V))"

definition walk_order :: "nat \<Rightarrow> (nid \<Rightarrow> nid list) \<Rightarrow> bool \<Rightarrow> nid \<Rightarrow> (nid \<times> nat) list option" where
  "walk_order k G forwards self = map_option fst (orders (node_order k G forwards 0) (G self) {})"

lemma orders_Cons_Some:
  "orders f (c # cs) V = Some (zs, V'') \<longleftrightarrow>
    (\<exists>xs V' ys. f c V = Some (xs, V') \<and> orders f cs V' = Some (ys, V'') \<and> zs = xs @ ys)"
  by (auto split: option.splits)

text \<open>A property of the steps of \<open>orders\<close> that composes holds of the whole.\<close>

lemma orders_induct:
  assumes "orders f cs V = Some (xs, V')"
    and nil: "\<And>V. P [] V [] V"
    and step: "\<And>c cs V xs V' ys V''. f c V = Some (xs, V') \<Longrightarrow> c \<in> set ds \<Longrightarrow> P cs V' ys V'' \<Longrightarrow>
        P (c # cs) V (xs @ ys) V''"
    and "set cs \<subseteq> set ds"
  shows "P cs V xs V'"
  using assms(1,4)
proof (induction cs arbitrary: V xs)
  case Nil
  then show ?case by (simp add: nil)
next
  case (Cons c cs)
  then show ?case
    by (auto simp: orders_Cons_Some simp del: orders.simps intro!: step)
qed

subsection \<open>What is visited\<close>

definition graph_edges :: "(nid \<Rightarrow> nid list) \<Rightarrow> (nid \<times> nid) set" where
  "graph_edges G = {(a, b). b \<in> set (G a)}"

definition reach :: "(nid \<Rightarrow> nid list) \<Rightarrow> nid set \<Rightarrow> nid set" where
  "reach G A = (graph_edges G)\<^sup>* `` A"

text \<open>
  \<open>covers G V cs xs V'\<close>: the walk from \<open>cs\<close> adds the nodes of \<open>xs\<close> to \<open>V\<close>, each once and
  only reachable ones, and leaves nothing unvisited below \<open>cs\<close> and below the nodes of \<open>xs\<close>.
\<close>

definition covers :: "(nid \<Rightarrow> nid list) \<Rightarrow> nid list \<Rightarrow> nid set \<Rightarrow> nid list \<Rightarrow> nid set \<Rightarrow> bool" where
  "covers G cs V xs V' \<longleftrightarrow>
     V' = V \<union> set xs \<and> distinct xs \<and> set xs \<inter> V = {} \<and> set cs \<subseteq> V' \<and>
     set xs \<subseteq> reach G (set cs) \<and> (\<forall>x \<in> set xs. set (G x) \<subseteq> V')"

lemma reach_mono: "A \<subseteq> B \<Longrightarrow> reach G A \<subseteq> reach G B"
  by (auto simp: reach_def)

lemma reach_child: "reach G (set (G n)) \<subseteq> reach G {n}"
  by (auto simp: reach_def graph_edges_def intro: converse_rtrancl_into_rtrancl)

lemma reach_self [simp]: "n \<in> reach G {n}"
  by (simp add: reach_def)

lemma covers_Nil: "covers G [] V [] V"
  by (simp add: covers_def)

lemma covers_append:
  assumes "covers G [c] V xs V'" and "covers G cs V' ys V''"
  shows "covers G (c # cs) V (xs @ ys) V''"
proof -
  have "reach G {c} \<subseteq> reach G (set (c # cs))" "reach G (set cs) \<subseteq> reach G (set (c # cs))"
    by (auto intro!: reach_mono)
  with assms show ?thesis
    unfolding covers_def by auto
qed

lemma covers_node:
  assumes "covers G (G n) (insert n V) xs V'" and "n \<notin> V"
  shows "covers G [n] V (n # xs) V'" and "covers G [n] V (xs @ [n]) V'"
  using assms reach_child [of G n] by (auto simp: covers_def)

lemma node_order_covers:
  "node_order k G fwd l n V = Some (xs, V') \<Longrightarrow> covers G [n] V (map fst xs) V'"
proof (induction k arbitrary: l n V xs V')
  case 0
  then show ?case by simp
next
  case (Suc k)
  show ?case
  proof (cases "n \<in> V")
    case True
    with Suc.prems show ?thesis by (auto simp: covers_def)
  next
    case False
    with Suc.prems obtain ys where ys: "orders (node_order k G fwd (l + 1)) (G n) (insert n V) = Some (ys, V')"
        and xs: "xs = (if fwd then (n, l) # ys else ys @ [(n, l)])"
      by (auto split: option.splits)
    from ys have "covers G (G n) (insert n V) (map fst ys) V'"
    proof (rule orders_induct [where ds = "G n" and P = "\<lambda>cs V xs V'. covers G cs V (map fst xs) V'"])
      show "covers G (c # cs) V (map fst (xs @ ys)) V''"
        if "node_order k G fwd (l + 1) c V = Some (xs, V')" "covers G cs V' (map fst ys) V''" for c cs V xs V' ys V''
        using covers_append [OF Suc.IH [OF that(1)] that(2)] by simp
    qed (simp_all add: covers_Nil)
    then show ?thesis
      using covers_node [of G n V "map fst ys" V'] False xs by simp
  qed
qed

lemma orders_covers:
  "orders (node_order k G fwd l) cs V = Some (xs, V') \<Longrightarrow> covers G cs V (map fst xs) V'"
proof (erule orders_induct [where ds = cs and P = "\<lambda>cs V xs V'. covers G cs V (map fst xs) V'"])
  show "covers G (c # cs) V (map fst (xs @ ys)) V''"
    if "node_order k G fwd l c V = Some (xs, V')" "covers G cs V' (map fst ys) V''" for c cs V xs V' ys V''
    using covers_append [OF node_order_covers [OF that(1)] that(2)] by simp
qed (simp_all add: covers_Nil)

lemma covers_all:
  assumes "covers G cs {} xs V'"
  shows "set xs = reach G (set cs)"
proof -
  have closed: "(graph_edges G)\<^sup>* `` set cs \<subseteq> set xs"
  proof
    fix y assume "y \<in> (graph_edges G)\<^sup>* `` set cs"
    then obtain x where x: "x \<in> set cs" "(x, y) \<in> (graph_edges G)\<^sup>*" by auto
    from x(2,1) show "y \<in> set xs"
      by (induction rule: rtrancl_induct [consumes 1]) (use assms in \<open>auto simp: covers_def graph_edges_def\<close>)
  qed
  with assms show ?thesis
    by (auto simp: covers_def reach_def)
qed

lemma walk_order_covers:
  assumes "walk_order k G fwd self = Some xs"
  shows "covers G (G self) {} (map fst xs) (set (map fst xs))"
proof -
  obtain V' where V': "orders (node_order k G fwd 0) (G self) {} = Some (xs, V')"
    using assms by (auto simp: walk_order_def)
  from orders_covers [OF this] show ?thesis
    by (auto simp: covers_def)
qed

lemma walk_order_visits:
  assumes "walk_order k G fwd self = Some xs"
  shows "distinct (map fst xs)" and "set (map fst xs) = reach G (set (G self))"
  using walk_order_covers [OF assms] covers_all [OF walk_order_covers [OF assms]]
  by (simp_all add: covers_def)

subsection \<open>Enough depth\<close>

lemma orders_defined:
  assumes "\<And>c V. c \<in> set cs \<Longrightarrow> V0 \<subseteq> V \<Longrightarrow> \<exists>xs V'. f c V = Some (xs, V') \<and> V \<subseteq> V'"
    and "V0 \<subseteq> V"
  shows "\<exists>xs V'. orders f cs V = Some (xs, V')"
  using assms
proof (induction cs arbitrary: V)
  case Nil
  then show ?case by simp
next
  case (Cons c cs)
  obtain xs V' where "f c V = Some (xs, V')" "V \<subseteq> V'"
    using Cons.prems(1) [of c V] Cons.prems(2) by auto
  moreover from this obtain ys V'' where "orders f cs V' = Some (ys, V'')"
    using Cons.IH [of V'] Cons.prems by fastforce
  ultimately show ?case by simp
qed

lemma node_order_defined:
  assumes "finite N" and "\<And>x. x \<in> N \<Longrightarrow> set (G x) \<subseteq> N" and "n \<in> N" and "card (N - V) < k"
  shows "\<exists>xs V'. node_order k G fwd l n V = Some (xs, V') \<and> V \<subseteq> V'"
  using assms(3,4)
proof (induction k arbitrary: l n V)
  case 0
  then show ?case by simp
next
  case (Suc k)
  show ?case
  proof (cases "n \<in> V")
    case True
    then show ?thesis by simp
  next
    case False
    have less: "card (N - V') < k" if "insert n V \<subseteq> V'" for V'
    proof -
      have "card (N - V') \<le> card (N - insert n V)"
        using that assms(1) by (intro card_mono) auto
      also have "\<dots> < card (N - V)"
        using False Suc.prems(1) assms(1) by (intro psubset_card_mono) auto
      finally show ?thesis using Suc.prems(2) by simp
    qed
    have "\<exists>xs V'. orders (node_order k G fwd (l + 1)) (G n) (insert n V) = Some (xs, V')"
      using assms(2) [OF Suc.prems(1)] less by (intro orders_defined [of _ "insert n V"] Suc.IH) auto
    then obtain xs V' where xs: "orders (node_order k G fwd (l + 1)) (G n) (insert n V) = Some (xs, V')"
      by blast
    then have "insert n V \<subseteq> V'"
      using orders_covers [OF xs] by (auto simp: covers_def)
    with xs False show ?thesis by auto
  qed
qed

lemma walk_order_defined:
  assumes "finite N" and "\<And>x. x \<in> N \<Longrightarrow> set (G x) \<subseteq> N" and "self \<in> N" and "card N < k"
  shows "\<exists>xs. walk_order k G fwd self = Some xs"
proof -
  have "card (N - V) < k" for V
    using assms(1,4) by (meson Diff_subset card_mono le_less_trans)
  then have "\<exists>xs V'. orders (node_order k G fwd 0) (G self) {} = Some (xs, V')"
    using assms(1-3) by (intro orders_defined [of _ "{}"] node_order_defined [where N = N]) auto
  then show ?thesis
    by (auto simp: walk_order_def)
qed

subsection \<open>Children before parents\<close>

text \<open>Every child of a node of \<open>xs\<close> is in \<open>V\<close> or comes earlier in \<open>xs\<close>.\<close>

definition children_first :: "(nid \<Rightarrow> nid list) \<Rightarrow> nid set \<Rightarrow> nid list \<Rightarrow> bool" where
  "children_first G V xs \<longleftrightarrow> (\<forall>ys x zs. xs = ys @ x # zs \<longrightarrow> set (G x) \<subseteq> V \<union> set ys)"

lemma children_first_Nil [simp]: "children_first G V []"
  by (simp add: children_first_def)

lemma children_first_append:
  assumes "children_first G V xs" and "children_first G V' ys" and "V' = V \<union> set xs"
  shows "children_first G V (xs @ ys)"
  unfolding children_first_def
proof (intro allI impI)
  fix us x zs
  assume "xs @ ys = us @ x # zs"
  then consider rs where "xs = us @ x # rs" | rs where "us = xs @ rs" "ys = rs @ x # zs"
    by (auto simp: append_eq_append_conv2 append_eq_Cons_conv)
  then show "set (G x) \<subseteq> V \<union> set us"
  proof cases
    case 1
    with assms(1) show ?thesis by (auto simp: children_first_def)
  next
    case (2 rs)
    with assms(2,3) show ?thesis by (fastforce simp: children_first_def)
  qed
qed

lemma children_first_single: "set (G n) \<subseteq> V \<Longrightarrow> children_first G V [n]"
  by (auto simp: children_first_def append_eq_Cons_conv Cons_eq_append_conv)

lemma children_first_drop:
  assumes "children_first G (insert n V) xs" and "\<And>x. x \<in> set xs \<Longrightarrow> n \<notin> set (G x)"
  shows "children_first G V xs"
  using assms unfolding children_first_def by fastforce

lemma orders_children_first:
  assumes "orders (node_order k G False l) cs V = Some (xs, V')"
    and step: "\<And>c V xs V'. node_order k G False l c V = Some (xs, V') \<Longrightarrow> children_first G V (map fst xs)"
  shows "children_first G V (map fst xs)"
proof -
  have "covers G cs V (map fst xs) V' \<and> children_first G V (map fst xs)"
    using assms(1)
  proof (rule orders_induct [where ds = cs and
        P = "\<lambda>cs V xs V'. covers G cs V (map fst xs) V' \<and> children_first G V (map fst xs)"])
    show "covers G (c # cs) V (map fst (xs @ ys)) V'' \<and> children_first G V (map fst (xs @ ys))"
      if c: "node_order k G False l c V = Some (xs, V')"
        and cs: "covers G cs V' (map fst ys) V'' \<and> children_first G V' (map fst ys)" for c cs V xs V' ys V''
    proof -
      have "covers G [c] V (map fst xs) V'"
        by (rule node_order_covers [OF c])
      moreover from this have "V' = V \<union> set (map fst xs)"
        by (simp add: covers_def)
      ultimately show ?thesis
        using covers_append children_first_append [OF step [OF c]] cs by simp
    qed
  qed (simp_all add: covers_Nil)
  then show ?thesis ..
qed

lemma node_order_children_first:
  assumes "acyclic (graph_edges G)"
  shows "node_order k G False l n V = Some (xs, V') \<Longrightarrow> children_first G V (map fst xs)"
proof (induction k arbitrary: l n V xs V')
  case 0
  then show ?case by simp
next
  case (Suc k)
  show ?case
  proof (cases "n \<in> V")
    case True
    with Suc.prems show ?thesis by simp
  next
    case False
    with Suc.prems obtain ys where ys: "orders (node_order k G False (l + 1)) (G n) (insert n V) = Some (ys, V')"
        and xs: "xs = ys @ [(n, l)]"
      by (auto split: option.splits)
    have cov: "covers G (G n) (insert n V) (map fst ys) V'"
      by (rule orders_covers [OF ys])
    have "n \<notin> set (G x)" if "x \<in> set (map fst ys)" for x
    proof
      assume "n \<in> set (G x)"
      have "x \<in> reach G (set (G n))"
        using cov that by (auto simp: covers_def)
      then obtain c where c: "(n, c) \<in> graph_edges G" "(c, x) \<in> (graph_edges G)\<^sup>*"
        by (auto simp: reach_def graph_edges_def)
      moreover have "(x, n) \<in> graph_edges G"
        using \<open>n \<in> set (G x)\<close> by (simp add: graph_edges_def)
      ultimately have "(n, n) \<in> (graph_edges G)\<^sup>+"
        by (meson rtrancl_into_trancl2 trancl_into_trancl)
      with assms show False by (simp add: acyclic_def)
    qed
    moreover have "children_first G (insert n V) (map fst ys)"
      using ys by (rule orders_children_first) (rule Suc.IH)
    ultimately have "children_first G V (map fst ys)"
      by (blast intro: children_first_drop)
    moreover have "n \<notin> set (G n)"
      using assms by (auto simp: acyclic_def graph_edges_def)
    with cov have "set (G n) \<subseteq> V \<union> set (map fst ys)"
      by (auto simp: covers_def)
    ultimately show ?thesis
      unfolding xs using children_first_append [of G V "map fst ys" "V \<union> set (map fst ys)" "[n]"]
      by (simp add: children_first_single)
  qed
qed

lemma walk_order_children_first:
  assumes "acyclic (graph_edges G)" and "walk_order k G False self = Some xs"
  shows "children_first G {} (map fst xs)"
  using assms orders_children_first node_order_children_first
  by (auto simp: walk_order_def)

section \<open>A walk follows the order\<close>

text \<open>
  The contract of a callback that leaves the connections as they are: the walk then runs it on the
  nodes of the order, one after the other, and stops where it throws.
\<close>

fun agrees :: "'v \<Rightarrow> (error, 's \<times> 'v, 'a) outcome \<Rightarrow> (error, 's, 'a) outcome \<Rightarrow> bool" where
  "agrees v (Returns a s) (Returns b t) \<longleftrightarrow> a = b \<and> s = (t, v)"
| "agrees v (Throws e s) (Throws f t) \<longleftrightarrow> e = f \<and> fst s = t"
| "agrees v NoReturn NoReturn \<longleftrightarrow> True"
| "agrees v _ _ \<longleftrightarrow> False"

lemma agrees_without_visited: "agrees v r q \<Longrightarrow> without_visited r = q"
  by (cases r; cases q) auto

lemma agrees_on_world: "agrees v (on_world f (s, v)) (f s)"
  by (cases "f s") simp_all

lemma agrees_andthen:
  assumes "agrees v r q" and "\<And>t. q = Returns () t \<Longrightarrow> agrees v' (g (t, v)) (h t)"
  shows "agrees v' (andthen r g) (andthen q h)"
  using assms by (cases r; cases q) auto

locale graph_keeping =
  fixes f :: "nid \<Rightarrow> nat \<Rightarrow> 'u world \<times> 'c \<Rightarrow> ('u, 'c) ending"
  assumes keeps: "ends (\<lambda>t. get_observers (fst t) = get_observers (fst s)) (f n l s)"
begin

definition visit :: "(nid \<times> nat) list \<Rightarrow> 'u world \<times> 'c \<Rightarrow> ('u, 'c) ending" where
  "visit = for_each (\<lambda>(n, l). f n l)"

lemma visit_keeps: "ends (\<lambda>t. get_observers (fst t) = get_observers (fst s)) (visit xs s)"
  unfolding visit_def
  by (rule ends_for_each) (auto split: prod.split intro: ends_mono [OF keeps])

lemma visit_returns: "visit xs s = Returns () t \<Longrightarrow> get_observers (fst t) = get_observers (fst s)"
  using visit_keeps [of s xs] by simp

lemma visit_append: "visit (xs @ ys) s = andthen (visit xs s) (visit ys)"
  by (simp add: visit_def for_each_append)

lemma agrees_orders:
  assumes "orders (node_order k G fwd l) cs V = Some (xs, V')" and "get_observers (fst s) = G"
    and step: "\<And>c V xs V' s. node_order k G fwd l c V = Some (xs, V') \<Longrightarrow> get_observers (fst s) = G \<Longrightarrow>
      agrees V' (step_nodes k f fwd l c (s, V)) (visit xs s)"
  shows "agrees V' (for_each (step_nodes k f fwd l) cs (s, V)) (visit xs s)"
  using assms(1,2)
proof (induction cs arbitrary: V xs s)
  case Nil
  then show ?case by (simp add: visit_def)
next
  case (Cons c cs)
  then obtain ys W zs where ys: "node_order k G fwd l c V = Some (ys, W)"
      and zs: "orders (node_order k G fwd l) cs W = Some (zs, V')" "xs = ys @ zs"
    by (auto simp: orders_Cons_Some simp del: orders.simps)
  show ?case
    unfolding zs(2) visit_append for_each.simps
  proof (rule agrees_andthen)
    show "agrees W (step_nodes k f fwd l c (s, V)) (visit ys s)"
      using ys Cons.prems(2) by (rule step)
    show "agrees V' (for_each (step_nodes k f fwd l) cs (t, W)) (visit zs t)" if "visit ys s = Returns () t" for t
      using zs(1) visit_returns [OF that] Cons.prems(2) by (intro Cons.IH) simp_all
  qed
qed

lemma agrees_step_nodes:
  "node_order k G fwd l n V = Some (xs, V') \<Longrightarrow> get_observers (fst s) = G \<Longrightarrow>
   agrees V' (step_nodes k f fwd l n (s, V)) (visit xs s)"
proof (induction k arbitrary: l n V xs V' s)
  case 0
  then show ?case by simp
next
  case (Suc k)
  show ?case
  proof (cases "n \<in> V")
    case True
    with Suc.prems show ?thesis by (simp add: visit_def)
  next
    case False
    with Suc.prems obtain ys where ys: "orders (node_order k G fwd (l + 1)) (G n) (insert n V) = Some (ys, V')"
        and xs: "xs = (if fwd then (n, l) # ys else ys @ [(n, l)])"
      by (auto split: option.splits)
    have rec: "agrees V' (for_each (step_nodes k f fwd (l + 1)) (G n) (t, insert n V)) (visit ys t)"
      if "get_observers (fst t) = G" for t
      using ys that by (rule agrees_orders) (rule Suc.IH)
    have one: "visit [(n, l)] = f n l"
      by (rule ext) (case_tac "f n l x"; simp add: visit_def)
    show ?thesis
    proof (cases fwd)
      case True
      have "agrees V' (andthen (on_world (f n l) (s, insert n V)) (for_each (step_nodes k f True (l + 1)) (G n)))
          (andthen (f n l s) (visit ys))"
      proof (rule agrees_andthen [OF agrees_on_world])
        show "agrees V' (for_each (step_nodes k f True (l + 1)) (G n) (t, insert n V)) (visit ys t)"
          if "f n l s = Returns () t" for t
          using that keeps [of s n l] Suc.prems(2) rec [of t] True by simp
      qed
      moreover have "visit xs s = andthen (f n l s) (visit ys)"
        using True by (simp add: xs visit_def)
      ultimately show ?thesis
        using True \<open>n \<notin> V\<close> Suc.prems(2) by (simp add: Let_def del: on_world.simps)
    next
      case False
      have "agrees V' (andthen (for_each (step_nodes k f False (l + 1)) (G n) (s, insert n V)) (on_world (f n l)))
          (andthen (visit ys s) (f n l))"
        by (rule agrees_andthen, use rec [OF Suc.prems(2)] False in simp, rule agrees_on_world)
      moreover have "visit xs s = andthen (visit ys s) (f n l)"
        using False by (simp add: xs visit_append one)
      ultimately show ?thesis
        using False \<open>n \<notin> V\<close> Suc.prems(2) by (simp add: Let_def del: on_world.simps)
    qed
  qed
qed

lemma walk_nodes_visit:
  assumes "walk_order k (get_observers (fst s)) fwd self = Some xs"
  shows "walk_nodes k f fwd self s = visit xs s"
proof -
  obtain V' where V': "orders (node_order k (get_observers (fst s)) fwd 0) (get_observers (fst s) self) {} = Some (xs, V')"
    using assms by (auto simp: walk_order_def)
  show ?thesis
    unfolding walk_nodes_def
    by (rule agrees_without_visited, rule agrees_orders [OF V' _ agrees_step_nodes]) auto
qed

end

interpretation graph_printing: graph_keeping "graph_line init_level" for init_level
  by unfold_locales (simp add: graph_line_def)

section \<open>Properties\<close>

lemma reach_observers: "reach G (set (G n)) = (graph_edges G)\<^sup>+ `` {n}"
  by (auto simp: reach_def graph_edges_def trancl_unfold_left)

lemma walk_visits:
  assumes "graph_keeping f" and "finite N" and "\<forall>x \<in> N. set (get_observers (fst s) x) \<subseteq> N"
    and "self \<in> N" and "card N < k"
  obtains xs where "walk_order k (get_observers (fst s)) fwd self = Some xs"
    and "walk_nodes k f fwd self s = for_each (\<lambda>(n, l). f n l) xs s"
    and "distinct (map fst xs)" and "set (map fst xs) = (graph_edges (get_observers (fst s)))\<^sup>+ `` {self}"
proof -
  obtain xs where xs: "walk_order k (get_observers (fst s)) fwd self = Some xs"
    using walk_order_defined [of N "get_observers (fst s)" self k fwd] assms by auto
  moreover have "walk_nodes k f fwd self s = for_each (\<lambda>(n, l). f n l) xs s"
    using graph_keeping.walk_nodes_visit [OF assms(1) xs] by (simp add: graph_keeping.visit_def [OF assms(1)])
  ultimately show ?thesis
    using that walk_order_visits [OF xs] by (simp add: reach_observers)
qed

text \<open>C5: A walk with a callback that leaves the connections alone runs the callback exactly once on each node
  that can be reached from the starting node, and on no other; it returns, with a recursion depth
  that the number of nodes bounds, also on graphs with cycles.\<close>

theorem walk_visits_reachable_once:
  assumes "graph_keeping f" and "finite N" and "\<forall>x \<in> N. set (get_observers (fst s) x) \<subseteq> N"
    and "self \<in> N" and "card N < k"
  shows "\<exists>xs. walk_nodes k f forwards self s = for_each (\<lambda>(n, l). f n l) xs s \<and>
    distinct (map fst xs) \<and> set (map fst xs) = (edges (fst s))\<^sup>+ `` {self}"
  using walk_visits [OF assms, of forwards]
  by (metis graph_edges_def observer_lists.edges_def)

theorem walk_visits_reachable_once_witness:
  "\<exists>xs. walk_nodes 3 (graph_line 0) True 0 (example_world ring (\<lambda>_. PlainNode), []) =
     for_each (\<lambda>(n, l). graph_line 0 n l) xs (example_world ring (\<lambda>_. PlainNode), []) \<and> distinct (map fst xs)"
proof -
  have "\<forall>x \<in> {0, 1}. set (get_observers (fst (example_world ring (\<lambda>_. PlainNode), [] :: string)) x) \<subseteq> {0, 1}"
    by (simp add: ring_def)
  from walk_visits_reachable_once [OF graph_printing.graph_keeping_axioms [of 0] _ this, of 0 3 True] show ?thesis
    by auto
qed

text \<open>C13: On a graph without cycles a backward walk comes to every node after all of the node's observers:
  consumers are handled before the producers that feed them.\<close>

theorem backward_walk_children_first:
  assumes "graph_keeping f" and "finite N" and "\<forall>x \<in> N. set (get_observers (fst s) x) \<subseteq> N"
    and "self \<in> N" and "card N < k" and "acyclic (edges (fst s))"
  shows "\<exists>xs. walk_nodes k f False self s = for_each (\<lambda>(n, l). f n l) xs s \<and>
    set (map fst xs) = (edges (fst s))\<^sup>+ `` {self} \<and>
    (\<forall>i < length xs. set (get_observers (fst s) (fst (xs ! i))) \<subseteq> fst ` set (take i xs))"
proof -
  obtain xs where xs: "walk_order k (get_observers (fst s)) False self = Some xs"
      "walk_nodes k f False self s = for_each (\<lambda>(n, l). f n l) xs s"
      "set (map fst xs) = (edges (fst s))\<^sup>+ `` {self}"
    using walk_visits [OF assms(1-5), of False] by (metis graph_edges_def observer_lists.edges_def)
  have "acyclic (graph_edges (get_observers (fst s)))"
    using assms(6) by (simp add: graph_edges_def observer_lists.edges_def)
  then have first: "children_first (get_observers (fst s)) {} (map fst xs)"
    using xs(1) by (rule walk_order_children_first)
  have "set (get_observers (fst s) (fst (xs ! i))) \<subseteq> fst ` set (take i xs)" if "i < length xs" for i
  proof -
    have "map fst xs = map fst (take i xs) @ fst (xs ! i) # map fst (drop (Suc i) xs)"
      by (metis id_take_nth_drop list.simps(9) map_append that)
    from first [unfolded children_first_def, rule_format, OF this] show ?thesis
      by simp
  qed
  with xs show ?thesis by blast
qed

theorem backward_walk_children_first_witness:
  "\<exists>xs. walk_nodes 5 (graph_line 0) False 0 (example_world diamond (\<lambda>_. PlainNode), []) =
     for_each (\<lambda>(n, l). graph_line 0 n l) xs (example_world diamond (\<lambda>_. PlainNode), []) \<and>
    (\<forall>i < length xs. set (diamond (fst (xs ! i))) \<subseteq> fst ` set (take i xs))"
proof -
  let ?s = "(example_world diamond (\<lambda>_. PlainNode), [] :: string)"
  have "\<forall>x \<in> {0, 1, 2, 3}. set (get_observers (fst ?s) x) \<subseteq> {0, 1, 2, 3}"
    by (simp add: diamond_def)
  moreover have "acyclic (edges (fst ?s))"
    using acyclic_diamond by (simp add: observer_lists.edges_def diamond_edges)
  ultimately show ?thesis
    using backward_walk_children_first [OF graph_printing.graph_keeping_axioms [of 0], of "{0, 1, 2, 3}" ?s 0 5]
    unfolding fst_conv example_world_simps by auto
qed

end
