(* ===== verification/Dispatch.thy ===== *)
theory Dispatch
  imports Example_World
begin

text \<open>
  How messages travel: \<open>signal\<close>, the notification of observers (\<open>node.cpp\<close>) and the
  \<open>receive\<close> method of every node class (the headers under \<open>core_nodes/\<close>, \<open>metrics.cpp\<close>,
  \<open>universal_data_saver.cpp\<close>). Everything runs on the signalling thread, by nested virtual calls:
  each body takes the call it makes as an argument, and \<open>receive_from\<close> ties the knot with a bound
  on the number of nested receives. A call that exceeds every bound does not return.

  \<open>notify_observers\<close> iterates the live observer list; as no receive changes a list, which is proved
  below, the model iterates the list at the start.
\<close>

type_synonym 'u act = "'u world \<Rightarrow> (error, 'u world, unit) outcome"
type_synonym 'u deliver = "nid \<Rightarrow> mid \<Rightarrow> nid \<Rightarrow> 'u act"

section \<open>Signalling\<close>

fun on_message :: "mid \<Rightarrow> (message \<Rightarrow> (error, message, unit) outcome) \<Rightarrow> 'u act" where
  "on_message m f w =
     (case f (msgs w m) of
        Returns a m' \<Rightarrow> Returns a (w\<lparr>msgs := (msgs w)(m := m')\<rparr>)
      | Throws e m' \<Rightarrow> Throws e (w\<lparr>msgs := (msgs w)(m := m')\<rparr>)
      | NoReturn \<Rightarrow> NoReturn)"

definition stamp_message :: "'u env \<Rightarrow> nid \<Rightarrow> mid \<Rightarrow> 'u act" where
  "stamp_message E self m w =
     on_message m (set_sender_info (lib E) (node_name (heap w self)) (node_guid (heap w self))
       (message_send_counter (heap w self))) w"

definition count_send :: "nid \<Rightarrow> 'u world \<Rightarrow> 'u world" where
  "count_send self = set_node self (\<lambda>nd. nd\<lparr>message_send_counter := message_send_counter nd + 1\<rparr>)"

definition notify_observers :: "'u deliver \<Rightarrow> nid \<Rightarrow> mid \<Rightarrow> 'u act" where
  "notify_observers receive_from self m w =
     (let w = count_send self w in for_each (\<lambda>o'. receive_from o' m self) (get_observers w self) w)"

definition notify_self :: "'u deliver \<Rightarrow> nid \<Rightarrow> mid \<Rightarrow> 'u act" where
  "notify_self receive_from self m w = receive_from self m self (count_send self w)"

definition signal :: "'u env \<Rightarrow> 'u deliver \<Rightarrow> nid \<Rightarrow> mid \<Rightarrow> 'u act" where
  "signal E receive_from self m w =
     andthen (stamp_message E self m w) (notify_observers receive_from self m)"

definition signal_self :: "'u env \<Rightarrow> 'u deliver \<Rightarrow> nid \<Rightarrow> mid \<Rightarrow> 'u act" where
  "signal_self E receive_from self m w =
     andthen (stamp_message E self m w) (notify_self receive_from self m)"

text \<open>Signalling a message that was just made.\<close>

definition signal_new :: "'u env \<Rightarrow> 'u deliver \<Rightarrow> nid \<Rightarrow> message \<Rightarrow> 'u act" where
  "signal_new E receive_from self m w =
     (let (i, w) = new_message m w in signal E receive_from self i w)"

section \<open>Receiving, class by class\<close>

text \<open>Each body gets its own \<open>signal\<close> as \<open>sig\<close>.\<close>

fun on_user :: "('u \<Rightarrow> (error, 'u, 'a) outcome) \<Rightarrow> 'u world \<Rightarrow> (error, 'u world, 'a) outcome" where
  "on_user f w =
     (case f (user w) of
        Returns a u \<Rightarrow> Returns a (w\<lparr>user := u\<rparr>)
      | Throws e u \<Rightarrow> Throws e (w\<lparr>user := u\<rparr>)
      | NoReturn \<Rightarrow> NoReturn)"

definition callback_fun_receive :: "'u env \<Rightarrow> nat \<Rightarrow> (mid \<Rightarrow> 'u act) \<Rightarrow> mid \<Rightarrow> 'u act" where
  "callback_fun_receive E k sig m w = andthen (on_user (callbackfun E k m (msgs w m)) w) (sig m)"

definition filter_fun_receive :: "'u env \<Rightarrow> nat \<Rightarrow> (mid \<Rightarrow> 'u act) \<Rightarrow> mid \<Rightarrow> 'u act" where
  "filter_fun_receive E k sig m w =
     bnd (on_user (filterfun E k m (msgs w m)) w) (\<lambda>keep w. if keep then sig m w else Returns () w)"

definition filter_name_receive :: "'u env \<Rightarrow> string \<Rightarrow> (mid \<Rightarrow> 'u act) \<Rightarrow> mid \<Rightarrow> 'u act" where
  "filter_name_receive E nm sig m w =
     (if message_name (lib E) (msgs w m) = nm then sig m w else Returns () w)"

definition filter_name_passthrough_receive ::
  "'u env \<Rightarrow> string \<Rightarrow> bool \<Rightarrow> (mid \<Rightarrow> 'u act) \<Rightarrow> mid \<Rightarrow> 'u act" where
  "filter_name_passthrough_receive E nm passthrough sig m w =
     (if passthrough \<or> message_name (lib E) (msgs w m) = nm then sig m w else Returns () w)"

definition map_fun_receive :: "'u env \<Rightarrow> nat \<Rightarrow> (mid \<Rightarrow> 'u act) \<Rightarrow> mid \<Rightarrow> 'u act" where
  "map_fun_receive E k sig m w =
     bnd (on_user (mapfun E k m (msgs w m)) w) (\<lambda>r w.
       case r of
         NullMessage \<Rightarrow> Returns () w
       | SameMessage \<Rightarrow> sig m w
       | NewMessage msg \<Rightarrow> (let (i, w) = new_message msg w in sig i w))"

text \<open>The count is a 32-bit signed integer: with \<open>n \<le> 0\<close> it reaches its largest value and overflows.\<close>

definition every_n_advance :: "nid \<Rightarrow> 'u act" where
  "every_n_advance self w =
     (let n = every_n (class_part (heap w self)); i = every_count (class_part (heap w self))
      in if i = 2 ^ 31 - 1 then Throws SignedOverflow w
         else Returns () (set_node self (set_class (EveryN n (if i + 1 = n then 0 else i + 1))) w))"

definition every_n_receive :: "nid \<Rightarrow> (mid \<Rightarrow> 'u act) \<Rightarrow> mid \<Rightarrow> 'u act" where
  "every_n_receive self sig m w =
     andthen (if every_count (class_part (heap w self)) = 0 then sig m w else Returns () w)
       (every_n_advance self)"

definition last_one_receive :: "nid \<Rightarrow> (mid \<Rightarrow> 'u act) \<Rightarrow> mid \<Rightarrow> 'u act" where
  "last_one_receive self sig m w = sig m (set_node self (set_class (LastOne (Some m))) w)"

definition get_last_message :: "'u world \<Rightarrow> nid \<Rightarrow> mid option" where
  "get_last_message w self = last_one (class_part (heap w self))"

definition message_printer_receive :: "'u env \<Rightarrow> nid \<Rightarrow> (mid \<Rightarrow> 'u act) \<Rightarrow> mid \<Rightarrow> 'u act" where
  "message_printer_receive E self sig m w =
     (case virtual_to_string E m (msgs w m) of
        None \<Rightarrow> Throws OutOfBounds (w\<lparr>console := console w @ [node_name (heap w self) @ '' '']\<rparr>)
      | Some s \<Rightarrow> sig m (w\<lparr>console := console w @ [node_name (heap w self) @ '' '' @ s]\<rparr>))"

definition metrics_printer_receive :: "'u env \<Rightarrow> (mid \<Rightarrow> 'u act) \<Rightarrow> mid \<Rightarrow> 'u act" where
  "metrics_printer_receive E sig m w =
     (if message_name (lib E) (msgs w m) = ''MetricsMessage''
      then (case metrics_pretty_print (lib E) (msgs w m) [] of
              Returns _ text \<Rightarrow> sig m (w\<lparr>console := console w @ [text]\<rparr>)
            | Throws e text \<Rightarrow> Throws e (w\<lparr>console := console w @ [text]\<rparr>)
            | NoReturn \<Rightarrow> NoReturn)
      else sig m w)"

text \<open>
  Writing to the stream of a saver. One opened to append writes at the end of the file as it then is;
  any other writes at its own position, over what is there, and fills with zeros if the file has
  become shorter.
\<close>

definition update_saver :: "(saver_state \<Rightarrow> saver_state) \<Rightarrow> nid \<Rightarrow> 'u world \<Rightarrow> 'u world" where
  "update_saver f self = set_node self (\<lambda>nd. set_class (UniversalDataSaver (f (saver_part (class_part nd)))) nd)"

definition put_at :: "nat \<Rightarrow> byte list \<Rightarrow> byte list \<Rightarrow> byte list" where
  "put_at pos bs content =
     take pos (content @ replicate (pos - length content) 0) @ bs @ drop (pos + length bs) content"

definition write_stream :: "byte list \<Rightarrow> nid \<Rightarrow> 'u world \<Rightarrow> 'u world" where
  "write_stream bs self w =
     (let sv = saver_part (class_part (heap w self));
          content = files w (saver_path sv);
          pos = (if saver_app sv then length content else saver_pos sv)
      in update_saver (\<lambda>sv. sv\<lparr>saver_pos := pos + length bs\<rparr>) self
           (w\<lparr>files := (files w)(saver_path sv := put_at pos bs content)\<rparr>))"

definition saver_receive :: "'u env \<Rightarrow> nid \<Rightarrow> (mid \<Rightarrow> 'u act) \<Rightarrow> mid \<Rightarrow> 'u act" where
  "saver_receive E self sig m w =
     (let sv = saver_part (class_part (heap w self));
          total_bytes = message_raw_size (msgs w m);
          chunk = u32_bytes total_bytes @ take (unat total_bytes) (raw_bytes (lib E) (msgs w m))
      in sig m (if saver_open sv then write_stream chunk self w else w))"

definition producer_receive :: "nid \<Rightarrow> mid \<Rightarrow> 'u act" where
  "producer_receive self m w =
     Returns () (set_node self (\<lambda>nd. set_class (Producer
       ((producer_part (class_part nd))\<lparr>last_message := Some m, has_new_message := True\<rparr>)) nd) w)"

section \<open>Metrics\<close>

definition update_publisher :: "(publisher_state \<Rightarrow> publisher_state) \<Rightarrow> nid \<Rightarrow> 'u world \<Rightarrow> 'u world" where
  "update_publisher f self = set_node self (\<lambda>nd.
     set_class (MetricsPublisherNode (f (publisher_part (class_part nd)))) nd)"

definition update_metrics :: "(metrics_state \<Rightarrow> metrics_state) \<Rightarrow> nid \<Rightarrow> 'u world \<Rightarrow> 'u world" where
  "update_metrics f self = set_node self (\<lambda>nd. set_class (MetricsNode (f (metrics_part (class_part nd)))) nd)"

definition record_sample :: "real \<Rightarrow> real \<Rightarrow> real \<Rightarrow> real \<Rightarrow> int \<Rightarrow> publisher_state \<Rightarrow> publisher_state" where
  "record_sample receive_time bytes time_since_last_receive latency num_missed_messages p =
     p\<lparr>tracked_receive_time := record_value receive_time (tracked_receive_time p),
       tracked_bytes := record_value bytes (tracked_bytes p),
       tracked_dt := (if time_since_last_receive \<noteq> - 1
                      then record_value time_since_last_receive (tracked_dt p) else tracked_dt p),
       tracked_latency := record_value latency (tracked_latency p),
       tracked_missed_messages := record_value (of_int num_missed_messages) (tracked_missed_messages p)\<rparr>"

text \<open>
  The mutex of a publisher is not recursive: locking it again on the thread that holds it never
  returns. The scoped lock releases it on every way out.
\<close>

definition record_metrics :: "real \<Rightarrow> real \<Rightarrow> real \<Rightarrow> real \<Rightarrow> int \<Rightarrow> nid \<Rightarrow> 'u act" where
  "record_metrics receive_time bytes dt latency missed self w =
     (if mtx (publisher_part (class_part (heap w self))) then NoReturn
      else Returns () (update_publisher (record_sample receive_time bytes dt latency missed) self w))"

definition locked :: "bool \<Rightarrow> nid \<Rightarrow> 'u world \<Rightarrow> 'u world" where
  "locked b = update_publisher (\<lambda>p. p\<lparr>mtx := b\<rparr>)"

fun finally_unlock :: "nid \<Rightarrow> (error, 'u world, unit) outcome \<Rightarrow> (error, 'u world, unit) outcome" where
  "finally_unlock self (Returns a w) = Returns a (locked False self w)"
| "finally_unlock self (Throws e w) = Throws e (locked False self w)"
| "finally_unlock self NoReturn = NoReturn"

definition publisher_metrics :: "publisher_state \<Rightarrow> (string \<times> metric_tracker) list" where
  "publisher_metrics p =
     [(''bytes'', tracked_bytes p), (''dt'', tracked_dt p), (''latency'', tracked_latency p),
      (''missed'', tracked_missed_messages p), (''time'', tracked_receive_time p)]"

definition publish_and_reset :: "'u env \<Rightarrow> 'u deliver \<Rightarrow> nid \<Rightarrow> 'u act" where
  "publish_and_reset E receive_from self w =
     (if mtx (publisher_part (class_part (heap w self))) then NoReturn
      else finally_unlock self
        (let w = locked True self w;
             p = publisher_part (class_part (heap w self));
             (now, w) = get_current_time E w;
             elapsed_time = now - last_reset_time p;
             (now, w) = get_current_time E w;
             m = metrics_message (lib E) now elapsed_time (publisher_metrics p) (parent_node_guid p)
                   (parent_node_name p) (child_node_guid p) (child_node_name p) (host_name p)
                   (current_rss E (ticks w))
         in andthen (signal_new E receive_from self m w)
              (\<lambda>w. let (now, w) = get_current_time E w
                   in Returns () (update_publisher (reset_publisher now) self w))))"

definition missed_messages :: "u64 option \<Rightarrow> u64 \<Rightarrow> int" where
  "missed_messages lmip new_message_index =
     (let last_received_message_index = (case lmip of None \<Rightarrow> 0 | Some v \<Rightarrow> ucast v) :: u32;
          skipped = ucast (new_message_index - scast last_received_message_index - 1) :: u32
      in max 0 (sint skipped))"

definition metrics_node_passive :: "'u env \<Rightarrow> 'u deliver \<Rightarrow> nid \<Rightarrow> real \<Rightarrow> 'u act" where
  "metrics_node_passive E receive_from self t0 w =
     (let ms = metrics_part (class_part (heap w self)) in
      if passive_frequency_hz ms \<noteq> 0
      then let w = (if last_passive_publish_time ms = 0
                    then update_metrics (\<lambda>ms. ms\<lparr>last_passive_publish_time := t0\<rparr>) self w else w);
               time_since_last_passive_publish =
                 t0 - last_passive_publish_time (metrics_part (class_part (heap w self)))
           in if time_since_last_passive_publish \<ge> 1 / passive_frequency_hz ms
              then publish_and_reset E receive_from (publisher_node ms)
                     (update_metrics (\<lambda>ms. ms\<lparr>last_passive_publish_time := t0\<rparr>) self w)
              else Returns () w
      else Returns () w)"

definition metrics_node_receive ::
  "'u env \<Rightarrow> 'u deliver \<Rightarrow> nid \<Rightarrow> (mid \<Rightarrow> 'u act) \<Rightarrow> mid \<Rightarrow> 'u act" where
  "metrics_node_receive E receive_from self sig m w =
     (let (t0, w) = get_current_time E w in
      andthen (sig m w) (\<lambda>w.
        let (t1, w) = get_current_time E w;
            ms = metrics_part (class_part (heap w self));
            first_time = (last_receive_time ms = - 1);
            time_since_last_receive = (if last_receive_time ms = - 1 then 0 else t0 - last_receive_time ms);
            w = update_metrics (\<lambda>ms. ms\<lparr>last_receive_time := t0\<rparr>) self w;
            bytes = message_raw_size (msgs w m);
            latency = t0 - timestamp (lib E) (msgs w m)
        in case source_node_guid (lib E) (msgs w m) of
             None \<Rightarrow> Throws OutOfBounds w
           | Some g \<Rightarrow>
               let guid = str g;
                   new_message_index = message_counter (lib E) (msgs w m);
                   missed = missed_messages (last_received_indexes ms guid) new_message_index;
                   w = update_metrics (\<lambda>ms. ms\<lparr>last_received_indexes :=
                         (last_received_indexes ms)(guid := Some new_message_index)\<rparr>) self w
               in andthen
                    (record_metrics (t1 - t0) (real (unat bytes))
                       (if first_time then - 1 else time_since_last_receive) latency missed
                       (publisher_node ms) w)
                    (metrics_node_passive E receive_from self t0)))"

section \<open>Dispatch\<close>

definition receive :: "'u env \<Rightarrow> 'u deliver \<Rightarrow> nid \<Rightarrow> mid \<Rightarrow> 'u act" where
  "receive E receive_from self m w =
     (let sig = signal E receive_from self in
      case class_part (heap w self) of
        CallbackFun k \<Rightarrow> callback_fun_receive E k sig m w
      | FilterFun k \<Rightarrow> filter_fun_receive E k sig m w
      | FilterName nm \<Rightarrow> filter_name_receive E nm sig m w
      | FilterNamePassthrough nm p \<Rightarrow> filter_name_passthrough_receive E nm p sig m w
      | MapFun k \<Rightarrow> map_fun_receive E k sig m w
      | EveryN n i \<Rightarrow> every_n_receive self sig m w
      | LastOne l \<Rightarrow> last_one_receive self sig m w
      | MessagePrinter \<Rightarrow> message_printer_receive E self sig m w
      | MetricsPrinter \<Rightarrow> metrics_printer_receive E sig m w
      | MetricsNode ms \<Rightarrow> metrics_node_receive E receive_from self sig m w
      | UniversalDataSaver sv \<Rightarrow> saver_receive E self sig m w
      | Producer p \<Rightarrow> producer_receive self m w
      | _ \<Rightarrow> sig m w)"

text \<open>The virtual \<open>receive_from\<close>: only the publisher of metrics overrides it.\<close>

definition virtual_receive_from :: "'u env \<Rightarrow> 'u deliver \<Rightarrow> 'u deliver" where
  "virtual_receive_from E receive_from self m sender w =
     (case class_part (heap w self) of
        MetricsPublisherNode p \<Rightarrow> publish_and_reset E receive_from self w
      | _ \<Rightarrow> receive E receive_from self m w)"

primrec receive_from :: "nat \<Rightarrow> 'u env \<Rightarrow> 'u deliver" where
  "receive_from 0 E self m sender w = NoReturn"
| "receive_from (Suc d) E self m sender w = virtual_receive_from E (receive_from d E) self m sender w"

text \<open>A call of \<open>signal\<close> from outside.\<close>

abbreviation send :: "nat \<Rightarrow> 'u env \<Rightarrow> nid \<Rightarrow> mid \<Rightarrow> 'u act" where
  "send d E \<equiv> signal E (receive_from d E)"

end
