(* ===== verification/Dispatch_Frame.thy ===== *)
theory Dispatch_Frame
  imports Dispatch
begin

text \<open>
  What a message leaves alone on its way. A relation between worlds that every single step of the
  dispatch respects is respected by whole calls, whatever their depth and however they end. The two
  uses: the structure of the graph stays as it is, and files and output only grow where the open
  streams allow no overwriting.
\<close>

section \<open>Kinds of nodes\<close>

text \<open>What no receive changes in the members of a class.\<close>

fun keeps_part :: "node_class \<Rightarrow> node_class \<Rightarrow> bool" where
  "keeps_part (MetricsPublisherNode p) c =
     (case c of MetricsPublisherNode q \<Rightarrow> mtx q = mtx p \<and> parent_node_name q = parent_node_name p \<and>
        child_node_name q = child_node_name p \<and> parent_node_guid q = parent_node_guid p \<and>
        child_node_guid q = child_node_guid p | _ \<Rightarrow> False)"
| "keeps_part (MetricsNode ms) c =
     (case c of MetricsNode ns \<Rightarrow> publisher_node ns = publisher_node ms \<and>
        passive_frequency_hz ns = passive_frequency_hz ms | _ \<Rightarrow> False)"
| "keeps_part (EveryN n i) c = (case c of EveryN k j \<Rightarrow> k = n | _ \<Rightarrow> False)"
| "keeps_part (LastOne m) c = (case c of LastOne l \<Rightarrow> True | _ \<Rightarrow> False)"
| "keeps_part (Producer p) c =
     (case c of Producer q \<Rightarrow> timeout_milliseconds q = timeout_milliseconds p | _ \<Rightarrow> False)"
| "keeps_part (UniversalDataSaver sv) c =
     (case c of UniversalDataSaver sw \<Rightarrow> saver_path sw = saver_path sv \<and> saver_open sw = saver_open sv \<and>
        saver_app sw = saver_app sv | _ \<Rightarrow> False)"
| "keeps_part c d = (d = c)"

lemma keeps_part_refl [simp]: "keeps_part c c"
  by (cases c) simp_all

lemma keeps_part_trans: "keeps_part a b \<Longrightarrow> keeps_part b c \<Longrightarrow> keeps_part a c"
  by (cases a; cases b; cases c) simp_all

definition same_parts :: "'u world \<Rightarrow> 'u world \<Rightarrow> bool" where
  "same_parts w v \<longleftrightarrow> (\<forall>n. keeps_part (class_part (heap w n)) (class_part (heap v n)))"

definition is_saver :: "node_class \<Rightarrow> bool" where
  "is_saver c \<longleftrightarrow> (\<exists>sv. c = UniversalDataSaver sv)"

lemma is_saver_simps [simp]:
  "is_saver (UniversalDataSaver sv)" "\<not> is_saver (MetricsPublisherNode p)" "\<not> is_saver (MetricsNode ms)"
  "\<not> is_saver (EveryN n i)" "\<not> is_saver (LastOne l)" "\<not> is_saver (Producer q)"
  by (simp_all add: is_saver_def)

lemma keeps_saver: "keeps_part c d \<Longrightarrow> is_saver d \<longleftrightarrow> is_saver c"
  by (cases c) (auto simp: is_saver_def split: node_class.splits)

definition is_publisher :: "node_class \<Rightarrow> bool" where
  "is_publisher c \<longleftrightarrow> (\<exists>p. c = MetricsPublisherNode p)"

text \<open>Every \<open>MetricsNode\<close> owns a publisher node, as its constructors provide.\<close>

definition owns_publishers :: "'u world \<Rightarrow> bool" where
  "owns_publishers w \<longleftrightarrow>
     (\<forall>n ms. class_part (heap w n) = MetricsNode ms \<longrightarrow> is_publisher (class_part (heap w (publisher_node ms))))"

lemma keeps_publisher: "keeps_part c d \<Longrightarrow> is_publisher c \<Longrightarrow> is_publisher d"
  by (auto simp: is_publisher_def split: node_class.splits)

lemma keeps_metrics_back: "keeps_part c (MetricsNode ms) \<Longrightarrow> \<exists>ns. c = MetricsNode ns \<and> publisher_node ns = publisher_node ms"
  by (cases c) auto

lemma owns_publishers_same:
  assumes "same_parts w v" and "owns_publishers w"
  shows "owns_publishers v"
  unfolding owns_publishers_def
proof (intro allI impI)
  fix n ms assume "class_part (heap v n) = MetricsNode ms"
  then obtain ns where "class_part (heap w n) = MetricsNode ns" "publisher_node ns = publisher_node ms"
    using assms(1) keeps_metrics_back unfolding same_parts_def by metis
  then show "is_publisher (class_part (heap v (publisher_node ms)))"
    using assms keeps_publisher unfolding owns_publishers_def same_parts_def by metis
qed

lemma set_node_class:
  "set_node n (\<lambda>nd. set_class (f nd) nd) w = set_node n (set_class (f (heap w n))) w"
  by (simp add: set_node_def)

section \<open>The contract of a step\<close>

locale dispatch_stable =
  fixes R :: "'u world \<Rightarrow> 'u world \<Rightarrow> bool"
  assumes R_refl: "R w w"
    and R_trans: "R u v \<Longrightarrow> R v w \<Longrightarrow> R u w"
    and R_parts: "R w v \<Longrightarrow> same_parts w v"
    and R_msgs: "R w (w\<lparr>msgs := f\<rparr>)"
    and R_new: "R w (snd (new_message msg w))"
    and R_user: "R w (w\<lparr>user := state\<rparr>)"
    and R_tick: "R w (w\<lparr>ticks := ticks w + 1\<rparr>)"
    and R_print: "R w (w\<lparr>console := console w @ out\<rparr>)"
    and R_file: "class_part (heap w n) = UniversalDataSaver sv \<Longrightarrow> saver_open sv \<Longrightarrow> R w (write_stream bs n w)"
    and R_count: "R w (count_send n w)"
    and R_class: "keeps_part (class_part (heap w n)) c \<Longrightarrow> \<not> is_saver c \<Longrightarrow> R w (set_node n (set_class c) w)"
    and R_lock: "class_part (heap w n) = MetricsPublisherNode q \<Longrightarrow> \<not> mtx q \<Longrightarrow>
      R (locked True n w) v \<Longrightarrow> R w (locked False n v)"
begin

text \<open>An action that moves along the relation, from worlds whose metrics nodes own publishers.\<close>

definition stable :: "'u act \<Rightarrow> bool" where
  "stable f \<longleftrightarrow> (\<forall>w. owns_publishers w \<longrightarrow> ends (R w) (f w))"

definition stable_deliver :: "'u deliver \<Rightarrow> bool" where
  "stable_deliver rf \<longleftrightarrow> (\<forall>n m s. stable (rf n m s))"

lemma stableI: "(\<And>w. owns_publishers w \<Longrightarrow> ends (R w) (f w)) \<Longrightarrow> stable f"
  by (simp add: stable_def)

lemma stableD: "stable f \<Longrightarrow> owns_publishers w \<Longrightarrow> ends (R w) (f w)"
  by (simp add: stable_def)

lemma owns_later: "owns_publishers w \<Longrightarrow> R w v \<Longrightarrow> owns_publishers v"
  by (blast intro: owns_publishers_same R_parts)

text \<open>A step in front of a stable action.\<close>

lemma ends_after:
  assumes "R w v" and "owns_publishers w" and "owns_publishers v \<Longrightarrow> ends (R v) r"
  shows "ends (R w) r"
  using assms by (blast intro: ends_mono R_trans owns_later)

lemma ends_then:
  assumes "ends (R w) r" and "owns_publishers w" and "\<And>v. owns_publishers v \<Longrightarrow> R w v \<Longrightarrow> ends (R v) (f v)"
  shows "ends (R w) (andthen r f)"
  using assms(1)
  by (rule ends_andthen) (rule ends_after [OF _ assms(2) assms(3)], auto)

lemma ends_bind:
  assumes "ends (R w) r" and "owns_publishers w" and "\<And>a v. owns_publishers v \<Longrightarrow> R w v \<Longrightarrow> ends (R v) (f a v)"
  shows "ends (R w) (bnd r f)"
  using assms(1)
  by (rule ends_bnd) (rule ends_after [OF _ assms(2) assms(3)], auto)

lemma stable_call: "stable f \<Longrightarrow> owns_publishers w \<Longrightarrow> R w v \<Longrightarrow> ends (R w) (f v)"
  by (blast intro: ends_after stableD)

lemma ends_now: "R w v \<Longrightarrow> ends (R w) (Returns a v)"
  by simp

lemma ends_on_user: "ends (R w) (on_user f w)"
  by (cases "f (user w)") (simp_all add: R_user)

lemma ends_on_message: "ends (R w) (on_message m f w)"
  by (cases "f (msgs w m)") (simp_all add: R_msgs)

lemma stable_stamp: "stable (stamp_message E n m)"
  unfolding stamp_message_def by (rule stableI) (rule ends_on_message)

lemma stable_notify:
  assumes "stable_deliver rf"
  shows "stable (notify_observers rf n m)"
proof (rule stableI)
  fix w :: "'u world" assume w: "owns_publishers w"
  have "ends (R w) (for_each (\<lambda>o'. rf o' m n) os v)" if "R w v" for os v
    using that
  proof (rule ends_for_each)
    show "ends (R w) (rf x m n u)" if "R w u" for x u
      using that w by (rule ends_after) (use assms in \<open>simp add: stable_deliver_def stableD\<close>)
  qed
  then show "ends (R w) (notify_observers rf n m w)"
    by (simp add: notify_observers_def Let_def R_count)
qed

lemma stable_signal: "stable_deliver rf \<Longrightarrow> stable (signal E rf n m)"
  unfolding signal_def
  by (rule stableI) (blast intro: ends_then stableD stable_stamp stable_notify)

lemma stable_signal_new: "stable_deliver rf \<Longrightarrow> stable (signal_new E rf n msg)"
  unfolding signal_new_def split_beta Let_def
  by (rule stableI, rule ends_after [OF R_new [where msg = msg]]) (simp_all add: stableD stable_signal)

lemma R_update: "keeps_part (class_part (heap w n)) (f (heap w n)) \<Longrightarrow> \<not> is_saver (f (heap w n)) \<Longrightarrow> R w (set_node n (\<lambda>nd. set_class (f nd) nd) w)"
  by (subst set_node_class) (rule R_class)

lemma R_update_publisher:
  assumes "is_publisher (class_part (heap w n))"
    and "\<And>p. keeps_part (MetricsPublisherNode p) (MetricsPublisherNode (f p))"
  shows "R w (update_publisher f n w)"
  unfolding update_publisher_def using assms by (intro R_update) (auto simp: is_publisher_def)

lemma R_update_metrics:
  assumes "class_part (heap w n) = MetricsNode ms"
    and "\<And>ms. keeps_part (MetricsNode ms) (MetricsNode (f ms))"
  shows "R w (update_metrics f n w)"
  unfolding update_metrics_def by (rule R_update) (use assms(1) assms(2) [of ms] in simp_all)

lemma ends_finally_unlock:
  assumes "class_part (heap w n) = MetricsPublisherNode q" "\<not> mtx q" "ends (R (locked True n w)) r"
  shows "ends (R w) (finally_unlock n r)"
  using assms by (cases r) (auto intro: R_lock)

lemma stable_callback_fun: "(\<And>i. stable (sig i)) \<Longrightarrow> stable (callback_fun_receive E k sig m)"
  unfolding callback_fun_receive_def
  by (rule stableI) (blast intro: ends_then ends_on_user stableD)

lemma stable_filter_fun:
  assumes "\<And>i. stable (sig i)"
  shows "stable (filter_fun_receive E k sig m)"
  unfolding filter_fun_receive_def
  by (rule stableI, rule ends_bind [OF ends_on_user])
    (auto simp: R_refl intro: stable_call [OF assms])

lemma stable_map_fun:
  assumes "\<And>i. stable (sig i)"
  shows "stable (map_fun_receive E k sig m)"
  unfolding map_fun_receive_def split_beta Let_def
  by (rule stableI, rule ends_bind [OF ends_on_user])
    (auto simp: R_refl split: mapped.split intro: stable_call [OF assms] R_new)

lemma stable_every_n:
  assumes "\<And>i. stable (sig i)" and "class_part (heap w self) = EveryN n i" and "owns_publishers w"
  shows "ends (R w) (every_n_receive self sig m w)"
  unfolding every_n_receive_def
proof (rule ends_then [OF _ assms(3)])
  show "ends (R w) (if every_count (class_part (heap w self)) = 0 then sig m w else Returns () w)"
    using assms by (simp add: stableD R_refl)
  show "ends (R v) (every_n_advance self v)" if "R w v" for v
  proof -
    have "keeps_part (EveryN n i) (class_part (heap v self))"
      using R_parts [OF that] assms(2) unfolding same_parts_def by metis
    then obtain j where "class_part (heap v self) = EveryN n j"
      by (auto split: node_class.splits)
    then show ?thesis
      by (simp add: every_n_advance_def Let_def R_refl R_class)
  qed
qed

lemma stable_last_one:
  assumes "\<And>i. stable (sig i)" and "class_part (heap w self) = LastOne l" and "owns_publishers w"
  shows "ends (R w) (last_one_receive self sig m w)"
  unfolding last_one_receive_def
  by (rule stable_call [OF assms(1,3)]) (simp add: R_class assms(2))

lemma stable_producer:
  assumes "class_part (heap w self) = Producer p"
  shows "ends (R w) (producer_receive self m w)"
  unfolding producer_receive_def by (intro ends_now R_update) (simp_all add: assms)

lemma stable_message_printer:
  assumes "\<And>i. stable (sig i)"
  shows "stable (message_printer_receive E self sig m)"
  unfolding message_printer_receive_def
  by (rule stableI) (auto simp: R_print split: option.split intro: stable_call [OF assms])

lemma stable_metrics_printer:
  assumes "\<And>i. stable (sig i)"
  shows "stable (metrics_printer_receive E sig m)"
  unfolding metrics_printer_receive_def
  by (rule stableI) (auto simp: R_print R_refl split: outcome.split intro: stable_call [OF assms])

lemma stable_saver:
  assumes "\<And>i. stable (sig i)" and "class_part (heap w self) = UniversalDataSaver sv" and "owns_publishers w"
  shows "ends (R w) (saver_receive E self sig m w)"
  unfolding saver_receive_def Let_def
  by (rule stable_call [OF assms(1,3)]) (simp add: R_file [OF assms(2)] R_refl assms(2))

lemma stable_publish:
  assumes rf: "stable_deliver rf" and w: "owns_publishers w" and p: "is_publisher (class_part (heap w n))"
  shows "ends (R w) (publish_and_reset E rf n w)"
proof -
  from p obtain q where q: "class_part (heap w n) = MetricsPublisherNode q"
    by (auto simp: is_publisher_def)
  show ?thesis
  proof (cases "mtx q")
    case True
    with q show ?thesis by (simp add: publish_and_reset_def)
  next
    case False
    let ?w = "locked True n w" and ?tick = "\<lambda>w. snd (get_current_time E w)"
    have "class_part (heap ?w n) = MetricsPublisherNode (q\<lparr>mtx := True\<rparr>)"
      by (simp add: locked_def update_publisher_def q)
    then have w': "owns_publishers ?w"
      using w by (auto simp: owns_publishers_def locked_def update_publisher_def is_publisher_def)
    have tick: "R u (?tick u)" for u
      using R_tick [of u] by (simp add: get_current_time_def)
    have reset: "ends (R v) (let (now, w) = get_current_time E v in
        Returns () (update_publisher (reset_publisher now) n w))" if v: "R ?w v" for v
    proof -
      have "is_publisher (class_part (heap (?tick v) n))"
        using R_parts [OF v] keeps_publisher \<open>class_part (heap ?w n) = _\<close>
        unfolding same_parts_def get_current_time_def is_publisher_def by fastforce
      then have "R (?tick v) (update_publisher (reset_publisher (clock E (ticks v))) n (?tick v))"
        by (rule R_update_publisher) (simp add: reset_publisher_def)
      then show ?thesis
        using R_trans [OF tick] by (simp add: get_current_time_def)
    qed
    have "ends (R ?w) (andthen (signal_new E rf n msg (?tick (?tick ?w)))
        (\<lambda>v. let (now, w) = get_current_time E v in Returns () (update_publisher (reset_publisher now) n w)))" for msg
    proof (rule ends_then [OF _ w' reset])
      show "ends (R ?w) (signal_new E rf n msg (?tick (?tick ?w)))"
        using R_trans [OF tick tick] w' by (rule ends_after) (rule stableD [OF stable_signal_new [OF rf]])
    qed
    then have "ends (R w) (finally_unlock n (andthen (signal_new E rf n msg (?tick (?tick ?w)))
        (\<lambda>v. let (now, w) = get_current_time E v in Returns () (update_publisher (reset_publisher now) n w))))" for msg
      by (rule ends_finally_unlock [OF q False])
    with False q show ?thesis
      unfolding publish_and_reset_def Let_def split_beta by (simp only: if_False node_class.sel)
  qed
qed

lemma stable_passive:
  assumes rf: "stable_deliver rf" and w: "owns_publishers w" and ms: "class_part (heap w n) = MetricsNode ms"
  shows "ends (R w) (metrics_node_passive E rf n t w)"
proof -
  let ?set = "update_metrics (\<lambda>ms. ms\<lparr>last_passive_publish_time := t\<rparr>) n"
  have pub: "is_publisher (class_part (heap v (publisher_node ms)))" if "R w v" for v
    using w ms R_parts [OF that] keeps_publisher unfolding owns_publishers_def same_parts_def by metis
  have set: "R v (?set v)" if "class_part (heap v n) = MetricsNode ns" for v ns
    using that by (rule R_update_metrics) simp
  have ms': "class_part (heap (?set w) n) = MetricsNode (ms\<lparr>last_passive_publish_time := t\<rparr>)"
    by (simp add: update_metrics_def ms)
  have publish: "ends (R v) (publish_and_reset E rf (publisher_node ms) (?set v))"
    if "class_part (heap v n) = MetricsNode ns" and "R w v" for v ns
    using set [OF that(1)] owns_later [OF w that(2)]
    by (rule ends_after) (use rf pub R_trans [OF that(2) set [OF that(1)]] in \<open>blast intro: stable_publish\<close>)
  show ?thesis
  proof (cases "passive_frequency_hz ms = 0")
    case True
    then show ?thesis by (simp add: metrics_node_passive_def ms R_refl)
  next
    case False
    define v where "v = (if last_passive_publish_time ms = 0 then ?set w else w)"
    have "\<exists>ns. class_part (heap v n) = MetricsNode ns" "R w v"
      using ms ms' set [OF ms] R_refl [of w] by (simp_all add: v_def)
    then obtain ns where v: "class_part (heap v n) = MetricsNode ns" "R w v"
      by blast
    have "metrics_node_passive E rf n t w =
        (if t - last_passive_publish_time (metrics_part (class_part (heap v n))) \<ge> 1 / passive_frequency_hz ms
         then publish_and_reset E rf (publisher_node ms) (?set v) else Returns () v)"
      using False by (simp add: metrics_node_passive_def ms v_def)
    then show ?thesis
      using publish [OF v] by (intro ends_after [OF v(2) w]) (simp add: R_refl)
  qed
qed

lemma stable_record: "is_publisher (class_part (heap v q)) \<Longrightarrow> ends (R v) (record_metrics a b c d e q v)"
  unfolding record_metrics_def by (auto simp: record_sample_def intro!: R_update_publisher)

lemma stable_metrics_node:
  assumes rf: "stable_deliver rf" and sig: "\<And>i. stable (sig i)" and w: "owns_publishers w"
    and ms: "class_part (heap w n) = MetricsNode ms"
  shows "ends (R w) (metrics_node_receive E rf n sig m w)"
proof -
  let ?tick = "\<lambda>w. snd (get_current_time E w)"
  have tick: "R u (?tick u)" for u
    using R_tick [of u] by (simp add: get_current_time_def)
  have node: "\<exists>ns. class_part (heap v n) = MetricsNode ns \<and> publisher_node ns = publisher_node ms" if "R w v" for v
    using R_parts [OF that] ms unfolding same_parts_def by (auto dest!: spec [of _ n] split: node_class.splits)
  have sample: "ends (R v) (record_metrics a b c d e (publisher_node ms) v)" if "R w v" for v a b c d e
  proof -
    have "is_publisher (class_part (heap v (publisher_node ms)))"
      using w ms R_parts [OF that] keeps_publisher unfolding owns_publishers_def same_parts_def by metis
    then show ?thesis by (rule stable_record)
  qed
  have finish: "ends (R v) (andthen (record_metrics a b c d e (publisher_node ms) v) (metrics_node_passive E rf n t))"
    if "R w v" for v a b c d e t
  proof (rule ends_then [OF sample [OF that] owns_later [OF w that]])
    show "ends (R u) (metrics_node_passive E rf n t u)" if "owns_publishers u" "R v u" for u
      using that node [OF R_trans [OF \<open>R w v\<close> that(2)]] by (auto intro: stable_passive [OF rf])
  qed
  have set: "R v (update_metrics f n v)" if "R w v" and "\<And>ms. keeps_part (MetricsNode ms) (MetricsNode (f ms))" for v f
    using node [OF that(1)] that(2) by (auto intro: R_update_metrics)
  show ?thesis
    unfolding metrics_node_receive_def Let_def split_beta
  proof (rule ends_after [OF tick w], rule ends_then, goal_cases)
    case 1
    show ?case
      using owns_later [OF w tick] by (rule stableD [OF sig])
  next
    case 2
    show ?case
      by (rule owns_later [OF w tick])
  next
    case (3 v)
    then have v: "owns_publishers v" and wv: "R w (?tick v)"
      by (blast intro: R_trans tick)+
    let ?v1 = "\<lambda>t. update_metrics (\<lambda>ms. ms\<lparr>last_receive_time := t\<rparr>) n (?tick v)"
    have v1: "R (?tick v) (?v1 t)" for t
      by (rule set [OF wv]) simp
    let ?v2 = "\<lambda>t g i. update_metrics (\<lambda>ms. ms\<lparr>last_received_indexes := (last_received_indexes ms)(g := Some i)\<rparr>) n (?v1 t)"
    have v2: "R (?v1 t) (?v2 t g i)" for t g i
      by (rule set [OF R_trans [OF wv v1]]) simp
    have pub: "publisher_node (metrics_part (class_part (heap (?tick v) n))) = publisher_node ms"
      using node [OF wv] by auto
    have "ends (R (?v2 t g i)) (andthen (record_metrics a b c d e (publisher_node ms) (?v2 t g i)) (metrics_node_passive E rf n t'))"
      for t g i a b c d e t'
      by (rule finish) (blast intro: R_trans wv v1 v2)
    then have "ends (R v) (andthen (record_metrics a b c d e (publisher_node ms) (?v2 t g i)) (metrics_node_passive E rf n t'))"
      for t g i a b c d e t'
      using ends_after [OF R_trans [OF tick R_trans [OF v1 v2]] v] by blast
    moreover have "R v (?v1 t)" for t
      by (blast intro: R_trans tick v1)
    ultimately show ?case
      unfolding pub by (simp split: option.split)
  qed
qed

text \<open>The whole dispatch.\<close>

lemma stable_receive:
  assumes rf: "stable_deliver rf"
  shows "stable (receive E rf n m)"
proof (rule stableI)
  fix w :: "'u world" assume w: "owns_publishers w"
  note sig = stable_signal [OF rf]
  show "ends (R w) (receive E rf n m w)"
    unfolding receive_def Let_def
    by (cases "class_part (heap w n)")
      (simp_all add: stableD [OF _ w] sig stable_callback_fun stable_filter_fun stable_map_fun
        stable_message_printer stable_metrics_printer stable_saver [OF sig _ w] filter_name_receive_def
        filter_name_passthrough_receive_def R_refl stable_every_n [OF sig _ w] stable_last_one [OF sig _ w]
        stable_producer stable_metrics_node [OF rf sig w])
qed

lemma stable_receive_from: "stable_deliver (receive_from d E)"
proof (induction d)
  case 0
  then show ?case by (simp add: stable_deliver_def stable_def)
next
  case (Suc d)
  have "ends (R w) (virtual_receive_from E (receive_from d E) n m s w)" if "owns_publishers w" for n m s w
    using stable_publish [OF Suc that] stableD [OF stable_receive [OF Suc] that]
    unfolding virtual_receive_from_def
    by (cases "class_part (heap w n)") (simp_all add: is_publisher_def)
  then show ?case
    by (simp add: stable_deliver_def stable_def)
qed

lemma dispatch_relates:
  "owns_publishers w \<Longrightarrow> ends (R w) (receive_from d E n m s w)"
  "owns_publishers w \<Longrightarrow> ends (R w) (send d E n m w)"
  using stable_receive_from stable_signal [OF stable_receive_from]
  by (simp_all add: stable_deliver_def stable_def)

end

section \<open>What the dispatch keeps\<close>

text \<open>Names, identifiers, connections, threads and the parts of the classes that are settings or locks.\<close>

definition same_structure :: "'u world \<Rightarrow> 'u world \<Rightarrow> bool" where
  "same_structure w v \<longleftrightarrow>
     same_parts w v \<and> next_node v = next_node w \<and> draws v = draws w \<and>
     (\<forall>n. node_name (heap v n) = node_name (heap w n) \<and> node_guid (heap v n) = node_guid (heap w n) \<and>
          observers (heap v n) = observers (heap w n) \<and> thread_part (heap v n) = thread_part (heap w n))"

lemma same_parts_refl [simp]: "same_parts w w"
  by (simp add: same_parts_def)

lemma same_parts_trans: "same_parts u v \<Longrightarrow> same_parts v w \<Longrightarrow> same_parts u w"
  unfolding same_parts_def by (blast intro: keeps_part_trans)

lemma same_parts_lock:
  assumes "class_part (heap w n) = MetricsPublisherNode q" and "\<not> mtx q" and "same_parts (locked True n w) v"
  shows "same_parts w (locked False n v)"
  unfolding same_parts_def
proof
  fix k
  have k: "keeps_part (class_part (heap (locked True n w) k)) (class_part (heap v k))"
    using assms(3) unfolding same_parts_def by blast
  show "keeps_part (class_part (heap w k)) (class_part (heap (locked False n v) k))"
  proof (cases "k = n")
    case True
    with k assms(1,2) show ?thesis
      by (auto simp: locked_def update_publisher_def split: node_class.splits)
  next
    case False
    with k show ?thesis by (simp add: locked_def update_publisher_def)
  qed
qed

text \<open>A write to a file changes the put position of its saver, and no other member of a node.\<close>

lemma write_stream_saver:
  assumes "class_part (heap w n) = UniversalDataSaver sv"
  shows "files (write_stream bs n w) = (files w)(saver_path sv :=
      put_at (if saver_app sv then length (files w (saver_path sv)) else saver_pos sv) bs (files w (saver_path sv)))"
    and "heap (write_stream bs n w) = (heap w)(n := set_class (UniversalDataSaver (sv\<lparr>saver_pos :=
      (if saver_app sv then length (files w (saver_path sv)) else saver_pos sv) + length bs\<rparr>)) (heap w n))"
  using assms by (simp_all add: write_stream_def update_saver_def Let_def)

lemma write_stream_simps [simp]:
  "msgs (write_stream bs n w) = msgs w" "next_msg (write_stream bs n w) = next_msg w"
  "next_node (write_stream bs n w) = next_node w" "user (write_stream bs n w) = user w"
  "ticks (write_stream bs n w) = ticks w" "draws (write_stream bs n w) = draws w"
  "console (write_stream bs n w) = console w" "sleeps (write_stream bs n w) = sleeps w"
  "polls (write_stream bs n w) = polls w" "get_observers (write_stream bs n w) = get_observers w"
  "node_name (heap (write_stream bs n w) k) = node_name (heap w k)"
  "node_guid (heap (write_stream bs n w) k) = node_guid (heap w k)"
  "observers (heap (write_stream bs n w) k) = observers (heap w k)"
  "thread_part (heap (write_stream bs n w) k) = thread_part (heap w k)"
  "message_send_counter (heap (write_stream bs n w) k) = message_send_counter (heap w k)"
  by (simp_all add: write_stream_def update_saver_def Let_def get_observers_def fun_eq_iff)

lemma same_parts_write:
  "class_part (heap w n) = UniversalDataSaver sv \<Longrightarrow> same_parts w (write_stream bs n w)"
  by (simp add: same_parts_def write_stream_saver)

interpretation frame: dispatch_stable same_structure
proof unfold_locales
  show "same_structure u w" if "same_structure u v" "same_structure v w" for u v w :: "'u world"
    using that same_parts_trans by (auto simp: same_structure_def)
  show "same_structure w (locked False n v)"
    if "class_part (heap w n) = MetricsPublisherNode q" "\<not> mtx q" "same_structure (locked True n w) v"
    for w v :: "'u world" and n q
    using that same_parts_lock [OF that(1,2), of v]
    by (auto simp: same_structure_def locked_def update_publisher_def split: if_splits)
qed (auto simp: same_structure_def same_parts_write, auto simp: same_parts_def new_message_def count_send_def)

text \<open>
  Nothing that has been written to a file is lost as long as every open saver on it appends, or only
  one saver is open on it and stands at its end. Files get no shorter, output is appended to, the
  clock is read forwards, and addresses of messages are used once.
\<close>

definition saver_on :: "'u world \<Rightarrow> string \<Rightarrow> nid \<Rightarrow> saver_state \<Rightarrow> bool" where
  "saver_on w p n sv \<longleftrightarrow> class_part (heap w n) = UniversalDataSaver sv \<and> saver_open sv \<and> saver_path sv = p"

definition append_only :: "'u world \<Rightarrow> string \<Rightarrow> bool" where
  "append_only w p \<longleftrightarrow>
     (\<forall>n sv. saver_on w p n sv \<longrightarrow>
        saver_app sv \<or> saver_pos sv = length (files w p) \<and> (\<forall>k sw. saver_on w p k sw \<longrightarrow> k = n))"

definition grows :: "'u world \<Rightarrow> 'u world \<Rightarrow> bool" where
  "grows w v \<longleftrightarrow>
     same_parts w v \<and> (\<forall>p. length (files w p) \<le> length (files v p)) \<and>
     (\<forall>p. append_only w p \<longrightarrow> append_only v p \<and> (\<exists>bs. files v p = files w p @ bs)) \<and>
     (\<exists>out. console v = console w @ out) \<and> ticks w \<le> ticks v \<and> next_msg w \<le> next_msg v"

lemma put_at_end: "put_at (length xs) bs xs = xs @ bs"
  by (simp add: put_at_def)

lemma length_put_at: "length (put_at pos bs xs) = max (length xs) (pos + length bs)"
  by (simp add: put_at_def min_def max_def)

lemma append_only_cong:
  assumes "files v p = files w p" and "saver_on v = saver_on w"
  shows "append_only v p = append_only w p"
  unfolding append_only_def assms ..

lemma grows_no_saver:
  assumes "same_parts w v" and "files v = files w" and "saver_on v = saver_on w"
    and "console v = console w @ out" and "ticks w \<le> ticks v" and "next_msg w \<le> next_msg v"
  shows "grows w v"
  using assms append_only_cong [OF fun_cong [OF assms(2)] assms(3)] by (simp add: grows_def)

lemma saver_on_set_class:
  assumes "\<not> is_saver (class_part (heap w n))" and "\<not> is_saver c"
  shows "saver_on (set_node n (set_class c) w) = saver_on w"
  using assms by (auto simp: saver_on_def is_saver_def fun_eq_iff)

text \<open>A write extends a file that is only appended to, and the file stays so.\<close>

lemma write_stream_append_only:
  assumes sv: "class_part (heap w n) = UniversalDataSaver sv" "saver_open sv" and w: "append_only w p"
  shows "append_only (write_stream bs n w) p \<and> (\<exists>cs. files (write_stream bs n w) p = files w p @ cs)"
proof (cases "saver_path sv = p")
  case False
  have on: "saver_on (write_stream bs n w) p = saver_on w p"
    using False sv by (auto simp: saver_on_def write_stream_saver [OF sv(1)] fun_eq_iff)
  have "files (write_stream bs n w) p = files w p"
    using False by (simp add: write_stream_saver [OF sv(1)])
  with w show ?thesis
    unfolding append_only_def on by simp
next
  case True
  have here: "saver_on w p n sv"
    using sv True by (simp add: saver_on_def)
  have end_: "(if saver_app sv then length (files w p) else saver_pos sv) = length (files w p)"
    using w here by (auto simp: append_only_def)
  have written: "files (write_stream bs n w) p = files w p @ bs"
    unfolding write_stream_saver(1) [OF sv(1)] True end_ put_at_end by simp
  have on: "saver_on (write_stream bs n w) p k sw \<longleftrightarrow>
      (if k = n then sw = sv\<lparr>saver_pos := length (files w p) + length bs\<rparr> else saver_on w p k sw)" for k sw
    unfolding saver_on_def write_stream_saver(2) [OF sv(1)] True end_ using sv(2) True by auto
  have "append_only (write_stream bs n w) p"
    unfolding append_only_def
  proof (intro allI impI)
    fix k sw assume k: "saver_on (write_stream bs n w) p k sw"
    show "saver_app sw \<or> saver_pos sw = length (files (write_stream bs n w) p) \<and>
        (\<forall>j sx. saver_on (write_stream bs n w) p j sx \<longrightarrow> j = k)"
    proof (cases "k = n")
      case True
      with k w here show ?thesis
        unfolding append_only_def by (auto simp: on written split: if_splits)
    next
      case False
      with k have "saver_on w p k sw"
        by (simp add: on)
      with w here False show ?thesis
        unfolding append_only_def by metis
    qed
  qed
  with written show ?thesis by blast
qed

lemma grows_write:
  assumes "class_part (heap w n) = UniversalDataSaver sv" and "saver_open sv"
  shows "grows w (write_stream bs n w)"
  using write_stream_append_only [OF assms] same_parts_write [OF assms(1)]
  by (auto simp: grows_def write_stream_saver [OF assms(1)] length_put_at)

interpretation growth: dispatch_stable grows
proof unfold_locales
  show "grows u w" if uv: "grows u v" and vw: "grows v w" for u v w :: "'u world"
  proof -
    have "append_only w p \<and> (\<exists>bs. files w p = files u p @ bs)" if "append_only u p" for p
      using uv vw that unfolding grows_def by (metis append_assoc)
    moreover have "same_parts u w"
      using uv vw same_parts_trans unfolding grows_def by blast
    moreover have "\<exists>out. console w = console u @ out"
      using uv vw unfolding grows_def by (metis append_assoc)
    moreover have "length (files u p) \<le> length (files w p)" for p
      using uv vw unfolding grows_def by (blast intro: order_trans)
    ultimately show ?thesis
      using uv vw by (simp add: grows_def)
  qed
  show "grows w (set_node n (set_class c) w)"
    if "keeps_part (class_part (heap w n)) c" "\<not> is_saver c" for w :: "'u world" and n c
    using that by (intro grows_no_saver [where out = "[]"] saver_on_set_class)
      (auto simp: same_parts_def keeps_saver)
  show "same_parts w v" if "grows w v" for w v :: "'u world"
    using that by (simp add: grows_def)
  show "grows w (write_stream bs n w)"
    if "class_part (heap w n) = UniversalDataSaver sv" "saver_open sv" for w :: "'u world" and n sv bs
    using that by (rule grows_write)
  show "grows w (locked False n v)"
    if q: "class_part (heap w n) = MetricsPublisherNode q" "\<not> mtx q" and g: "grows (locked True n w) v"
    for w v :: "'u world" and n q
  proof -
    have lock: "saver_on (locked True n w) = saver_on w"
      using q(1) by (auto simp: saver_on_def locked_def update_publisher_def fun_eq_iff)
    have "is_publisher (class_part (heap (locked True n w) n))"
      using q(1) by (simp add: is_publisher_def locked_def update_publisher_def)
    then have "is_publisher (class_part (heap v n))"
      using g keeps_publisher unfolding grows_def same_parts_def by blast
    then have unlock: "saver_on (locked False n v) = saver_on v"
      by (auto simp: saver_on_def is_publisher_def locked_def update_publisher_def fun_eq_iff)
    have files: "files (locked b n u) = files u" for b and u :: "'u world"
      by (simp add: locked_def update_publisher_def)
    have "append_only (locked True n w) p = append_only w p" "append_only (locked False n v) p = append_only v p" for p
      using append_only_cong lock unlock files by metis+
    then show ?thesis
      using g same_parts_lock [OF q, of v]
      by (auto simp: grows_def files) (simp_all add: locked_def update_publisher_def)
  qed
qed (auto simp: new_message_def count_send_def saver_on_def same_parts_def fun_eq_iff
    intro!: grows_no_saver split: if_splits)

end
