(* ===== verification/Core_Messages.thy ===== *)
theory Core_Messages
  imports Message
begin

text \<open>
  The message classes without tensors of \<open>core_messages.h\<close>. A conversion to \<open>float\<close> is the
  parameter \<open>single\<close>. Printing follows \<open>print_on\<close>, with the default format of a number in a stream
  as the parameter \<open>fmt\<close>.
\<close>

definition blank_message :: "flexlib \<Rightarrow> real \<Rightarrow> string \<Rightarrow> message" where
  "blank_message L now name = write_map_root L now ''core'' name []"

definition string_message :: "flexlib \<Rightarrow> real \<Rightarrow> string \<Rightarrow> string \<Rightarrow> message" where
  "string_message L now name s = write_map_root L now ''core'' name [(''s'', FString s)]"

definition string_message_text :: "flexlib \<Rightarrow> message \<Rightarrow> string" where
  "string_message_text L m = as_string L (root_val L m ''s'')"

definition float_message :: "flexlib \<Rightarrow> (real \<Rightarrow> real) \<Rightarrow> real \<Rightarrow> string \<Rightarrow> real \<Rightarrow> message" where
  "float_message L single now name v = write_map_root L now ''core'' name [(''v'', FFloat (single v))]"

definition float_message_value :: "flexlib \<Rightarrow> (real \<Rightarrow> real) \<Rightarrow> message \<Rightarrow> real" where
  "float_message_value L single m = single (as_double L (root_val L m ''v''))"

text \<open>\<open>DoubleMessage\<close> calls \<open>fbb.Float\<close>, whose argument is a \<open>float\<close>, and \<open>value\<close> returns a \<open>float\<close>.\<close>

definition double_message :: "flexlib \<Rightarrow> (real \<Rightarrow> real) \<Rightarrow> real \<Rightarrow> string \<Rightarrow> real \<Rightarrow> message" where
  "double_message L single now name v = write_map_root L now ''core'' name [(''v'', FFloat (single v))]"

definition double_message_value :: "flexlib \<Rightarrow> (real \<Rightarrow> real) \<Rightarrow> message \<Rightarrow> real" where
  "double_message_value L single m = single (as_double L (root_val L m ''v''))"

definition blank_message_to_string :: "flexlib \<Rightarrow> message \<Rightarrow> string option" where
  "blank_message_to_string L m = do {
     base \<leftarrow> message_to_string L m;
     Some (''<BlankMessage '' @ base @ ''>'') }"

definition string_message_to_string :: "flexlib \<Rightarrow> message \<Rightarrow> string option" where
  "string_message_to_string L m = do {
     base \<leftarrow> message_to_string L m;
     Some (''<StringMessage s:'' @ string_message_text L m @ '' '' @ base @ ''>'') }"

definition float_message_to_string :: "flexlib \<Rightarrow> (real \<Rightarrow> real) \<Rightarrow> (real \<Rightarrow> string) \<Rightarrow> message \<Rightarrow> string option" where
  "float_message_to_string L single fmt m = do {
     base \<leftarrow> message_to_string L m;
     Some (''<FloatMessage v:'' @ fmt (float_message_value L single m) @ '' '' @ base @ ''>'') }"

definition double_message_to_string :: "flexlib \<Rightarrow> (real \<Rightarrow> real) \<Rightarrow> (real \<Rightarrow> string) \<Rightarrow> message \<Rightarrow> string option" where
  "double_message_to_string L single fmt m = do {
     base \<leftarrow> message_to_string L m;
     Some (''<DoubleMessage v:'' @ fmt (double_message_value L single m) @ '' '' @ base @ ''>'') }"

text \<open>The data of a new message of the core module.\<close>

definition core_data :: "flexlib \<Rightarrow> real \<Rightarrow> string \<Rightarrow> (string \<times> flex) list \<Rightarrow> flex" where
  "core_data L now name payload = FMap ((''_meta'', fresh_meta L now (- 1) ''core'' name) # payload)"

lemma root_val_payload:
  assumes "has_data L (FMap ((''_meta'', fresh_meta L now (- 1) md nm) # payload))" and "k \<noteq> ''_meta''"
  shows "root_val L (write_map_root L now md nm payload) k = map_at payload k"
proof -
  have "message_data_size (write_map_root L now md nm payload) \<noteq> 0"
    using assms(1) unfolding write_map_root_def data_size_finish
    by (auto simp: has_data_def word_of_nat_eq_0_iff dvd_def)
  with assms(2) show ?thesis
    by (simp add: root_val_def root_map_def get_flex_root_def write_map_root_def)
qed

section \<open>Properties\<close>

text \<open>C37: A string message gives back its text; a double message gives back only the single-precision value of
  its double, like a float message. The messages have to encode to less than \<open>2 ^ 32\<close> bytes.\<close>

theorem core_messages_give_back_values:
  assumes "has_data L (core_data L now name [(''s'', FString s)])"
    and "has_data L (core_data L now name [(''v'', FFloat (single v))])"
    and "single (single v) = single v"
  shows "string_message_text L (string_message L now name s) = s \<and>
    float_message_value L single (float_message L single now name v) = single v \<and>
    double_message_value L single (double_message L single now name v) = single v"
  using assms root_val_payload [OF assms(1) [unfolded core_data_def]] root_val_payload [OF assms(2) [unfolded core_data_def]]
  by (simp add: string_message_text_def string_message_def float_message_value_def float_message_def
      double_message_value_def double_message_def)

theorem core_messages_give_back_values_witness:
  "double_message_value (sample_lib FNull) (\<lambda>x. of_int \<lfloor>x\<rfloor>)
     (double_message (sample_lib FNull) (\<lambda>x. of_int \<lfloor>x\<rfloor>) 0 ''d'' (7 / 2)) = 3"
proof -
  have "has_data (sample_lib FNull) v" for v
    by (simp add: has_data_def sample_lib_def)
  from core_messages_give_back_values [OF this this, of "\<lambda>x. of_int \<lfloor>x\<rfloor>" "7 / 2" 0 "''d''" "[]"] show ?thesis
    by simp
qed

end
