(* ===== verification/Runnable.thy ===== *)
theory Runnable
  imports Dispatch_Frame Core_Messages
begin

text \<open>
  \<open>RunnableNode\<close>: the thread of a node, started, asked to stop, and joined (\<open>node.cpp\<close>), and the
  remote procedure calls of \<open>Node\<close>, \<open>RunnableNode\<close> and \<open>FrequencyGenerator\<close>. Starting a thread
  only marks it as running: what it does is the node's \<open>child_thread_fn\<close>. The life of one
  node's thread beside the threads that control it is the step relation at the end.
\<close>

section \<open>Operations\<close>

definition update_runnable :: "(runnable \<Rightarrow> runnable) \<Rightarrow> nid \<Rightarrow> 'u world \<Rightarrow> 'u world" where
  "update_runnable f self = set_node self (\<lambda>nd. nd\<lparr>thread_part := map_option f (thread_part nd)\<rparr>)"

definition start_thread :: "runnable \<Rightarrow> runnable" where
  "start_thread r = (if my_thread r = None then r\<lparr>stop_signal := False, my_thread := Some Running\<rparr> else r)"

definition request_stop :: "runnable \<Rightarrow> runnable" where
  "request_stop r = r\<lparr>stop_signal := True\<rparr>"

text \<open>\<open>stop_and_join\<close> up to the join, and after it: the join waits until the thread has finished.\<close>

definition begin_stop :: "runnable \<Rightarrow> runnable" where
  "begin_stop r = (if my_thread r \<noteq> None then request_stop r else r)"

definition end_stop :: "runnable \<Rightarrow> runnable" where
  "end_stop r = (if my_thread r \<noteq> None then r\<lparr>my_thread := None\<rparr> else r)"

definition clear_stop_signal :: "runnable \<Rightarrow> runnable" where
  "clear_stop_signal r = r\<lparr>stop_signal := False\<rparr>"

definition node_start :: "nid \<Rightarrow> 'u world \<Rightarrow> 'u world" where
  "node_start = update_runnable start_thread"

definition node_request_stop :: "nid \<Rightarrow> 'u world \<Rightarrow> 'u world" where
  "node_request_stop = update_runnable request_stop"

text \<open>
  Stopping as one operation, for a thread that finishes once it has been asked to. \<open>run\<close> calls
  the thread function on the calling thread.
\<close>

definition node_stop_and_join :: "nid \<Rightarrow> 'u world \<Rightarrow> 'u world" where
  "node_stop_and_join = update_runnable (\<lambda>r. end_stop (begin_stop r))"

definition node_run :: "(nid \<Rightarrow> 'u act) \<Rightarrow> nid \<Rightarrow> 'u act" where
  "node_run child_thread_fn self w = child_thread_fn self (update_runnable clear_stop_signal self w)"

text \<open>
  A thread asks whether to stop. Another thread may have asked it to by then (\<open>stopper\<close>), which stays
  in effect.
\<close>

definition stop_requested :: "'u env \<Rightarrow> nid \<Rightarrow> 'u world \<Rightarrow> bool \<times> 'u world" where
  "stop_requested E self w =
     (let stop = (case thread_part (heap w self) of None \<Rightarrow> True | Some r \<Rightarrow> stop_signal r) \<or> stopper E (polls w);
          w = w\<lparr>polls := polls w + 1\<rparr>
      in (stop, if stop then node_request_stop self w else w))"

section \<open>The generator of triggers\<close>

definition new_frequency_generator :: "'u env \<Rightarrow> real \<Rightarrow> string \<Rightarrow> 'u world \<Rightarrow> (error, 'u world, nid) outcome" where
  "new_frequency_generator E hz name w =
     (let (self, w) = new_node E name new_thread_part (FrequencyGenerator hz 0) w in
      if hz = 0 then Throws AssertionFailed w else Returns self w)"

definition set_frequency :: "real \<Rightarrow> nid \<Rightarrow> 'u act" where
  "set_frequency hz self w =
     (let w = set_node self (\<lambda>nd. set_class (FrequencyGenerator hz (invocation_count (class_part nd))) nd) w in
      if hz = 0 then Throws AssertionFailed w else Returns () w)"

definition set_invocation_count :: "u32 \<Rightarrow> nid \<Rightarrow> 'u world \<Rightarrow> 'u world" where
  "set_invocation_count k self = set_node self (\<lambda>nd. set_class (FrequencyGenerator (frequency_hz (class_part nd)) k) nd)"

definition on_trigger :: "'u env \<Rightarrow> 'u deliver \<Rightarrow> nid \<Rightarrow> 'u act" where
  "on_trigger E rf self w =
     (let (now, w) = get_current_time E w
      in signal_new E rf self (blank_message (lib E) now ''FrequencyTrigger'') w)"

text \<open>
  \<open>sleep_until_next_interval\<close>: the time of the next multiple of the interval after the start, and
  the loop of \<open>child_thread_fn\<close>, with a bound on its rounds. The first argument of the loop is the
  start time and the previous frequency. A sleep is recorded in milliseconds.
\<close>

definition fmod :: "real \<Rightarrow> real \<Rightarrow> real" where
  "fmod x y = x - y * of_int (if x / y < 0 then \<lceil>x / y\<rceil> else \<lfloor>x / y\<rfloor>)"

definition next_interval :: "real \<Rightarrow> real \<Rightarrow> real \<Rightarrow> real" where
  "next_interval start_t interval t = t - fmod (t - start_t) interval + interval"

definition sleep_until_next_interval :: "'u env \<Rightarrow> real \<Rightarrow> real \<Rightarrow> 'u world \<Rightarrow> 'u world" where
  "sleep_until_next_interval E start_t interval w =
     (let (t, w) = get_current_time E w
      in w\<lparr>sleeps := sleeps w @ [(next_interval start_t interval t - t) * 1000]\<rparr>)"

primrec frequency_loop :: "nat \<Rightarrow> 'u env \<Rightarrow> 'u deliver \<Rightarrow> real \<times> real \<Rightarrow> nid \<Rightarrow> 'u act" where
  "frequency_loop 0 E rf st self w = NoReturn"
| "frequency_loop (Suc k) E rf st self w =
     (let (stop, w) = stop_requested E self w in
      if stop then Returns () w
      else
        let current = frequency_hz (class_part (heap w self));
            (st, w) = (if current \<noteq> snd st
                       then let (now, w) = get_current_time E w
                            in ((now, current), set_invocation_count 0 self w)
                       else (st, w));
            w = (if frequency_hz (class_part (heap w self)) > 0
                 then sleep_until_next_interval E (fst st) (1 / frequency_hz (class_part (heap w self))) w
                 else w);
            (now, w) = get_current_time E w
        in andthen (on_trigger E rf self w)
             (\<lambda>w. frequency_loop k E rf st self
                (set_invocation_count (invocation_count (class_part (heap w self)) + 1) self w)))"

definition frequency_thread_fn :: "nat \<Rightarrow> 'u env \<Rightarrow> 'u deliver \<Rightarrow> nid \<Rightarrow> 'u act" where
  "frequency_thread_fn k E rf self w =
     (let prev = frequency_hz (class_part (heap w self)); (start_t, w) = get_current_time E w
      in frequency_loop k E rf (start_t, prev) self w)"

section \<open>Remote procedure calls\<close>

text \<open>The reply, if there is one, is a new message. \<open>node_start\<close> and \<open>stop\<close> are those of the node's class.\<close>

definition node_handle_rpc :: "'u env \<Rightarrow> nid \<Rightarrow> message \<Rightarrow> 'u world \<Rightarrow> message option \<times> 'u world" where
  "node_handle_rpc E self rpc w =
     (let (now, w') = get_current_time E w in
      if module_name_of (lib E) rpc = ''core''
      then if message_name (lib E) rpc = ''ping'' then (Some (blank_message (lib E) now ''pong''), w')
           else if message_name (lib E) rpc = ''getname''
           then (Some (string_message (lib E) now ''gotname'' (node_name (heap w self))), w')
           else if message_name (lib E) rpc = ''getguid''
           then (Some (string_message (lib E) now ''gotguid'' (str (node_guid (heap w self)))), w')
           else (None, w)
      else (None, w))"

definition runnable_handle_rpc ::
  "('u world \<Rightarrow> 'u world) \<Rightarrow> ('u world \<Rightarrow> 'u world) \<Rightarrow> 'u env \<Rightarrow> nid \<Rightarrow> message \<Rightarrow> 'u world \<Rightarrow>
   message option \<times> 'u world" where
  "runnable_handle_rpc start stop E self rpc w =
     (if module_name_of (lib E) rpc = ''core''
      then if message_name (lib E) rpc = ''start''
           then (let (now, w) = get_current_time E (start w) in (Some (blank_message (lib E) now ''ok''), w))
           else if message_name (lib E) rpc = ''stop''
           then (let (now, w) = get_current_time E (stop w) in (Some (blank_message (lib E) now ''ok''), w))
           else node_handle_rpc E self rpc w
      else (None, w))"

definition frequency_handle_rpc ::
  "(real \<Rightarrow> real) \<Rightarrow> 'u env \<Rightarrow> nid \<Rightarrow> message \<Rightarrow> 'u world \<Rightarrow> (error, 'u world, message option) outcome" where
  "frequency_handle_rpc single E self rpc w =
     (let base = (let (r, w) = runnable_handle_rpc (node_start self) (node_stop_and_join self) E self rpc w
                  in Returns r w) in
      if module_name_of (lib E) rpc = ''core''
      then if message_name (lib E) rpc = ''get_frequency''
           then (let (now, w) = get_current_time E w
                 in Returns (Some (float_message (lib E) single now ''got_frequency'' (frequency_hz (class_part (heap w self))))) w)
           else if message_name (lib E) rpc = ''set_frequency''
           then bnd (set_frequency (float_message_value (lib E) single rpc) self w)
                  (\<lambda>_ w. let (now, w) = get_current_time E w in Returns (Some (blank_message (lib E) now ''ok'')) w)
           else base
      else base)"

section \<open>The life of a thread\<close>

text \<open>
  One runnable node, its own thread, and one controlling thread that starts and stops it. The controller is
  free, or waits in the join of \<open>stop_and_join\<close>. The node's thread may leave its function at any
  moment, for instance when its input has ended, and is the only one that can. Any thread may ask the
  node to stop. If \<open>run_called\<close>, then some thread may also call \<open>run\<close> on the node, at any moment:
  before it enters the thread function itself, it clears the stop signal.
\<close>

datatype controller = Free | Joining

type_synonym life = "runnable \<times> controller"

inductive life_step :: "bool \<Rightarrow> life \<Rightarrow> life \<Rightarrow> bool" for run_called where
  start: "life_step run_called (r, Free) (start_thread r, Free)"
| request: "life_step run_called (r, c) (request_stop r, c)"
| run: "run_called \<Longrightarrow> life_step run_called (r, c) (clear_stop_signal r, c)"
| stop_none: "my_thread r = None \<Longrightarrow> life_step run_called (r, Free) (r, Free)"
| stop: "my_thread r \<noteq> None \<Longrightarrow> life_step run_called (r, Free) (begin_stop r, Joining)"
| exit: "my_thread r = Some Running \<Longrightarrow> life_step run_called (r, c) (r\<lparr>my_thread := Some Finished\<rparr>, c)"
| joined: "my_thread r = Some Finished \<Longrightarrow> life_step run_called (r, Joining) (end_stop r, Free)"

inductive_cases life_stepE: "life_step run_called s t"

definition new_life :: life where
  "new_life = (\<lparr>my_thread = None, stop_signal = True\<rparr>, Free)"

definition life_inv :: "bool \<Rightarrow> life \<Rightarrow> bool" where
  "life_inv run_called s \<longleftrightarrow>
     (snd s = Joining \<longrightarrow> my_thread (fst s) \<noteq> None) \<and>
     (\<not> run_called \<longrightarrow> snd s = Joining \<or> my_thread (fst s) = None \<longrightarrow> stop_signal (fst s))"

lemmas thread_defs = start_thread_def request_stop_def begin_stop_def end_stop_def clear_stop_signal_def

lemma life_inv_step: "life_step b s t \<Longrightarrow> life_inv b s \<Longrightarrow> life_inv b t"
  by (induction rule: life_step.induct) (auto simp: life_inv_def thread_defs)

lemma life_inv_reachable: "(life_step b)\<^sup>*\<^sup>* new_life s \<Longrightarrow> life_inv b s"
  by (induction rule: rtranclp_induct) (auto simp: life_inv_step, simp add: life_inv_def new_life_def)

text \<open>A run that loses the request to stop: the controller asks, waits, and another thread calls \<open>run\<close>.\<close>

abbreviation running :: "bool \<Rightarrow> runnable" where
  "running stop \<equiv> \<lparr>my_thread = Some Running, stop_signal = stop\<rparr>"

lemma life_started: "(life_step b)\<^sup>*\<^sup>* new_life (running False, Free)"
  using life_step.start [of b "fst new_life"] by (simp add: new_life_def thread_defs r_into_rtranclp)

lemma life_stopping: "(life_step b)\<^sup>*\<^sup>* new_life (running True, Joining)"
  by (rule rtranclp.rtrancl_into_rtrancl [OF life_started])
    (use life_step.stop [of "running False" b] in \<open>simp add: thread_defs\<close>)

lemma life_request_lost: "(life_step True)\<^sup>*\<^sup>* new_life (running False, Joining)"
  by (rule rtranclp.rtrancl_into_rtrancl [OF life_stopping])
    (use life_step.run [of True "running True" Joining] in \<open>simp add: thread_defs\<close>)

section \<open>Properties\<close>

text \<open>C18: With one controlling thread: whenever it waits for a node's thread, the thread exists; and unless
  some thread calls \<open>run\<close> on the node, the thread has then been asked to stop, and a node without a
  thread always has its stop signal set. So a thread that heeds the signal is always joined, and a loop that
  is entered without a thread ends at once. A call of \<open>run\<close> breaks this: it clears the signal even while
  the controller waits for a running thread, which then has nothing that tells it to stop.\<close>

theorem joined_thread_was_asked_to_stop:
  assumes "(life_step run_called)\<^sup>*\<^sup>* new_life (r, c)"
  shows "(c = Joining \<longrightarrow> my_thread r \<noteq> None) \<and>
    (\<not> run_called \<longrightarrow> (c = Joining \<longrightarrow> stop_signal r) \<and> (my_thread r = None \<longrightarrow> stop_signal r)) \<and>
    (run_called \<longrightarrow> (\<exists>r'. (life_step run_called)\<^sup>*\<^sup>* new_life (r', Joining) \<and>
       my_thread r' = Some Running \<and> \<not> stop_signal r'))"
  using life_inv_reachable [OF assms] life_request_lost by (cases run_called) (force simp: life_inv_def)+

theorem joined_thread_was_asked_to_stop_witness:
  "(life_step False)\<^sup>*\<^sup>* new_life (running True, Joining) \<and> stop_signal (running True) \<and>
   (\<exists>r. (life_step True)\<^sup>*\<^sup>* new_life (r, Joining) \<and> \<not> stop_signal r)"
  using life_stopping [of False] joined_thread_was_asked_to_stop [OF life_stopping [of False]]
    joined_thread_was_asked_to_stop [OF life_stopping [of True]] by auto

text \<open>A node whose thread has ended by itself is not started again by \<open>start\<close>, which changes nothing while
  the old thread has not been joined: a controller has to stop the node first.\<close>

theorem finished_node_does_not_restart:
  assumes "thread_part (heap w n) = Some \<lparr>my_thread = Some Finished, stop_signal = b\<rparr>"
  shows "node_start n w = w \<and>
    thread_part (heap (node_start n (node_stop_and_join n w)) n) = Some \<lparr>my_thread = Some Running, stop_signal = False\<rparr>"
proof -
  have "(heap w n)\<lparr>thread_part := Some \<lparr>my_thread = Some Finished, stop_signal = b\<rparr>\<rparr> = heap w n"
    using assms by simp
  then have "(heap w)(n := (heap w n)\<lparr>thread_part := Some \<lparr>my_thread = Some Finished, stop_signal = b\<rparr>\<rparr>) = heap w"
    by (rule fun_upd_idem [OF sym])
  then have "node_start n w = w"
    using assms by (simp add: node_start_def update_runnable_def set_node_def thread_defs del: fun_upd_apply)
  then show ?thesis
    using assms by (simp add: node_start_def node_stop_and_join_def update_runnable_def thread_defs)
qed

theorem finished_node_does_not_restart_witness:
  "\<exists>w :: unit world. thread_part (heap w 0) = Some \<lparr>my_thread = Some Finished, stop_signal = False\<rparr> \<and> node_start 0 w = w"
proof -
  let ?w = "set_node 0 (\<lambda>nd. nd\<lparr>thread_part := Some \<lparr>my_thread = Some Finished, stop_signal = False\<rparr>\<rparr>)
    (example_world diamond (\<lambda>_. PlainRunnable))"
  have "thread_part (heap ?w 0) = Some \<lparr>my_thread = Some Finished, stop_signal = False\<rparr>"
    by simp
  with finished_node_does_not_restart [OF this] show ?thesis
    by blast
qed

lemma message_name_new:
  assumes "mutation_laws L" and "has_data L (FMap ((''_meta'', fresh_meta L now (- 1) md name) # payload))"
  shows "message_name L (write_map_root L now md name payload) = name"
  using has_meta_simps(6) [OF has_meta_new [OF assms]] by simp

text \<open>C36: Each request of the core module that the base class knows is answered, with the name or the identifier of the
  node where it asks for one, and leaves the nodes as they are. A runnable node starts or stops, and says so.
  It answers nothing of another module, and does not pass the request on. The replies have to encode
  to less than \<open>2 ^ 32\<close> bytes, which the length of the node's name decides.\<close>

theorem rpc_replies:
  assumes "mutation_laws (lib E)"
    and "has_data (lib E) (core_data (lib E) (clock E (ticks w)) ''pong'' [])"
    and "has_data (lib E) (core_data (lib E) (clock E (ticks w)) ''gotname'' [(''s'', FString (node_name (heap w self)))])"
    and "has_data (lib E) (core_data (lib E) (clock E (ticks w)) ''gotguid'' [(''s'', FString (str (node_guid (heap w self))))])"
    and "\<And>t. has_data (lib E) (core_data (lib E) (clock E t) ''ok'' [])"
  shows "heap (snd (node_handle_rpc E self rpc w)) = heap w \<and>
    (module_name_of (lib E) rpc = ''core'' \<longrightarrow>
      (message_name (lib E) rpc = ''ping'' \<longrightarrow>
        (\<exists>reply. fst (node_handle_rpc E self rpc w) = Some reply \<and> message_name (lib E) reply = ''pong'')) \<and>
      (message_name (lib E) rpc = ''getname'' \<longrightarrow>
        (\<exists>reply. fst (node_handle_rpc E self rpc w) = Some reply \<and> message_name (lib E) reply = ''gotname'' \<and>
           string_message_text (lib E) reply = node_name (heap w self))) \<and>
      (message_name (lib E) rpc = ''getguid'' \<longrightarrow>
        (\<exists>reply. fst (node_handle_rpc E self rpc w) = Some reply \<and> message_name (lib E) reply = ''gotguid'' \<and>
           rebuild_str (string_message_text (lib E) reply) = node_guid (heap w self))) \<and>
      (\<forall>(command, effect) \<in> {(''start'', start), (''stop'', stop)}. message_name (lib E) rpc = command \<longrightarrow>
        (\<exists>reply v. runnable_handle_rpc start stop E self rpc w = (Some reply, v) \<and>
           message_name (lib E) reply = ''ok'' \<and> heap v = heap (effect w)))) \<and>
    (module_name_of (lib E) rpc \<noteq> ''core'' \<longrightarrow> runnable_handle_rpc start stop E self rpc w = (None, w))"
  using message_name_new [OF assms(1) assms(2) [unfolded core_data_def]]
    root_val_payload [OF assms(3) [unfolded core_data_def]] message_name_new [OF assms(1) assms(3) [unfolded core_data_def]]
    root_val_payload [OF assms(4) [unfolded core_data_def]] message_name_new [OF assms(1) assms(4) [unfolded core_data_def]]
    message_name_new [OF assms(1) assms(5) [unfolded core_data_def]]
  by (simp add: node_handle_rpc_def runnable_handle_rpc_def get_current_time_def string_message_text_def
      string_message_def blank_message_def rebuild_str_str)

theorem rpc_replies_witness:
  "\<exists>reply. fst (node_handle_rpc example_env 2 (blank_message (sample_lib FNull) 0 ''getguid'')
      (example_world diamond (\<lambda>_. PlainNode))) = Some reply \<and>
    rebuild_str (string_message_text (sample_lib FNull) reply) = Uuid 1 2"
proof -
  have data: "has_data (lib example_env) v" for v
    by (simp add: sample_has_data)
  have laws: "mutation_laws (lib example_env)"
    by (simp add: sample_lib_laws)
  note replies = rpc_replies [OF laws data data data data, of 2 "blank_message (sample_lib FNull) 0 ''getguid''" "example_world diamond (\<lambda>_. PlainNode)"]
  have "has_meta (blank_message (sample_lib FNull) 0 ''getguid'') 0 (- 1) nil_uuid (replicate 32 CHR 0x00) ''core'' ''getguid''"
    unfolding blank_message_def by (rule has_meta_new [OF sample_lib_laws sample_has_data])
  with has_meta_simps [OF this] replies show ?thesis
    by auto
qed

end
