(* ===== verification/Graph_Root.thy ===== *)
theory Graph_Root
  imports Graph_Walk Runnable
begin

text \<open>
  The root of a graph (\<open>graph_root.h\<close>, \<open>graph_root.cpp\<close>): it starts and stops the runnable nodes
  below it, and puts a metrics node into every connection below it and takes them out again. The calls are
  virtual, so a root below a root starts and stops its own graph: their first argument bounds how deep
  roots are nested, the second the depth of the walks. \<open>thread_fn\<close> is the virtual
  \<open>child_thread_fn\<close>. Output for debugging is appended to the console.
\<close>

section \<open>Starting and stopping\<close>

abbreviation root_of :: "'u world \<Rightarrow> nid \<Rightarrow> graph_root_state" where
  "root_of w self \<equiv> root_part (class_part (heap w self))"

definition update_root :: "(graph_root_state \<Rightarrow> graph_root_state) \<Rightarrow> nid \<Rightarrow> 'u world \<Rightarrow> 'u world" where
  "update_root f self = set_node self (\<lambda>nd. set_class (GraphRoot (f (root_part (class_part nd)))) nd)"

definition new_graph_root :: "'u env \<Rightarrow> nid option \<Rightarrow> real \<Rightarrow> string \<Rightarrow> bool \<Rightarrow> 'u world \<Rightarrow> nid \<times> 'u world" where
  "new_graph_root E publisher hz name dbg =
     new_node E name new_thread_part (GraphRoot
       \<lparr>metrics_instrumented = False, metrics_publishing_frequency_hz = hz, metrics_trigger = None,
        metrics_aggregator = None, metrics_publisher = publisher, debug = dbg, node_to_run = None\<rparr>)"

definition new_printing_graph_root :: "'u env \<Rightarrow> real \<Rightarrow> string \<Rightarrow> bool \<Rightarrow> 'u world \<Rightarrow> nid \<times> 'u world" where
  "new_printing_graph_root E hz name dbg w =
     (if hz > 0
      then let (printer, w) = new_node E ''MetricsPrinter'' None MetricsPrinter w
           in new_graph_root E (Some printer) hz name dbg w
      else new_graph_root E None hz name dbg w)"

definition is_runnable :: "'u world \<Rightarrow> nid \<Rightarrow> bool" where
  "is_runnable w n \<longleftrightarrow> thread_part (heap w n) \<noteq> None"

definition log_line :: "bool \<Rightarrow> string \<Rightarrow> 'u world \<Rightarrow> 'u world" where
  "log_line on msg w = (if on then w\<lparr>console := console w @ [msg]\<rparr> else w)"

text \<open>A walk whose callback accumulates nothing.\<close>

definition walk_world :: "nat \<Rightarrow> (nid \<Rightarrow> 'u act) \<Rightarrow> bool \<Rightarrow> nid \<Rightarrow> 'u act" where
  "walk_world k f forwards self w =
     without_visited (walk_nodes k (\<lambda>node level. on_world (f node)) forwards self (w, ()))"

text \<open>A virtual call on a runnable node: \<open>root_call\<close> where the node is a root, \<open>node_call\<close> otherwise.\<close>

definition virtual_call :: "(nid \<Rightarrow> 'u act) \<Rightarrow> (nid \<Rightarrow> 'u world \<Rightarrow> 'u world) \<Rightarrow> nid \<Rightarrow> 'u act" where
  "virtual_call root_call node_call node w =
     (case class_part (heap w node) of
        GraphRoot r \<Rightarrow> root_call node w
      | _ \<Rightarrow> Returns () (node_call node w))"

text \<open>What the walks do at a node: call it if it is runnable and not the node that runs on the main thread.\<close>

definition visit_runnable ::
  "string \<Rightarrow> (nid \<Rightarrow> 'u act) \<Rightarrow> (nid \<Rightarrow> 'u world \<Rightarrow> 'u world) \<Rightarrow> bool \<Rightarrow> nid option \<Rightarrow> nid \<Rightarrow> 'u act" where
  "visit_runnable doing root_call node_call dbg run node w =
     (if is_runnable w node \<and> Some node \<noteq> run
      then virtual_call root_call node_call node
             (log_line dbg (''GraphRoot '' @ doing @ '' '' @ node_name (heap w node)) w)
      else Returns () w)"

primrec start_all :: "nat \<Rightarrow> nat \<Rightarrow> (nid \<Rightarrow> 'u act) \<Rightarrow> nid option \<Rightarrow> nid \<Rightarrow> 'u act" where
  "start_all 0 k thread_fn run self w = NoReturn"
| "start_all (Suc d) k thread_fn run self w =
     (let dbg = debug (root_of w self);
          w = update_root (\<lambda>r. r\<lparr>node_to_run := run\<rparr>) self w
      in andthen
           (walk_world k (visit_runnable ''starting'' (start_all d k thread_fn None) node_start dbg run) False self w)
           (\<lambda>w. case run of
                  None \<Rightarrow> Returns () w
                | Some n \<Rightarrow>
                    node_run thread_fn n (log_line dbg (''GraphRoot running '' @ node_name (heap w n)) w)))"

definition graph_start :: "nat \<Rightarrow> nat \<Rightarrow> (nid \<Rightarrow> 'u act) \<Rightarrow> nid \<Rightarrow> 'u act" where
  "graph_start d k thread_fn self = start_all d k thread_fn None self"

section \<open>Metrics nodes in connections\<close>

text \<open>The trigger and the aggregator may be null pointers; connecting to one is undefined.\<close>

definition metrics_node_name :: "string \<Rightarrow> string \<Rightarrow> string" where
  "metrics_node_name n1 n2 =
     (if length (n1 @ '' -> '' @ n2) > 32 then take 14 n1 @ '' -> '' @ take 14 n2 else n1 @ '' -> '' @ n2)"

definition insert_metrics_between :: "'u env \<Rightarrow> nid \<Rightarrow> nid \<Rightarrow> nid \<Rightarrow> 'u act" where
  "insert_metrics_between E self n1 n2 w =
     (let (metrics_node, w) =
            new_metrics_node E (metrics_node_name (node_name (heap w n1)) (node_name (heap w n2))) 0 w;
          pub = publisher_node (metrics_part (class_part (heap w metrics_node)));
          w = disconnect n1 n2 w
      in andthen (connect n1 metrics_node w) (\<lambda>w.
         andthen (connect metrics_node n2 w) (\<lambda>w.
         andthen (case metrics_trigger (root_of w self) of
                    None \<Rightarrow> Returns () w
                  | Some trigger \<Rightarrow> connect trigger pub w) (\<lambda>w.
         case metrics_aggregator (root_of w self) of
           None \<Rightarrow> Throws OutOfBounds w
         | Some aggregator \<Rightarrow> connect pub aggregator w))))"

definition set_trigger :: "nid option \<Rightarrow> nid \<Rightarrow> 'u world \<Rightarrow> 'u world" where
  "set_trigger t = update_root (\<lambda>r. r\<lparr>metrics_trigger := t\<rparr>)"

definition set_aggregator :: "nid option \<Rightarrow> nid \<Rightarrow> 'u world \<Rightarrow> 'u world" where
  "set_aggregator a = update_root (\<lambda>r. r\<lparr>metrics_aggregator := a\<rparr>)"

definition set_instrumented :: "bool \<Rightarrow> nid \<Rightarrow> 'u world \<Rightarrow> 'u world" where
  "set_instrumented b = update_root (\<lambda>r. r\<lparr>metrics_instrumented := b\<rparr>)"

definition make_trigger :: "'u env \<Rightarrow> nid \<Rightarrow> 'u act" where
  "make_trigger E self w =
     (if metrics_publishing_frequency_hz (root_of w self) > 0
      then bnd (new_frequency_generator E (metrics_publishing_frequency_hz (root_of w self))
                  ''MetricsPublishingTrigger'' w)
             (\<lambda>t w. Returns () (set_trigger (Some t) self w))
      else Returns () w)"

definition make_aggregator :: "'u env \<Rightarrow> nid \<Rightarrow> 'u act" where
  "make_aggregator E self w =
     (let (a, w) = new_node E ''MetricsAggregator'' None PlainNode w;
          w = set_aggregator (Some a) self w
      in case metrics_publisher (root_of w self) of
           None \<Rightarrow> Returns () w
         | Some p \<Rightarrow> connect a p w)"

definition insert_everywhere :: "nat \<Rightarrow> 'u env \<Rightarrow> nid \<Rightarrow> 'u act" where
  "insert_everywhere k E self w =
     without_visited (walk_connections k (\<lambda>n1 n2 level. on_world (insert_metrics_between E self n1 n2)) False self (w, ()))"

definition instrument_metrics :: "nat \<Rightarrow> 'u env \<Rightarrow> nid \<Rightarrow> 'u act" where
  "instrument_metrics k E self w =
     (if metrics_instrumented (root_of w self) then Returns () w
      else andthen (make_trigger E self w) (\<lambda>w.
           andthen (make_aggregator E self w) (\<lambda>w.
           andthen (insert_everywhere k E self w) (\<lambda>w.
           Returns () (set_instrumented True self w)))))"

text \<open>
  The trigger is connected to the publisher of a metrics node, but it is the metrics node that is
  disconnected from it.
\<close>

definition test_and_remove_metrics_node :: "nid \<Rightarrow> nid \<Rightarrow> 'u world \<Rightarrow> bool \<times> 'u world" where
  "test_and_remove_metrics_node self n w =
     (case class_part (heap w n) of
        MetricsNode ms \<Rightarrow>
          (let w = (case metrics_trigger (root_of w self) of None \<Rightarrow> w | Some trigger \<Rightarrow> disconnect trigger n w);
               w = (case metrics_aggregator (root_of w self) of None \<Rightarrow> w | Some a \<Rightarrow> disconnect (publisher_node ms) a w)
           in (False, w))
      | _ \<Rightarrow> (True, w))"

definition remove_everywhere :: "nat \<Rightarrow> nid \<Rightarrow> 'u act" where
  "remove_everywhere k self w =
     without_visited (filter_nodes k
       (\<lambda>n level. on_world (\<lambda>w. case test_and_remove_metrics_node self n w of (keep, w) \<Rightarrow> Returns keep w)) self (w, ()))"

definition deinstrument_metrics :: "nat \<Rightarrow> nid \<Rightarrow> 'u act" where
  "deinstrument_metrics k self w =
     (if \<not> metrics_instrumented (root_of w self) then Returns () w
      else andthen (remove_everywhere k self w) (\<lambda>w.
        Returns () (set_instrumented False self (set_trigger None self (set_aggregator None self w)))))"

primrec graph_stop :: "nat \<Rightarrow> nat \<Rightarrow> nid \<Rightarrow> 'u act" where
  "graph_stop 0 k self w = NoReturn"
| "graph_stop (Suc d) k self w =
     (let dbg = debug (root_of w self); run = node_to_run (root_of w self)
      in andthen
           (walk_world k (visit_runnable ''stopping'' (graph_stop d k) node_stop_and_join dbg run) True self w)
           (\<lambda>w. if metrics_instrumented (root_of w self)
                 then deinstrument_metrics k self
                        (case metrics_trigger (root_of w self) of
                           None \<Rightarrow> w
                         | Some trigger \<Rightarrow> node_stop_and_join trigger w)
                 else Returns () w))"

definition graph_profile :: "nat \<Rightarrow> nat \<Rightarrow> 'u env \<Rightarrow> (nid \<Rightarrow> 'u act) \<Rightarrow> nid option \<Rightarrow> nid \<Rightarrow> 'u act" where
  "graph_profile d k E thread_fn run self w =
     andthen (instrument_metrics k E self w) (\<lambda>w.
       let w = (case metrics_trigger (root_of w self) of None \<Rightarrow> w | Some trigger \<Rightarrow> node_start trigger w)
       in andthen (start_all d k thread_fn run self w) (\<lambda>w.
            if run \<noteq> None then graph_stop d k self w else Returns () w))"

end
