(* ===== verification/Instrumentation.thy ===== *)
theory Instrumentation
  imports Graph_Root
begin

text \<open>
  What instrumenting a graph does to its connections, and that removing the metrics nodes brings the
  connections back as they were. The walk that inserts the metrics nodes changes the lists
  it walks over; so does the filter that removes them.
\<close>

section \<open>One insertion\<close>

lemma new_metrics_node_facts:
  assumes "new_metrics_node E name hz w = (n, v)"
  shows "n = next_node w" and "next_node v = next_node w + 2"
    and "\<And>a. a < next_node w \<Longrightarrow> heap v a = heap w a"
    and "get_observers v = (get_observers w)(n := [], Suc n := [])"
    and "\<exists>ms p. class_part (heap v n) = MetricsNode ms \<and> publisher_node ms = Suc n \<and>
      class_part (heap v (Suc n)) = MetricsPublisherNode p \<and> parent_node_name p = [] \<and> child_node_name p = []"
  using assms
  by (auto simp: new_metrics_node_def new_metrics_publisher_node_def new_node_def get_current_time_def Let_def
      get_observers_def fun_eq_iff reset_publisher_def split: prod.splits)

lemma connect_to_metrics_node:
  assumes "class_part (heap w m) = MetricsNode ms" and "\<not> is_metrics_node w a"
    and "class_part (heap w (publisher_node ms)) = MetricsPublisherNode p" and "parent_node_name p = []"
  shows "connect a m w = Returns () (set_node (publisher_node ms) (set_class (MetricsPublisherNode
    (p\<lparr>parent_node_name := node_name (heap w a), parent_node_guid := node_guid (heap w a)\<rparr>))) (push_observer a m w))"
proof -
  let ?v = "set_node (publisher_node ms) (set_class (MetricsPublisherNode
    (p\<lparr>parent_node_name := node_name (heap w a), parent_node_guid := node_guid (heap w a)\<rparr>))) (push_observer a m w)"
  have "on_connect m a False (push_observer a m w) = Returns () ?v"
    using assms(1,3,4) by (simp add: on_connect_def parent_node_set_def)
  moreover have "on_connect a m True ?v = Returns () ?v"
    using assms(2) by (intro on_connect_plain) (simp add: is_metrics_node_def)
  ultimately show ?thesis
    by (simp add: connect_def)
qed

lemma connect_from_metrics_node:
  assumes "class_part (heap w m) = MetricsNode ms" and "\<not> is_metrics_node w a"
    and "class_part (heap w (publisher_node ms)) = MetricsPublisherNode p" and "child_node_name p = []"
  shows "connect m a w = Returns () (set_node (publisher_node ms) (set_class (MetricsPublisherNode
    (p\<lparr>child_node_name := node_name (heap w a), child_node_guid := node_guid (heap w a)\<rparr>))) (push_observer m a w))"
proof -
  have "on_connect a m False (push_observer m a w) = Returns () (push_observer m a w)"
    using assms(2) by (intro on_connect_plain) (simp add: is_metrics_node_def)
  then show ?thesis
    using assms(1,3,4) by (simp add: connect_def) (simp add: on_connect_def child_node_set_def)
qed

lemma observers_set_class [simp]: "get_observers (set_node n (set_class c) w) = get_observers w"
  by (simp add: get_observers_def fun_eq_iff)

lemma observers_push_disconnect [simp]:
  "get_observers (push_observer a b w) = (get_observers w)(a := get_observers w a @ [b])"
  "get_observers (disconnect a b w) = (get_observers w)(a := removeAll b (get_observers w a))"
  by (simp_all add: observer_lists.obs_link observer_lists.obs_unlink)

lemma next_node_push [simp]: "next_node (push_observer a b w) = next_node w" "next_node (disconnect a b w) = next_node w"
  by (simp_all add: push_observer_def disconnect_def)

text \<open>The root at \<open>self\<close> has an aggregator and perhaps a trigger, which are plain nodes.\<close>

definition metered :: "'u world \<Rightarrow> nid \<Rightarrow> nid option \<Rightarrow> nid \<Rightarrow> bool" where
  "metered w self t ag \<longleftrightarrow>
     (\<exists>r. class_part (heap w self) = GraphRoot r \<and> metrics_trigger r = t \<and> metrics_aggregator r = Some ag) \<and>
     \<not> is_metrics_node w ag \<and> (\<forall>tr. t = Some tr \<longrightarrow> \<not> is_metrics_node w tr)"

lemma insert_metrics_between_eq:
  assumes "metered w self t ag" and "\<not> is_metrics_node w n1" and "\<not> is_metrics_node w n2"
    and "n1 < next_node w" and "n2 < next_node w" and "self < next_node w" and "ag < next_node w"
    and "\<forall>tr. t = Some tr \<longrightarrow> tr < next_node w \<and> tr \<noteq> n1"
  shows "\<exists>v. insert_metrics_between E self n1 n2 w = Returns () v \<and> next_node v = next_node w + 2 \<and>
    (\<forall>a < next_node w. class_part (heap v a) = class_part (heap w a)) \<and>
    (\<exists>ms p. class_part (heap v (next_node w)) = MetricsNode ms \<and> publisher_node ms = Suc (next_node w) \<and>
       class_part (heap v (Suc (next_node w))) = MetricsPublisherNode p) \<and>
    get_observers v (next_node w) = [n2] \<and>
    get_observers v n1 = removeAll n2 (get_observers w n1) @ [next_node w] \<and>
    (\<forall>a < next_node w. a = n1 \<or> t = Some a \<or> get_observers v a = get_observers w a)"
proof -
  let ?m = "next_node w"
  obtain w1 where w1: "new_metrics_node E (metrics_node_name (node_name (heap w n1)) (node_name (heap w n2))) 0 w = (?m, w1)"
    using new_metrics_node_facts(1) by (metis surj_pair)
  note new = new_metrics_node_facts [OF w1]
  obtain ms p where class1: "class_part (heap w1 ?m) = MetricsNode ms" "publisher_node ms = Suc ?m"
      "class_part (heap w1 (Suc ?m)) = MetricsPublisherNode p" "parent_node_name p = []" "child_node_name p = []"
    using new(5) by auto
  obtain r where r: "class_part (heap w self) = GraphRoot r" "metrics_trigger r = t" "metrics_aggregator r = Some ag"
    using assms(1) by (auto simp: metered_def)
  have plain: "\<not> is_metrics_node w1 a" if "\<not> is_metrics_node w a" "a < ?m" for a
    using that new(3) by (simp add: is_metrics_node_def)
  let ?w2 = "disconnect n1 n2 w1"
  obtain p2 w3 where w3: "w3 = set_node (Suc ?m) (set_class (MetricsPublisherNode p2)) (push_observer n1 ?m ?w2)"
      "connect n1 ?m ?w2 = Returns () w3" "child_node_name p2 = []"
    using connect_to_metrics_node [of ?w2 ?m ms n1 p] class1 plain [OF assms(2,4)] by (simp add: is_metrics_node_def)
  have class3: "class_part (heap w3 a) = (if a = Suc ?m then MetricsPublisherNode p2 else class_part (heap w1 a))" for a
    by (simp add: w3(1))
  have "\<not> is_metrics_node w3 n2"
    using plain [OF assms(3,5)] assms(5) by (simp add: is_metrics_node_def class3)
  then obtain p4 w4 where w4: "w4 = set_node (Suc ?m) (set_class (MetricsPublisherNode p4)) (push_observer ?m n2 w3)"
      "connect ?m n2 w3 = Returns () w4"
    using connect_from_metrics_node [of w3 ?m ms n2 p2] class1 class3 w3(3) by simp
  have class4: "class_part (heap w4 a) = (if a = Suc ?m then MetricsPublisherNode p4 else class_part (heap w1 a))" for a
    by (simp add: w4(1) class3)
  define w5 where "w5 = (case t of None \<Rightarrow> w4 | Some tr \<Rightarrow> push_observer tr (Suc ?m) w4)"
  have plain4: "\<not> is_metrics_node w4 a" if "\<not> is_metrics_node w a" "a < ?m" for a
    using plain [OF that] that(2) by (simp add: is_metrics_node_def class4)
  then have w5: "(case t of None \<Rightarrow> Returns () w4 | Some tr \<Rightarrow> connect tr (Suc ?m) w4) = Returns () w5"
    using assms(1,8) by (cases t) (simp_all add: w5_def metered_def connect_plain is_metrics_node_def class4)
  have class5: "class_part (heap w5 a) = class_part (heap w4 a)" for a
    by (simp add: w5_def split: option.split)
  then have w6: "connect (Suc ?m) ag w5 = Returns () (push_observer (Suc ?m) ag w5)"
    using plain4 [OF _ assms(7)] assms(1) by (intro connect_plain) (simp_all add: is_metrics_node_def metered_def class4)
  have root: "class_part (heap w4 self) = GraphRoot r" "class_part (heap w5 self) = GraphRoot r"
    using r(1) new(3) assms(6) by (simp_all add: class4 class5)
  have run: "insert_metrics_between E self n1 n2 w = Returns () (push_observer (Suc ?m) ag w5)"
    unfolding insert_metrics_between_def Let_def w1 case_prod_conv class1(1) node_class.sel class1(2) w3(2) andthen_simps
      w4(2) root(1) graph_root_state.simps
    using w5 w6 r(2,3) root(2) by simp
  have obs: "get_observers w5 = (case t of None \<Rightarrow> get_observers w4
      | Some tr \<Rightarrow> (get_observers w4)(tr := get_observers w4 tr @ [Suc ?m]))"
    "get_observers w4 = (get_observers w1)(n1 := removeAll n2 (get_observers w1 n1) @ [?m], ?m := get_observers w1 ?m @ [n2])"
    using assms(4) by (auto simp: w5_def w4(1) w3(1) split: option.split)
  show ?thesis
    unfolding run using new(2,3,4) class1 assms(4,8)
    by (auto simp: obs class4 class5 is_metrics_node_def w5_def w4(1) w3(1) split: option.splits)
qed

section \<open>Inserting on the way\<close>

text \<open>
  \<open>R\<close> are the nodes below the root and \<open>lo\<close> the first address behind all of them, the trigger and the
  aggregator. \<open>tapped\<close>: the nodes that nodes of \<open>R\<close> have got as observers since are metrics
  nodes, each of them in one place only.
\<close>

definition meter :: "nid \<Rightarrow> 'u world \<Rightarrow> nid \<Rightarrow> bool" where
  "meter lo w m \<longleftrightarrow>
     (\<exists>ms p. class_part (heap w m) = MetricsNode ms \<and> lo \<le> publisher_node ms \<and> publisher_node ms < next_node w \<and>
        class_part (heap w (publisher_node ms)) = MetricsPublisherNode p)"

definition tapped :: "nid \<Rightarrow> nid set \<Rightarrow> 'u world \<Rightarrow> bool" where
  "tapped lo R w \<longleftrightarrow>
     (\<forall>a \<in> R. \<forall>m \<in> set (get_observers w a). lo \<le> m \<longrightarrow> m < next_node w \<and> meter lo w m) \<and>
     (\<forall>a \<in> R. distinct (filter (\<lambda>m. lo \<le> m) (get_observers w a))) \<and>
     (\<forall>a \<in> R. \<forall>b \<in> R. a = b \<or> (\<forall>m \<in> set (get_observers w a) \<inter> set (get_observers w b). m < lo))"

definition instrumentable :: "nid \<Rightarrow> nid set \<Rightarrow> nid \<Rightarrow> nid option \<Rightarrow> nid \<Rightarrow> 'u world \<Rightarrow> bool" where
  "instrumentable lo R self t ag w \<longleftrightarrow>
     lo \<le> next_node w \<and> metered w self t ag \<and> self < lo \<and> ag < lo \<and>
     (\<forall>tr. t = Some tr \<longrightarrow> tr < lo \<and> tr \<notin> R) \<and> (\<forall>a \<in> R. a < lo \<and> \<not> is_metrics_node w a) \<and> tapped lo R w"

text \<open>What insertions between \<open>w\<close> and \<open>v\<close> leave alone, outside the nodes of \<open>X\<close>.\<close>

definition kept :: "nid option \<Rightarrow> nid set \<Rightarrow> 'u world \<Rightarrow> 'u world \<Rightarrow> bool" where
  "kept t X w v \<longleftrightarrow>
     next_node w \<le> next_node v \<and> (\<forall>a < next_node w. class_part (heap v a) = class_part (heap w a)) \<and>
     (\<forall>m < next_node w. m \<in> X \<or> t = Some m \<or> get_observers v m = get_observers w m)"

lemma kept_refl: "kept t X w w"
  by (simp add: kept_def)

lemma kept_trans:
  assumes "kept t X u v" and "kept t Y v w" and "X \<union> Y \<subseteq> Z"
  shows "kept t Z u w"
proof -
  have "next_node u \<le> next_node v"
    using assms(1) by (simp add: kept_def)
  then have later: "a < next_node v" if "a < next_node u" for a
    using that by simp
  have "m \<in> Z \<or> t = Some m \<or> get_observers w m = get_observers u m" if "m < next_node u" for m
    using assms that later [OF that] unfolding kept_def by (metis Un_iff subsetD)
  then show ?thesis
    using assms(1,2) later by (simp add: kept_def)
qed

lemma kept_observers: "kept t X w v \<Longrightarrow> a < next_node w \<Longrightarrow> a \<notin> X \<Longrightarrow> t \<noteq> Some a \<Longrightarrow> get_observers v a = get_observers w a"
  by (auto simp: kept_def)

text \<open>Every connection of \<open>a\<close> goes through a metrics node of its own.\<close>

definition metered_node :: "nid \<Rightarrow> (nid \<Rightarrow> nid list) \<Rightarrow> 'u world \<Rightarrow> nid \<Rightarrow> bool" where
  "metered_node lo G w a \<longleftrightarrow>
     (\<forall>m \<in> set (get_observers w a). lo \<le> m) \<and> map (get_observers w) (get_observers w a) = map (\<lambda>c. [c]) (G a)"

lemma metered_node_kept:
  assumes "metered_node lo G w a" and "instrumentable lo R self t ag w" and "kept t X w v" and "a \<in> R" and "a \<notin> X"
    and "X \<subseteq> R"
  shows "metered_node lo G v a"
proof -
  have a: "get_observers v a = get_observers w a"
    using assms(2,4,5) by (intro kept_observers [OF assms(3)]) (auto simp: instrumentable_def)
  have "get_observers v m = get_observers w m" if "m \<in> set (get_observers w a)" for m
  proof (rule kept_observers [OF assms(3)])
    have "lo \<le> m"
      using assms(1) that by (simp add: metered_node_def)
    then show "m < next_node w" "m \<notin> X" "t \<noteq> Some m"
      using assms(2,4,6) that by (force simp: instrumentable_def tapped_def)+
  qed
  then have "map (get_observers v) (get_observers w a) = map (get_observers w) (get_observers w a)"
    by simp
  with a assms(1) show ?thesis
    by (simp add: metered_node_def)
qed

lemma insert_step:
  assumes ready: "instrumentable lo R self t ag w" and "n1 \<in> R" and "n2 \<in> R"
  shows "\<exists>v. insert_metrics_between E self n1 n2 w = Returns () v \<and> instrumentable lo R self t ag v \<and>
    kept t {n1} w v \<and> get_observers v n1 = removeAll n2 (get_observers w n1) @ [next_node w] \<and>
    get_observers v (next_node w) = [n2] \<and> next_node w < next_node v"
proof -
  let ?m = "next_node w"
  have below: "n1 < ?m" "n2 < ?m" "self < ?m" "ag < ?m" "\<forall>tr. t = Some tr \<longrightarrow> tr < ?m \<and> tr \<noteq> n1"
      "\<not> is_metrics_node w n1" "\<not> is_metrics_node w n2" "metered w self t ag" "lo \<le> ?m"
    using assms by (auto simp: instrumentable_def)
  obtain v where v: "insert_metrics_between E self n1 n2 w = Returns () v" "next_node v = ?m + 2"
      "\<forall>a < ?m. class_part (heap v a) = class_part (heap w a)"
      "\<exists>ms p. class_part (heap v ?m) = MetricsNode ms \<and> publisher_node ms = Suc ?m \<and>
         class_part (heap v (Suc ?m)) = MetricsPublisherNode p" "get_observers v ?m = [n2]"
      "get_observers v n1 = removeAll n2 (get_observers w n1) @ [?m]"
      "\<forall>a < ?m. a = n1 \<or> t = Some a \<or> get_observers v a = get_observers w a"
    using insert_metrics_between_eq [OF below(8,6,7,1-5)] by blast
  have metrics: "is_metrics_node v a = is_metrics_node w a" if "a < ?m" for a
    using v(3) that by (simp add: is_metrics_node_def)
  have obs: "get_observers v a = (if a = n1 then removeAll n2 (get_observers w n1) @ [?m] else get_observers w a)" if "a \<in> R" for a
  proof -
    have "a < ?m" "t \<noteq> Some a"
      using ready that by (auto simp: instrumentable_def)
    then show ?thesis
      using v(6,7) by auto
  qed
  have meters: "meter lo v m" if "m < ?m" "meter lo w m" for m
    using that v(2,3) by (auto simp: meter_def)
  have new_meter: "meter lo v ?m"
    using v(2,4) below(9) by (auto simp: meter_def)
  have t1: "m < ?m \<and> meter lo w m" if "a \<in> R" "m \<in> set (get_observers w a)" "lo \<le> m" for a m
    using ready that by (simp add: instrumentable_def tapped_def)
  have t2: "distinct (filter (\<lambda>m. lo \<le> m) (get_observers w a))" if "a \<in> R" for a
    using ready that by (simp add: instrumentable_def tapped_def)
  have t3: "m < lo" if "a \<in> R" "b \<in> R" "a \<noteq> b" "m \<in> set (get_observers w a)" "m \<in> set (get_observers w b)" for a b m
    using ready that unfolding instrumentable_def tapped_def by blast
  have member: "(m \<in> set (get_observers w a) \<and> (lo \<le> m \<longrightarrow> m < ?m)) \<or> a = n1 \<and> m = ?m"
    if "a \<in> R" "m \<in> set (get_observers v a)" for a m
    using that t1 [OF that(1)] by (auto simp: obs [OF that(1)] split: if_splits)
  have "m < ?m + 2 \<and> meter lo v m" if "a \<in> R" "m \<in> set (get_observers v a)" "lo \<le> m" for a m
  proof (cases "m = ?m")
    case True
    then show ?thesis using new_meter by simp
  next
    case False
    then have "m \<in> set (get_observers w a)"
      using member [OF that(1,2)] by blast
    then show ?thesis
      using t1 [OF that(1) _ that(3)] meters by simp
  qed
  moreover have "distinct (filter (\<lambda>m. lo \<le> m) (get_observers v a))" if "a \<in> R" for a
  proof (cases "a = n1")
    case True
    have "distinct (filter (\<lambda>m. lo \<le> m) (removeAll n2 (get_observers w n1)))"
      using distinct_filter [OF t2 [OF assms(2)], of "\<lambda>m. n2 \<noteq> m"]
      by (simp add: removeAll_filter_not_eq conj_commute)
    moreover have "?m \<notin> set (get_observers w n1)"
      using t1 [OF assms(2), of ?m] below(9) by blast
    ultimately show ?thesis
      using below(9) True v(6) by simp
  qed (simp add: obs [OF that] t2 [OF that])
  moreover have "m < lo" if "a \<in> R" "b \<in> R" "a \<noteq> b" "m \<in> set (get_observers v a)" "m \<in> set (get_observers v b)" for a b m
    using member [OF that(1,4)] member [OF that(2,5)] t3 [OF that(1-3)] that(3) below(9) by (cases "m = ?m") auto
  ultimately have "tapped lo R v"
    unfolding tapped_def v(2) by blast
  moreover have "metered v self t ag"
    using below(3-5,8) v(3) by (auto simp: metered_def metrics)
  ultimately have "instrumentable lo R self t ag v"
    using ready v(2) metrics by (auto simp: instrumentable_def)
  then show ?thesis
    using v by (auto simp: kept_def)
qed

text \<open>The walk, one node after the other: what has been visited between \<open>V\<close> and \<open>V'\<close> is metered.\<close>

abbreviation insertions :: "'u env \<Rightarrow> nid \<Rightarrow> nid \<Rightarrow> nid \<Rightarrow> nat \<Rightarrow> 'u world \<times> unit \<Rightarrow> ('u, unit) ending" where
  "insertions E self \<equiv> \<lambda>n1 n2 level. on_world (insert_metrics_between E self n1 n2)"

definition advanced ::
  "nid \<Rightarrow> nid set \<Rightarrow> nid \<Rightarrow> nid option \<Rightarrow> nid \<Rightarrow> (nid \<Rightarrow> nid list) \<Rightarrow> nid set \<Rightarrow> 'u world \<Rightarrow> nid set \<Rightarrow> 'u world \<Rightarrow> nid set \<Rightarrow> bool" where
  "advanced lo R self t ag G X w V v V' \<longleftrightarrow>
     instrumentable lo R self t ag v \<and> V \<subseteq> V' \<and> V' \<subseteq> V \<union> R \<and> kept t ((V' - V) \<union> X) w v \<and>
     (\<forall>a \<in> V' - V. metered_node lo G v a \<and> set (G a) \<subseteq> V')"

lemma advanced_refl: "instrumentable lo R self t ag w \<Longrightarrow> advanced lo R self t ag G X w V w V"
  by (simp add: advanced_def kept_refl)

lemma advanced_trans:
  assumes "advanced lo R self t ag G X u V v V1" and "advanced lo R self t ag G Y v V1 w V2" and "Y \<subseteq> V" and "Y \<subseteq> R"
  shows "advanced lo R self t ag G (X \<union> Y) u V w V2"
proof -
  have v: "instrumentable lo R self t ag v" "V \<subseteq> V1" "V1 \<subseteq> V \<union> R" "kept t ((V1 - V) \<union> X) u v"
      "\<forall>a \<in> V1 - V. metered_node lo G v a \<and> set (G a) \<subseteq> V1"
    using assms(1) unfolding advanced_def by blast+
  have w: "instrumentable lo R self t ag w" "V1 \<subseteq> V2" "V2 \<subseteq> V1 \<union> R" "kept t ((V2 - V1) \<union> Y) v w"
      "\<forall>a \<in> V2 - V1. metered_node lo G w a \<and> set (G a) \<subseteq> V2"
    using assms(2) unfolding advanced_def by blast+
  have "kept t ((V2 - V) \<union> (X \<union> Y)) u w"
    by (rule kept_trans [OF v(4) w(4)]) (use v(2) w(2) in blast)
  moreover have "metered_node lo G w a" if "a \<in> V1 - V" for a
  proof (rule metered_node_kept [OF _ v(1) w(4)])
    show "metered_node lo G v a" "a \<in> R" "a \<notin> V2 - V1 \<union> Y" "V2 - V1 \<union> Y \<subseteq> R"
      using that v(3,5) w(3) assms(3,4) by blast+
  qed
  then have "metered_node lo G w a \<and> set (G a) \<subseteq> V2" if "a \<in> V2 - V" for a
    using that v(5) w(2,5) by (cases "a \<in> V1") blast+
  ultimately show ?thesis
    unfolding advanced_def using w(1) v(2,3) w(2,3) by blast
qed

lemma advanced_rest:
  assumes "advanced lo R self t ag G X w V v V'" and "instrumentable lo R self t ag w"
    and "\<forall>a \<in> R - V. get_observers w a = G a" and "X \<subseteq> V"
  shows "\<forall>a \<in> R - V'. get_observers v a = G a"
proof
  fix a assume a: "a \<in> R - V'"
  have "V \<subseteq> V'" "kept t ((V' - V) \<union> X) w v"
    using assms(1) by (simp_all add: advanced_def)
  moreover have "a < lo" "lo \<le> next_node w" "t \<noteq> Some a"
    using assms(2) a by (auto simp: instrumentable_def)
  ultimately have "get_observers v a = get_observers w a"
    using a assms(4) by (intro kept_observers [of t "(V' - V) \<union> X" w v a]) auto
  then show "get_observers v a = G a"
    using assms(3) a \<open>V \<subseteq> V'\<close> by auto
qed

lemma insert_children:
  assumes rec: "\<And>c w V. c \<in> set cs \<Longrightarrow> instrumentable lo R self t ag w \<Longrightarrow> n \<in> V \<Longrightarrow> \<forall>a \<in> R - V. get_observers w a = G a \<Longrightarrow>
      card (R - V) < k \<Longrightarrow> \<exists>w' V'. step_connections k (insertions E self) False (level + 1) c ((w, ()), V) = Returns () ((w', ()), V') \<and>
        c \<in> V' \<and> advanced lo R self t ag G {} w V w' V'"
    and "instrumentable lo R self t ag w" and n: "n \<in> R" "n \<in> V" and "finite R"
    and "\<forall>a \<in> R - V. get_observers w a = G a" and "card (R - V) < k"
    and cs: "set cs \<subseteq> R" "G n = ps @ cs"
    and now: "get_observers w n = filter (\<lambda>c. c \<notin> set ps) (G n) @ ms" "map (get_observers w) ms = map (\<lambda>c. [c]) ps"
      "\<forall>m \<in> set ms. lo \<le> m" "set ps \<subseteq> R"
  shows "\<exists>w' V'. for_each (\<lambda>child s. andthen (step_connections k (insertions E self) False (level + 1) child s)
        (on_world (insertions E self n child level))) cs ((w, ()), V) = Returns () ((w', ()), V') \<and>
      set cs \<subseteq> V' \<and> advanced lo R self t ag G {n} w V w' V' \<and> metered_node lo G w' n"
  using assms
proof (induction cs arbitrary: w V ps ms)
  case Nil
  have "filter (\<lambda>c. c \<notin> set ps) (G n) = []"
    using Nil.prems(9) by (simp add: filter_empty_conv)
  then have "metered_node lo G w n"
    using Nil.prems(9,10,11,12) by (simp add: metered_node_def)
  then show ?case
    using advanced_refl [OF Nil.prems(2)] by auto
next
  case (Cons c cs)
  obtain w1 V1 where w1: "step_connections k (insertions E self) False (level + 1) c ((w, ()), V) = Returns () ((w1, ()), V1)"
      "c \<in> V1" "advanced lo R self t ag G {} w V w1 V1"
    using Cons.prems(1) [of c w V] Cons.prems(2,4,6,7) by auto
  have V1: "V \<subseteq> V1" "V1 \<subseteq> V \<union> R" "instrumentable lo R self t ag w1" "kept t (V1 - V) w w1"
    using w1(3) by (simp_all add: advanced_def)
  have c: "c \<in> R" "c < lo"
    using Cons.prems(2,8) by (auto simp: instrumentable_def)
  have n_lo: "n < lo" "lo \<le> next_node w" "\<And>a. a \<in> R \<Longrightarrow> a < next_node w \<and> t \<noteq> Some a"
    using Cons.prems(2,3) by (auto simp: instrumentable_def)
  have obs1: "get_observers w1 n = get_observers w n"
    using Cons.prems(3,4) n_lo(3) by (intro kept_observers [OF V1(4)]) auto
  obtain w2 where w2: "insert_metrics_between E self n c w1 = Returns () w2" "instrumentable lo R self t ag w2"
      "kept t {n} w1 w2" "get_observers w2 n = removeAll c (get_observers w1 n) @ [next_node w1]"
      "get_observers w2 (next_node w1) = [c]"
    using insert_step [OF V1(3) Cons.prems(3) c(1)] by blast
  have step: "advanced lo R self t ag G {n} w1 V1 w2 V1"
    using w2(2,3) by (simp add: advanced_def)
  then have w_w2: "advanced lo R self t ag G {n} w V w2 V1"
    using advanced_trans [OF w1(3) step] Cons.prems(3,4) by simp
  have ms_old: "m < next_node w \<and> m \<noteq> n \<and> t \<noteq> Some m \<and> m \<notin> V1 - V" if "m \<in> set ms" for m
  proof -
    have "lo \<le> m" "m \<in> set (get_observers w n)"
      using that Cons.prems(10,12) by simp_all
    then have "m < next_node w"
      using Cons.prems(2,3) by (simp add: instrumentable_def tapped_def)
    moreover have "m \<notin> R" "t \<noteq> Some m"
      using Cons.prems(2) \<open>lo \<le> m\<close> by (auto simp: instrumentable_def)
    ultimately show ?thesis
      using V1(2) Cons.prems(3) by blast
  qed
  have "get_observers w2 m = get_observers w m" if "m \<in> set ms" for m
    using ms_old [OF that] w_w2 by (intro kept_observers [of t "(V1 - V) \<union> {n}"]) (auto simp: advanced_def)
  then have ih_map: "map (get_observers w2) (ms @ [next_node w1]) = map (\<lambda>c. [c]) (ps @ [c])"
    using Cons.prems(11) w2(5) by (simp cong: map_cong)
  have "removeAll c ms = ms"
    using Cons.prems(12) c(2) by (intro removeAll_id) auto
  then have ih_obs: "get_observers w2 n = filter (\<lambda>x. x \<notin> set (ps @ [c])) (G n) @ (ms @ [next_node w1])"
    unfolding w2(4) obs1 Cons.prems(10)
    by (simp add: removeAll_filter_not_eq) (auto intro: filter_cong)
  have ih_lo: "\<forall>m \<in> set (ms @ [next_node w1]). lo \<le> m"
    using Cons.prems(12) V1(3) by (simp add: instrumentable_def)
  have ih_rest: "\<forall>a \<in> R - V1. get_observers w2 a = G a"
    using Cons.prems(4) by (intro advanced_rest [OF w_w2 Cons.prems(2,6)]) simp
  have "card (R - V1) \<le> card (R - V)"
    using Cons.prems(5) V1(1) by (intro card_mono) auto
  then have ih_card: "card (R - V1) < k"
    using Cons.prems(7) by simp
  have ih_sets: "n \<in> V1" "set cs \<subseteq> R" "G n = (ps @ [c]) @ cs" "set (ps @ [c]) \<subseteq> R"
    using Cons.prems(4,8,9,13) V1(1) c(1) by auto
  have ih_rec: "\<And>c w V. c \<in> set cs \<Longrightarrow> instrumentable lo R self t ag w \<Longrightarrow> n \<in> V \<Longrightarrow> \<forall>a \<in> R - V. get_observers w a = G a \<Longrightarrow>
      card (R - V) < k \<Longrightarrow> \<exists>w' V'. step_connections k (insertions E self) False (level + 1) c ((w, ()), V) = Returns () ((w', ()), V') \<and>
        c \<in> V' \<and> advanced lo R self t ag G {} w V w' V'"
    using Cons.prems(1) by (meson list.set_intros(2))
  obtain w' V' where w': "for_each (\<lambda>child s. andthen (step_connections k (insertions E self) False (level + 1) child s)
        (on_world (insertions E self n child level))) cs ((w2, ()), V1) = Returns () ((w', ()), V')"
      "set cs \<subseteq> V'" "advanced lo R self t ag G {n} w2 V1 w' V'" "metered_node lo G w' n"
    using Cons.IH [OF ih_rec w2(2) Cons.prems(3) ih_sets(1) Cons.prems(5) ih_rest ih_card ih_sets(2,3) ih_obs ih_map ih_lo ih_sets(4)]
    by blast
  have "advanced lo R self t ag G {n} w V w' V'"
    using advanced_trans [OF w_w2 w'(3)] Cons.prems(3,4) by simp
  moreover have "c \<in> V'"
    using w'(3) w1(2) by (auto simp: advanced_def)
  ultimately show ?case
    using w1(1) w2(1) w'(1,2,4) by auto
qed

lemma insert_walk:
  assumes "finite R" and closed: "\<And>a. a \<in> R \<Longrightarrow> set (G a) \<subseteq> R" and "instrumentable lo R self t ag w" and "n \<in> R"
    and "\<forall>a \<in> R - V. get_observers w a = G a" and "card (R - V) < k"
  shows "\<exists>w' V'. step_connections k (insertions E self) False level n ((w, ()), V) = Returns () ((w', ()), V') \<and>
    n \<in> V' \<and> advanced lo R self t ag G {} w V w' V'"
  using assms(3-6)
proof (induction k arbitrary: level n w V)
  case 0
  then show ?case by simp
next
  case (Suc k)
  show ?case
  proof (cases "n \<in> V")
    case True
    then show ?thesis
      using advanced_refl [OF Suc.prems(1)] by auto
  next
    case False
    let ?V = "insert n V"
    have "R - ?V \<subset> R - V"
      using False Suc.prems(2) by blast
    then have card: "card (R - ?V) < k"
      using psubset_card_mono [of "R - V" "R - ?V"] assms(1) Suc.prems(4) by simp
    have n: "get_observers w n = G n" "set (G n) \<subseteq> R"
      using Suc.prems(2,3) False closed by auto
    have rec: "\<exists>w' V'. step_connections k (insertions E self) False (level + 1) c ((w, ()), V) = Returns () ((w', ()), V') \<and>
        c \<in> V' \<and> advanced lo R self t ag G {} w V w' V'"
      if "c \<in> set (G n)" "instrumentable lo R self t ag w" "n \<in> V" "\<forall>a \<in> R - V. get_observers w a = G a" "card (R - V) < k" for c w V
      using Suc.IH [OF that(2) _ that(4,5)] that(1) n(2) by auto
    have rest: "\<forall>a \<in> R - ?V. get_observers w a = G a"
      using Suc.prems(3) by blast
    have start: "G n = [] @ G n" "get_observers w n = filter (\<lambda>c. c \<notin> set []) (G n) @ []"
        "map (get_observers w) [] = map (\<lambda>c. [c]) []" "\<forall>m \<in> set []. lo \<le> m" "set [] \<subseteq> R"
      using n(1) by simp_all
    obtain w' V' where w': "for_each (\<lambda>child s. andthen (step_connections k (insertions E self) False (level + 1) child s)
          (on_world (insertions E self n child level))) (G n) ((w, ()), ?V) = Returns () ((w', ()), V')"
        "set (G n) \<subseteq> V'" "advanced lo R self t ag G {n} w ?V w' V'" "metered_node lo G w' n"
      using insert_children [OF rec Suc.prems(1,2) insertI1 assms(1) rest card n(2) start] by blast
    have sets: "?V \<subseteq> V'" "V' \<subseteq> ?V \<union> R" "instrumentable lo R self t ag w'" "kept t ((V' - ?V) \<union> {n}) w w'"
        "\<forall>a \<in> V' - ?V. metered_node lo G w' a \<and> set (G a) \<subseteq> V'"
      using w'(3) by (simp_all add: advanced_def)
    have "(V' - ?V) \<union> {n} = V' - V"
      using sets(1) False by blast
    then have kept': "kept t ((V' - V) \<union> {}) w w'"
      using sets(4) by simp
    have "metered_node lo G w' a \<and> set (G a) \<subseteq> V'" if "a \<in> V' - V" for a
      using that sets(5) w'(2,4) by (cases "a = n") auto
    then have "advanced lo R self t ag G {} w V w' V'"
      unfolding advanced_def using sets(1-3) kept' Suc.prems(2) by blast
    moreover have "step_connections (Suc k) (insertions E self) False level n ((w, ()), V) = Returns () ((w', ()), V')"
      using w'(1) False n(1) by simp
    ultimately show ?thesis
      using sets(1) by blast
  qed
qed

lemma insert_forest:
  assumes "finite R" and "\<And>a. a \<in> R \<Longrightarrow> set (G a) \<subseteq> R" and "instrumentable lo R self t ag w" and "set cs \<subseteq> R"
    and "\<forall>a \<in> R - V. get_observers w a = G a" and "card R < k"
  shows "\<exists>w' V'. for_each (step_connections k (insertions E self) False 0) cs ((w, ()), V) = Returns () ((w', ()), V') \<and>
    set cs \<subseteq> V' \<and> advanced lo R self t ag G {} w V w' V'"
  using assms(3-5)
proof (induction cs arbitrary: w V)
  case Nil
  then show ?case
    using advanced_refl by fastforce
next
  case (Cons c cs)
  have "c \<in> R" "card (R - V) < k"
    using card_mono [OF assms(1), of "R - V"] assms(6) Cons.prems(2) by auto
  then obtain w1 V1 where w1: "step_connections k (insertions E self) False 0 c ((w, ()), V) = Returns () ((w1, ()), V1)"
      "c \<in> V1" "advanced lo R self t ag G {} w V w1 V1"
    using insert_walk [OF assms(1,2) Cons.prems(1) _ Cons.prems(3)] by blast
  have "instrumentable lo R self t ag w1"
    using w1(3) by (simp add: advanced_def)
  moreover have "\<forall>a \<in> R - V1. get_observers w1 a = G a"
    by (rule advanced_rest [OF w1(3) Cons.prems(1,3)]) simp
  ultimately obtain w' V' where w': "for_each (step_connections k (insertions E self) False 0) cs ((w1, ()), V1) =
        Returns () ((w', ()), V')" "set cs \<subseteq> V'" "advanced lo R self t ag G {} w1 V1 w' V'"
    using Cons.IH [of w1 V1] Cons.prems(2) by auto
  have "c \<in> V'"
    using w'(3) w1(2) by (auto simp: advanced_def)
  moreover have "advanced lo R self t ag G {} w V w' V'"
    using advanced_trans [OF w1(3) w'(3)] by simp
  ultimately show ?case
    using w1(1) w'(1,2) by auto
qed

lemma reach_least: "set (G self) \<subseteq> V \<Longrightarrow> \<forall>a \<in> V. set (G a) \<subseteq> V \<Longrightarrow> (graph_edges G)\<^sup>+ `` {self} \<subseteq> V"
proof
  fix a assume V: "set (G self) \<subseteq> V" "\<forall>a \<in> V. set (G a) \<subseteq> V" and "a \<in> (graph_edges G)\<^sup>+ `` {self}"
  then have "(self, a) \<in> (graph_edges G)\<^sup>+"
    by simp
  then show "a \<in> V"
    by (induction rule: trancl_induct) (use V in \<open>auto simp: graph_edges_def\<close>)
qed

end
