(* ===== verification/Deinstrumentation.thy ===== *)
theory Deinstrumentation
  imports Instrumentation
begin

text \<open>
  Removing the metrics nodes of an instrumented graph: the filter takes each of them out and connects
  its parent to its only observer, at the end of the parent's list, so that after all of them the list is
  as it was.
\<close>

section \<open>One removal\<close>

abbreviation removals :: "nid \<Rightarrow> nid \<Rightarrow> nat \<Rightarrow> 'u world \<times> unit \<Rightarrow> (error, 'u world \<times> unit, bool) outcome" where
  "removals self \<equiv> \<lambda>n level. on_world (\<lambda>w. case test_and_remove_metrics_node self n w of (keep, w) \<Rightarrow> Returns keep w)"

text \<open>
  Nodes whose connections the filter may change on the side: the trigger, and the publishers
  of the metrics nodes. \<open>H\<close> and \<open>C\<close> are the observers and the classes at the start of the filter.
\<close>

definition hidden :: "nid option \<Rightarrow> nid \<Rightarrow> 'u world \<Rightarrow> nid \<Rightarrow> bool" where
  "hidden t lo w m \<longleftrightarrow> t = Some m \<or> (lo \<le> m \<and> (\<exists>p. class_part (heap w m) = MetricsPublisherNode p))"

definition same_classes :: "'u world \<Rightarrow> 'u world \<Rightarrow> bool" where
  "same_classes w v \<longleftrightarrow> (\<forall>a. class_part (heap v a) = class_part (heap w a)) \<and> next_node v = next_node w"

lemma same_classes_refl [simp]: "same_classes w w"
  by (simp add: same_classes_def)

lemma same_classes_trans: "same_classes u v \<Longrightarrow> same_classes v w \<Longrightarrow> same_classes u w"
  by (simp add: same_classes_def)

lemma same_classes_simps:
  assumes "same_classes w v"
  shows "meter lo v m = meter lo w m" and "is_metrics_node v m = is_metrics_node w m" and "hidden t lo v m = hidden t lo w m"
    and "metered v self t ag = metered w self t ag"
  using assms by (simp_all add: same_classes_def meter_def is_metrics_node_def hidden_def metered_def)

text \<open>The graph that has been instrumented.\<close>

definition instrumented :: "nid \<Rightarrow> nid set \<Rightarrow> nid \<Rightarrow> nid option \<Rightarrow> nid \<Rightarrow> (nid \<Rightarrow> nid list) \<Rightarrow> 'u world \<Rightarrow> bool" where
  "instrumented lo R self t ag G w \<longleftrightarrow>
     instrumentable lo R self t ag w \<and> (\<forall>a \<in> R. metered_node lo G w a \<and> set (G a) \<subseteq> R)"

lemma keep_real_node:
  assumes "same_classes w0 w" and "instrumentable lo R self t ag w0" and "n \<in> R"
  shows "test_and_remove_metrics_node self n w = (True, w)"
proof -
  have "\<not> is_metrics_node w n"
    using assms by (simp add: same_classes_simps instrumentable_def)
  then show ?thesis
    by (auto simp: test_and_remove_metrics_node_def is_metrics_node_def split: node_class.splits)
qed

lemma drop_metrics_node:
  assumes "same_classes w0 w" and "instrumentable lo R self t ag w0" and "meter lo w0 m"
  shows "\<exists>v. test_and_remove_metrics_node self m w = (False, v) \<and> same_classes w0 v \<and>
    (\<forall>a. \<not> hidden t lo w0 a \<longrightarrow> get_observers v a = get_observers w a)"
proof -
  obtain ms p where m: "class_part (heap w m) = MetricsNode ms" "lo \<le> publisher_node ms"
      "class_part (heap w0 (publisher_node ms)) = MetricsPublisherNode p"
    using assms(1,3) by (auto simp: meter_def same_classes_def)
  obtain r where r: "class_part (heap w0 self) = GraphRoot r" "metrics_trigger r = t" "metrics_aggregator r = Some ag"
    using assms(2) by (auto simp: instrumentable_def metered_def)
  have root: "class_part (heap v self) = GraphRoot r" if "same_classes w0 v" for v
    using r(1) that by (simp add: same_classes_def)
  let ?v1 = "case t of None \<Rightarrow> w | Some tr \<Rightarrow> disconnect tr m w"
  have v1: "same_classes w0 ?v1"
    using assms(1) by (auto simp: same_classes_def split: option.split)
  have "test_and_remove_metrics_node self m w = (False, disconnect (publisher_node ms) ag ?v1)"
    using m(1) r(2,3) root [OF assms(1)] root [OF v1] by (simp add: test_and_remove_metrics_node_def Let_def)
  moreover have "same_classes w0 (disconnect (publisher_node ms) ag ?v1)"
    using v1 by (simp add: same_classes_def)
  moreover have "get_observers (disconnect (publisher_node ms) ag ?v1) a = get_observers w a" if "\<not> hidden t lo w0 a" for a
    using that m(2,3) by (auto simp: hidden_def split: option.split)
  ultimately show ?thesis
    by blast
qed

text \<open>
  What the filter has done between two of its states: the nodes it has visited in the meantime are again
  connected as in \<open>G\<close>, and outside of them and of \<open>X\<close> no connection has changed.
\<close>

definition undone ::
  "nid \<Rightarrow> nid set \<Rightarrow> nid option \<Rightarrow> (nid \<Rightarrow> nid list) \<Rightarrow> 'u world \<Rightarrow> nid set \<Rightarrow> 'u world \<Rightarrow> nid set \<Rightarrow> 'u world \<Rightarrow> nid set \<Rightarrow> bool" where
  "undone lo R t G w0 X w V v V' \<longleftrightarrow>
     same_classes w0 v \<and> V \<subseteq> V' \<and>
     (\<forall>m \<in> V' - V. m \<in> R \<or> (\<exists>a \<in> R \<inter> (V' - V) \<union> X. m \<in> set (get_observers w0 a))) \<and>
     (\<forall>m. m \<in> R \<inter> (V' - V) \<or> m \<in> X \<or> hidden t lo w0 m \<or> get_observers v m = get_observers w m) \<and>
     (\<forall>a \<in> R \<inter> (V' - V). get_observers v a = G a \<and> set (G a) \<subseteq> V')"

lemma undone_refl: "same_classes w0 w \<Longrightarrow> undone lo R t G w0 X w V w V"
  by (simp add: undone_def)

lemma undone_observers:
  "undone lo R t G w0 X w V v V' \<Longrightarrow> m \<notin> R - V \<Longrightarrow> m \<notin> X \<Longrightarrow> \<not> hidden t lo w0 m \<Longrightarrow> get_observers v m = get_observers w m"
  unfolding undone_def by blast

lemma undone_trans:
  assumes "undone lo R t G w0 X u V v V1" and "undone lo R t G w0 Y v V1 w V2" and "Y \<subseteq> V"
    and "\<forall>a \<in> R. \<not> hidden t lo w0 a"
  shows "undone lo R t G w0 (X \<union> Y) u V w V2"
proof -
  have v: "V \<subseteq> V1" "\<And>m. m \<in> V1 - V \<Longrightarrow> m \<in> R \<or> (\<exists>a \<in> R \<inter> (V1 - V) \<union> X. m \<in> set (get_observers w0 a))"
      "\<And>m. m \<in> R \<inter> (V1 - V) \<or> m \<in> X \<or> hidden t lo w0 m \<or> get_observers v m = get_observers u m"
      "\<And>a. a \<in> R \<inter> (V1 - V) \<Longrightarrow> get_observers v a = G a \<and> set (G a) \<subseteq> V1"
    using assms(1) unfolding undone_def by blast+
  have w: "same_classes w0 w" "V1 \<subseteq> V2" "\<And>m. m \<in> V2 - V1 \<Longrightarrow> m \<in> R \<or> (\<exists>a \<in> R \<inter> (V2 - V1) \<union> Y. m \<in> set (get_observers w0 a))"
      "\<And>m. m \<in> R \<inter> (V2 - V1) \<or> m \<in> Y \<or> hidden t lo w0 m \<or> get_observers w m = get_observers v m"
      "\<And>a. a \<in> R \<inter> (V2 - V1) \<Longrightarrow> get_observers w a = G a \<and> set (G a) \<subseteq> V2"
    using assms(2) unfolding undone_def by blast+
  have "m \<in> R \<or> (\<exists>a \<in> R \<inter> (V2 - V) \<union> (X \<union> Y). m \<in> set (get_observers w0 a))" if "m \<in> V2 - V" for m
    using that v(1) v(2) [of m] w(2) w(3) [of m] by (cases "m \<in> V1") blast+
  moreover have "m \<in> R \<inter> (V2 - V) \<or> m \<in> X \<union> Y \<or> hidden t lo w0 m \<or> get_observers w m = get_observers u m" for m
    using v(1) v(3) [of m] w(2) w(4) [of m] by (metis Diff_iff Int_iff Un_iff subsetD)
  moreover have "get_observers w a = G a \<and> set (G a) \<subseteq> V2" if "a \<in> R \<inter> (V2 - V)" for a
  proof (cases "a \<in> V1")
    case True
    then have "get_observers w a = get_observers v a"
      using w(4) [of a] that assms(3,4) by blast
    then show ?thesis
      using v(4) [of a] that True w(2) by auto
  qed (use that w(5) in blast)
  ultimately show ?thesis
    unfolding undone_def using w(1,2) v(1) by (meson order_trans)
qed

section \<open>Removing on the way\<close>

text \<open>
  The nodes that have not been visited are still as they were, and their metrics nodes have not been
  visited either.
\<close>

definition pending :: "nid set \<Rightarrow> 'u world \<Rightarrow> 'u world \<Rightarrow> nid set \<Rightarrow> bool" where
  "pending R w0 w V \<longleftrightarrow>
     same_classes w0 w \<and>
     (\<forall>a \<in> R - V. get_observers w a = get_observers w0 a \<and> set (get_observers w0 a) \<inter> V = {}) \<and>
     (\<forall>a \<in> R. \<forall>m \<in> set (get_observers w0 a). get_observers w m = get_observers w0 m)"

lemma instrumented_facts:
  assumes "instrumented lo R self t ag G w0"
  shows "\<And>a m. a \<in> R \<Longrightarrow> m \<in> set (get_observers w0 a) \<Longrightarrow> lo \<le> m \<and> meter lo w0 m \<and> m \<notin> R \<and> \<not> hidden t lo w0 m"
    and "\<And>a b m. a \<in> R \<Longrightarrow> b \<in> R \<Longrightarrow> m \<in> set (get_observers w0 a) \<Longrightarrow> m \<in> set (get_observers w0 b) \<Longrightarrow> a = b"
    and "\<And>a. a \<in> R \<Longrightarrow> distinct (get_observers w0 a)"
    and "\<And>a. a \<in> R \<Longrightarrow> map (get_observers w0) (get_observers w0 a) = map (\<lambda>c. [c]) (G a) \<and> set (G a) \<subseteq> R"
    and "\<And>a. a \<in> R \<Longrightarrow> a < lo \<and> \<not> hidden t lo w0 a"
proof -
  have i: "\<And>a m. a \<in> R \<Longrightarrow> m \<in> set (get_observers w0 a) \<Longrightarrow> lo \<le> m"
      "\<And>a. a \<in> R \<Longrightarrow> a < lo" "\<And>tr. t = Some tr \<Longrightarrow> tr < lo \<and> tr \<notin> R" "tapped lo R w0"
      "\<And>a. a \<in> R \<Longrightarrow> map (get_observers w0) (get_observers w0 a) = map (\<lambda>c. [c]) (G a) \<and> set (G a) \<subseteq> R"
    using assms by (auto simp: instrumented_def instrumentable_def metered_node_def)
  show "lo \<le> m \<and> meter lo w0 m \<and> m \<notin> R \<and> \<not> hidden t lo w0 m" if "a \<in> R" "m \<in> set (get_observers w0 a)" for a m
  proof -
    have "lo \<le> m" "meter lo w0 m"
      using i(1) [OF that] i(4) that by (simp_all add: tapped_def)
    then show ?thesis
      using i(2) [of m] i(3) [of m] by (auto simp: hidden_def meter_def)
  qed
  show "a = b" if "a \<in> R" "b \<in> R" "m \<in> set (get_observers w0 a)" "m \<in> set (get_observers w0 b)" for a b m
    using i(1) [OF that(1,3)] i(4) that unfolding tapped_def by (metis IntI leD)
  show "distinct (get_observers w0 a)" if "a \<in> R" for a
  proof -
    have "filter (\<lambda>m. lo \<le> m) (get_observers w0 a) = get_observers w0 a"
      using i(1) [OF that] by (simp add: filter_id_conv)
    moreover have "distinct (filter (\<lambda>m. lo \<le> m) (get_observers w0 a))"
      using i(4) that by (simp add: tapped_def)
    ultimately show ?thesis
      by simp
  qed
  show "map (get_observers w0) (get_observers w0 a) = map (\<lambda>c. [c]) (G a) \<and> set (G a) \<subseteq> R" if "a \<in> R" for a
    using i(5) that by blast
  show "a < lo \<and> \<not> hidden t lo w0 a" if "a \<in> R" for a
    using i(2) [OF that] i(3) [of a] that by (auto simp: hidden_def)
qed

lemma pending_undone:
  assumes I: "instrumented lo R self t ag G w0" and "pending R w0 w V" and "undone lo R t G w0 X w V v V'"
    and "X \<subseteq> V" and "X \<subseteq> R"
  shows "pending R w0 v V'"
proof -
  note facts = instrumented_facts [OF I]
  have V: "V \<subseteq> V'" "same_classes w0 v"
      "\<And>m. m \<in> V' - V \<Longrightarrow> m \<in> R \<or> (\<exists>a \<in> R \<inter> (V' - V) \<union> X. m \<in> set (get_observers w0 a))"
      "\<And>m. m \<in> R \<inter> (V' - V) \<or> m \<in> X \<or> hidden t lo w0 m \<or> get_observers v m = get_observers w m"
    using assms(3) unfolding undone_def by blast+
  have w: "\<And>a. a \<in> R - V \<Longrightarrow> get_observers w a = get_observers w0 a \<and> set (get_observers w0 a) \<inter> V = {}"
      "\<And>a m. a \<in> R \<Longrightarrow> m \<in> set (get_observers w0 a) \<Longrightarrow> get_observers w m = get_observers w0 m"
    using assms(2) by (auto simp: pending_def)
  have "get_observers v a = get_observers w0 a \<and> set (get_observers w0 a) \<inter> V' = {}" if a: "a \<in> R - V'" for a
  proof
    have "a \<in> R - V" "a \<notin> X" "\<not> hidden t lo w0 a"
      using a V(1) assms(4) facts(5) by blast+
    then show "get_observers v a = get_observers w0 a"
      using V(4) [of a] w(1) a by auto
    have "m \<notin> V'" if m: "m \<in> set (get_observers w0 a)" for m
    proof
      assume "m \<in> V'"
      then have "m \<in> V' - V"
        using w(1) [OF \<open>a \<in> R - V\<close>] m by blast
      moreover have "m \<notin> R"
        using facts(1) [of a m] a m by blast
      ultimately obtain b where b: "b \<in> R \<inter> (V' - V) \<union> X" "m \<in> set (get_observers w0 b)"
        using V(3) by blast
      then have "a = b"
        using facts(2) [of a b m] a m assms(5) by blast
      then show False
        using b(1) a \<open>a \<notin> X\<close> by blast
    qed
    then show "set (get_observers w0 a) \<inter> V' = {}"
      by blast
  qed
  moreover have "get_observers v m = get_observers w0 m" if "a \<in> R" "m \<in> set (get_observers w0 a)" for a m
  proof -
    have "m \<notin> R" "\<not> hidden t lo w0 m"
      using facts(1) [OF that] by simp_all
    then show ?thesis
      using V(4) [of m] w(2) [OF that] assms(5) by auto
  qed
  ultimately show ?thesis
    using V(2) by (simp add: pending_def)
qed

lemma remove_step:
  assumes I: "instrumented lo R self t ag G w0" and "pending R w0 w V" and n: "n \<in> R" "n \<in> V"
    and m: "m \<in> set (get_observers w0 n)" "m \<notin> V" "get_observers w0 m = [c]" and "c \<in> R"
    and "2 * card (R - V) < k"
    and rec: "\<And>w V. pending R w0 w V \<Longrightarrow> 2 * card (R - V) < k \<Longrightarrow>
      \<exists>w' V'. filter_step k (removals self) (level + 1) m c ((w, ()), V) = Returns () ((w', ()), V') \<and>
        c \<in> V' \<and> undone lo R t G w0 {} w V w' V'"
  shows "\<exists>w' V'. filter_step (Suc k) (removals self) level n m ((w, ()), V) = Returns () ((w', ()), V') \<and>
    m \<in> V' \<and> c \<in> V' \<and> undone lo R t G w0 {n} w V w' V' \<and> get_observers w' n = removeAll m (get_observers w n) @ [c] \<and>
    (\<forall>x \<in> set (get_observers w0 n). x \<in> V' \<longrightarrow> x = m \<or> x \<in> V)"
proof -
  note facts = instrumented_facts [OF I]
  have inst: "instrumentable lo R self t ag w0" and same: "same_classes w0 w"
    using I assms(2) by (simp_all add: instrumented_def pending_def)
  have m': "meter lo w0 m" "m \<notin> R" "\<not> hidden t lo w0 m"
    using facts(1) [OF n(1) m(1)] by simp_all
  obtain w1 where w1: "test_and_remove_metrics_node self m w = (False, w1)" "same_classes w0 w1"
      "\<And>a. \<not> hidden t lo w0 a \<Longrightarrow> get_observers w1 a = get_observers w a"
    using drop_metrics_node [OF same inst m'(1)] by blast
  have gc: "get_observers w1 m = [c]"
    using w1(3) [OF m'(3)] assms(2) n(1) m(1,3) by (simp add: pending_def)
  let ?w2 = "push_observer n c (disconnect n m w1)"
  have "\<not> is_metrics_node w0 n" "\<not> is_metrics_node w0 c"
    using inst n(1) assms(8) by (simp_all add: instrumentable_def)
  moreover have same1: "same_classes w0 (disconnect n m w1)"
    using w1(2) by (simp add: same_classes_def)
  ultimately have connected: "connect n c (disconnect n m w1) = Returns () ?w2"
    by (simp add: connect_plain same_classes_simps [OF same1])
  have same2: "same_classes w0 ?w2"
    using w1(2) by (simp add: same_classes_def)
  have obs2: "get_observers ?w2 a = (if a = n then removeAll m (get_observers w n) @ [c] else get_observers w a)"
    if "\<not> hidden t lo w0 a" for a
    using that w1(3) by auto
  have step: "undone lo R t G w0 {n} w V ?w2 (insert m V)"
  proof -
    have "x = n \<or> hidden t lo w0 x \<or> get_observers ?w2 x = get_observers w x" for x
      using obs2 [of x] by argo
    then show ?thesis
      unfolding undone_def using same2 m(1) m'(2) by blast
  qed
  have pending2: "pending R w0 ?w2 (insert m V)"
    by (rule pending_undone [OF I assms(2) step]) (use n in auto)
  have "R - insert m V = R - V"
    using m'(2) by blast
  then obtain w' V' where w': "filter_step k (removals self) (level + 1) m c ((?w2, ()), insert m V) = Returns () ((w', ()), V')"
      "c \<in> V'" "undone lo R t G w0 {} ?w2 (insert m V) w' V'"
    using rec [OF pending2] assms(9) by auto
  have "undone lo R t G w0 {n} w V w' V'"
    using undone_trans [OF step w'(3)] facts(5) by simp
  moreover have "get_observers w' n = removeAll m (get_observers w n) @ [c]"
    using undone_observers [OF w'(3), of n] obs2 [of n] n facts(5) [OF n(1)] by simp
  moreover have "m \<in> V'"
    using w'(3) by (auto simp: undone_def)
  moreover have "x = m \<or> x \<in> V" if x: "x \<in> set (get_observers w0 n)" "x \<in> V'" for x
  proof (rule ccontr)
    assume "\<not> (x = m \<or> x \<in> V)"
    then have "x \<in> V' - insert m V"
      using x(2) by blast
    moreover have "x \<notin> R"
      using facts(1) [OF n(1) x(1)] by simp
    ultimately obtain a where "a \<in> R \<inter> (V' - insert m V)" "x \<in> set (get_observers w0 a)"
      using w'(3) unfolding undone_def by blast
    then show False
      using facts(2) [of a n x] n x(1) by auto
  qed
  moreover have "filter_step (Suc k) (removals self) level n m ((w, ()), V) = Returns () ((w', ()), V')"
    using m(2) w1(1) gc connected w'(1) by (simp add: andthen_assoc)
  ultimately show ?thesis
    using w'(2) by blast
qed

lemma remove_children:
  assumes I: "instrumented lo R self t ag G w0" and "finite R" and n: "n \<in> R" "n \<in> V" and "pending R w0 w V"
    and ms: "get_observers w0 n = ds @ ms" "set ms \<inter> V = {}" "map (get_observers w0) ms = map (\<lambda>c. [c]) cs"
    and now: "get_observers w n = ms @ ps" "set ps \<subseteq> R" and "set cs \<subseteq> R" and "2 * card (R - V) < k"
    and rec: "\<And>m c w V. c \<in> R \<Longrightarrow> pending R w0 w V \<Longrightarrow> 2 * card (R - V) < k \<Longrightarrow>
      \<exists>w' V'. filter_step k (removals self) (level + 1) m c ((w, ()), V) = Returns () ((w', ()), V') \<and>
        c \<in> V' \<and> undone lo R t G w0 {} w V w' V'"
  shows "\<exists>w' V'. for_each (filter_step (Suc k) (removals self) level n) ms ((w, ()), V) = Returns () ((w', ()), V') \<and>
    set cs \<subseteq> V' \<and> undone lo R t G w0 {n} w V w' V' \<and> get_observers w' n = ps @ cs"
  using n(2) assms(5) ms now(1,2) assms(11,12)
proof (induction ms arbitrary: w V ds ps cs)
  case Nil
  then show ?case
    using undone_refl [of w0 w] by (auto simp: pending_def)
next
  case (Cons m ms)
  note facts = instrumented_facts [OF I]
  obtain c cs' where cs: "cs = c # cs'" "get_observers w0 m = [c]" "map (get_observers w0) ms = map (\<lambda>c. [c]) cs'"
    using Cons.prems(5) by (cases cs) auto
  have m: "m \<in> set (get_observers w0 n)" "m \<notin> V" "c \<in> R" "m \<notin> set ms" "m \<notin> R"
    using Cons.prems(3,4,8) cs(1) facts(3) [OF n(1)] facts(1) [OF n(1), of m] by auto
  obtain w1 V1 where w1: "filter_step (Suc k) (removals self) level n m ((w, ()), V) = Returns () ((w1, ()), V1)"
      "m \<in> V1" "c \<in> V1" "undone lo R t G w0 {n} w V w1 V1"
      "get_observers w1 n = removeAll m (get_observers w n) @ [c]"
      "\<forall>x \<in> set (get_observers w0 n). x \<in> V1 \<longrightarrow> x = m \<or> x \<in> V"
    using remove_step [OF I Cons.prems(2) n(1) Cons.prems(1) m(1,2) cs(2) m(3) Cons.prems(9) rec [OF m(3)]] by blast
  have pending1: "pending R w0 w1 V1"
    by (rule pending_undone [OF I Cons.prems(2) w1(4)]) (use n(1) Cons.prems(1) in auto)
  have "V \<subseteq> V1"
    using w1(4) by (simp add: undone_def)
  then have n1: "n \<in> V1"
    using Cons.prems(1) by blast
  have "m \<notin> set ps"
    using m(5) Cons.prems(7) by blast
  then have "removeAll m ms = ms" "removeAll m ps = ps"
    using m(4) by simp_all
  then have obs1: "get_observers w1 n = ms @ (ps @ [c])"
    using w1(5) Cons.prems(6) by simp
  have ms1: "get_observers w0 n = (ds @ [m]) @ ms" "set ms \<inter> V1 = {}"
    using Cons.prems(3,4) w1(6) m(4) by auto
  have "card (R - V1) \<le> card (R - V)"
    using assms(2) \<open>V \<subseteq> V1\<close> by (intro card_mono) auto
  then have card1: "2 * card (R - V1) < k"
    using Cons.prems(9) by simp
  have sets1: "set (ps @ [c]) \<subseteq> R" "set cs' \<subseteq> R"
    using Cons.prems(7,8) m(3) cs(1) by simp_all
  obtain w' V' where w': "for_each (filter_step (Suc k) (removals self) level n) ms ((w1, ()), V1) = Returns () ((w', ()), V')"
      "set cs' \<subseteq> V'" "undone lo R t G w0 {n} w1 V1 w' V'" "get_observers w' n = (ps @ [c]) @ cs'"
    using Cons.IH [OF n1 pending1 ms1 cs(3) obs1 sets1 card1] by blast
  have "undone lo R t G w0 {n} w V w' V'"
    using undone_trans [OF w1(4) w'(3)] Cons.prems(1) facts(5) by simp
  moreover have "c \<in> V'"
    using w'(3) w1(3) unfolding undone_def by blast
  ultimately show ?case
    using w1(1) w'(1,2,4) cs(1) by auto
qed

lemma remove_walk:
  assumes I: "instrumented lo R self t ag G w0" and "finite R" and "n \<in> R" and "pending R w0 w V" and "2 * card (R - V) < k"
  shows "\<exists>w' V'. filter_step k (removals self) level parent n ((w, ()), V) = Returns () ((w', ()), V') \<and>
    n \<in> V' \<and> undone lo R t G w0 {} w V w' V'"
  using assms(3-5)
proof (induction k arbitrary: level parent n w V rule: less_induct)
  case (less k)
  have same: "same_classes w0 w"
    using less.prems(2) by (simp add: pending_def)
  obtain k1 where k1: "k = Suc k1"
    using less.prems(3) by (cases k) auto
  show ?case
  proof (cases "n \<in> V")
    case True
    then show ?thesis
      using undone_refl [OF same] k1 by auto
  next
    case False
    note facts = instrumented_facts [OF I]
    let ?V = "insert n V"
    have "R - ?V \<subset> R - V"
      using False less.prems(1) by blast
    then have card: "card (R - ?V) < card (R - V)"
      by (intro psubset_card_mono) (use assms(2) in auto)
    then obtain k2 where k2: "k1 = Suc k2"
      using less.prems(3) k1 by (cases k1) auto
    have card2: "2 * card (R - ?V) < k2"
      using card less.prems(3) k1 k2 by simp
    have inst: "instrumentable lo R self t ag w0"
      using I by (simp add: instrumented_def)
    have n: "get_observers w n = get_observers w0 n" "set (get_observers w0 n) \<inter> V = {}"
      using less.prems(1,2) False by (auto simp: pending_def)
    have gs: "map (get_observers w0) (get_observers w0 n) = map (\<lambda>c. [c]) (G n)" "set (G n) \<subseteq> R"
      using facts(4) [OF less.prems(1)] by simp_all
    have step: "undone lo R t G w0 {n} w V w V"
      by (rule undone_refl [OF same])
    have "set (get_observers w0 a) \<inter> ?V = {}" if "a \<in> R - ?V" for a
      using less.prems(1,2) facts(1) [of a n] that by (auto simp: pending_def)
    then have pending': "pending R w0 w ?V"
      using less.prems(2) by (auto simp: pending_def)
    have start: "n \<in> ?V" "get_observers w0 n = [] @ get_observers w0 n" "set (get_observers w0 n) \<inter> ?V = {}"
        "get_observers w n = get_observers w0 n @ []" "set [] \<subseteq> R"
      using n facts(1) [OF less.prems(1), of n] less.prems(1) by auto
    have rec: "\<exists>w' V'. filter_step k2 (removals self) (level + 1 + 1) m c ((w, ()), V) = Returns () ((w', ()), V') \<and>
        c \<in> V' \<and> undone lo R t G w0 {} w V w' V'"
      if "c \<in> R" "pending R w0 w V" "2 * card (R - V) < k2" for m c w V
      using less.IH [of k2] that k1 k2 by simp
    obtain w' V' where w': "for_each (filter_step (Suc k2) (removals self) (level + 1) n) (get_observers w0 n) ((w, ()), ?V) =
          Returns () ((w', ()), V')"
        "set (G n) \<subseteq> V'" "undone lo R t G w0 {n} w ?V w' V'" "get_observers w' n = [] @ G n"
      using remove_children [OF I assms(2) less.prems(1) start(1) pending' start(2,3) gs(1) start(4,5) gs(2) card2 rec] by blast
    have "filter_step k (removals self) level parent n ((w, ()), V) = Returns () ((w', ()), V')"
      using False keep_real_node [OF same inst less.prems(1)] n(1) w'(1) k1 k2 by simp
    moreover have "undone lo R t G w0 {} w V w' V'"
    proof -
      have u: "same_classes w0 w'" "?V \<subseteq> V'"
          "\<And>m. m \<in> V' - ?V \<Longrightarrow> m \<in> R \<or> (\<exists>a \<in> R \<inter> (V' - ?V) \<union> {n}. m \<in> set (get_observers w0 a))"
          "\<And>m. m \<in> R \<inter> (V' - ?V) \<or> m \<in> {n} \<or> hidden t lo w0 m \<or> get_observers w' m = get_observers w m"
          "\<And>a. a \<in> R \<inter> (V' - ?V) \<Longrightarrow> get_observers w' a = G a \<and> set (G a) \<subseteq> V'"
        using w'(3) unfolding undone_def by blast+
      have "m \<in> R \<or> (\<exists>a \<in> R \<inter> (V' - V) \<union> {}. m \<in> set (get_observers w0 a))" if "m \<in> V' - V" for m
        using that u(2) u(3) [of m] less.prems(1) False by (cases "m = n") blast+
      moreover have "m \<in> R \<inter> (V' - V) \<or> m \<in> {} \<or> hidden t lo w0 m \<or> get_observers w' m = get_observers w m" for m
        using u(2) u(4) [of m] less.prems(1) False by blast
      moreover have "get_observers w' a = G a \<and> set (G a) \<subseteq> V'" if "a \<in> R \<inter> (V' - V)" for a
        using that u(5) [of a] w'(2,4) by (cases "a = n") auto
      ultimately show ?thesis
        unfolding undone_def using u(1,2) by blast
    qed
    moreover have "n \<in> V'"
      using w'(3) by (auto simp: undone_def)
    ultimately show ?thesis
      by blast
  qed
qed

lemma remove_forest:
  assumes I: "instrumented lo R self t ag G w0" and "finite R" and "set cs \<subseteq> R" and "pending R w0 w V" and "2 * card R < k"
  shows "\<exists>w' V'. for_each (filter_step k (removals self) 0 self) cs ((w, ()), V) = Returns () ((w', ()), V') \<and>
    set cs \<subseteq> V' \<and> undone lo R t G w0 {} w V w' V'"
  using assms(3,4)
proof (induction cs arbitrary: w V)
  case Nil
  then show ?case
    using undone_refl [of w0 w] by (auto simp: pending_def)
next
  case (Cons c cs)
  have "c \<in> R" "2 * card (R - V) < k"
    using card_mono [OF assms(2), of "R - V"] assms(5) Cons.prems(1) by auto
  then obtain w1 V1 where w1: "filter_step k (removals self) 0 self c ((w, ()), V) = Returns () ((w1, ()), V1)"
      "c \<in> V1" "undone lo R t G w0 {} w V w1 V1"
    using remove_walk [OF I assms(2) _ Cons.prems(2)] by blast
  have "pending R w0 w1 V1"
    by (rule pending_undone [OF I Cons.prems(2) w1(3)]) simp_all
  then obtain w' V' where w': "for_each (filter_step k (removals self) 0 self) cs ((w1, ()), V1) = Returns () ((w', ()), V')"
      "set cs \<subseteq> V'" "undone lo R t G w0 {} w1 V1 w' V'"
    using Cons.IH [of w1 V1] Cons.prems(1) by auto
  have "undone lo R t G w0 {} w V w' V'"
    using undone_trans [OF w1(3) w'(3)] instrumented_facts(5) [OF I] by simp
  moreover have "c \<in> V'"
    using w'(3) w1(2) unfolding undone_def by blast
  ultimately show ?case
    using w1(1) w'(1,2) by auto
qed

section \<open>The whole of it\<close>

lemma update_root_simps [simp]:
  "get_observers (update_root f self w) = get_observers w" "next_node (update_root f self w) = next_node w"
  "class_part (heap (update_root f self w) a) =
    (if a = self then GraphRoot (f (root_of w self)) else class_part (heap w a))"
  by (simp_all add: update_root_def get_observers_def fun_eq_iff)

lemma new_node_facts:
  assumes "new_node E name th c w = (n, v)"
  shows "n = next_node w" and "next_node v = Suc n" and "get_observers v = (get_observers w)(n := [])"
    and "class_part (heap v a) = (if a = n then c else class_part (heap w a))"
  using assms by (auto simp: new_node_def get_observers_def fun_eq_iff split: prod.splits)

lemma make_trigger_eq:
  assumes "class_part (heap w self) = GraphRoot r" and "metrics_trigger r = None" and "self < next_node w"
  shows "\<exists>v t. make_trigger E self w = Returns () v \<and> next_node w \<le> next_node v \<and>
    class_part (heap v self) = GraphRoot (r\<lparr>metrics_trigger := t\<rparr>) \<and>
    (\<forall>tr. t = Some tr \<longrightarrow> next_node w \<le> tr \<and> tr < next_node v \<and> \<not> is_metrics_node v tr) \<and>
    (\<forall>a < next_node w. get_observers v a = get_observers w a \<and> is_metrics_node v a = is_metrics_node w a) \<and>
    (\<forall>a < next_node w. a \<noteq> self \<longrightarrow> class_part (heap v a) = class_part (heap w a))"
proof (cases "metrics_publishing_frequency_hz r > 0")
  case True
  obtain n v where n: "new_node E ''MetricsPublishingTrigger'' new_thread_part
      (FrequencyGenerator (metrics_publishing_frequency_hz r) 0) w = (n, v)"
    by fastforce
  note new = new_node_facts [OF n]
  have "make_trigger E self w = Returns () (set_trigger (Some n) self v)"
    using True assms(1) n by (simp add: make_trigger_def new_frequency_generator_def)
  then show ?thesis
    using new assms by (auto simp: set_trigger_def is_metrics_node_def intro!: exI [of _ "Some n"])
next
  case False
  have "r\<lparr>metrics_trigger := None\<rparr> = r"
    using assms(2) by simp
  then show ?thesis
    using False assms by (auto simp: make_trigger_def intro!: exI [of _ "None"])
qed

lemma make_aggregator_eq:
  assumes "class_part (heap w self) = GraphRoot r" and "self < next_node w"
    and "\<forall>p. metrics_publisher r = Some p \<longrightarrow> p < next_node w \<and> \<not> is_metrics_node w p"
  shows "\<exists>v. make_aggregator E self w = Returns () v \<and> next_node v = Suc (next_node w) \<and>
    class_part (heap v self) = GraphRoot (r\<lparr>metrics_aggregator := Some (next_node w)\<rparr>) \<and> \<not> is_metrics_node v (next_node w) \<and>
    (\<forall>a < next_node w. get_observers v a = get_observers w a \<and> is_metrics_node v a = is_metrics_node w a) \<and>
    (\<forall>a < next_node w. a \<noteq> self \<longrightarrow> class_part (heap v a) = class_part (heap w a))"
proof -
  obtain n v where n: "new_node E ''MetricsAggregator'' None PlainNode w = (n, v)"
    by fastforce
  note new = new_node_facts [OF n]
  let ?v = "set_aggregator (Some n) self v"
  have metrics: "is_metrics_node ?v a \<longleftrightarrow> a \<noteq> n \<and> is_metrics_node w a" for a
    using new(4) assms(1) by (simp add: is_metrics_node_def set_aggregator_def)
  have root: "root_of ?v self = r\<lparr>metrics_aggregator := Some n\<rparr>" "class_part (heap ?v self) = GraphRoot (r\<lparr>metrics_aggregator := Some n\<rparr>)"
    using new assms(1,2) by (simp_all add: set_aggregator_def)
  have obs: "get_observers ?v = get_observers v" "next_node ?v = next_node v"
      "\<forall>a < next_node w. a \<noteq> self \<longrightarrow> class_part (heap ?v a) = class_part (heap w a)"
    using new(1,4) by (simp_all add: set_aggregator_def)
  show ?thesis
  proof (cases "metrics_publisher r")
    case None
    then have "make_aggregator E self w = Returns () ?v"
      using n root(1) by (simp add: make_aggregator_def)
    then show ?thesis
      using new(1,2,3) root(2) metrics obs by simp
  next
    case (Some p)
    then have "make_aggregator E self w = Returns () (push_observer n p ?v)"
      using n root(1) assms(3) metrics by (simp add: make_aggregator_def connect_plain)
    moreover have "is_metrics_node (push_observer n p ?v) a = is_metrics_node ?v a" for a
      by (simp add: is_metrics_node_def)
    ultimately show ?thesis
      using new(1,2,3) root(2) metrics obs by simp
  qed
qed

text \<open>The conditions on a root and the graph below it.\<close>

definition below :: "'u world \<Rightarrow> nid \<Rightarrow> nid set" where
  "below w self = (graph_edges (get_observers w))\<^sup>+ `` {self}"

definition fresh_root :: "'u world \<Rightarrow> nid \<Rightarrow> bool" where
  "fresh_root w self \<longleftrightarrow>
     (\<exists>r. class_part (heap w self) = GraphRoot r \<and> \<not> metrics_instrumented r \<and> metrics_trigger r = None \<and>
        (\<forall>p. metrics_publisher r = Some p \<longrightarrow> p < next_node w \<and> \<not> is_metrics_node w p)) \<and>
     self < next_node w \<and> self \<notin> below w self \<and> (\<forall>a \<in> below w self. a < next_node w \<and> \<not> is_metrics_node w a)"

lemma instrument_eq:
  assumes "fresh_root w self" and "card (below w self) < k"
  shows "\<exists>v lo t ag. instrument_metrics k E self w = Returns () v \<and> next_node w \<le> lo \<and>
    instrumented lo (below w self) self t ag (get_observers w) v \<and>
    class_part (heap v self) = GraphRoot (root_of v self) \<and> metrics_instrumented (root_of v self) \<and>
    (\<forall>tr. t = Some tr \<longrightarrow> next_node w \<le> tr) \<and>
    (\<forall>a < next_node w. a \<in> below w self \<or> get_observers v a = get_observers w a) \<and>
    (\<forall>a < next_node w. a \<noteq> self \<longrightarrow> class_part (heap v a) = class_part (heap w a))"
proof -
  let ?R = "below w self" and ?G = "get_observers w"
  obtain r where r: "class_part (heap w self) = GraphRoot r" "\<not> metrics_instrumented r" "metrics_trigger r = None"
      "\<forall>p. metrics_publisher r = Some p \<longrightarrow> p < next_node w \<and> \<not> is_metrics_node w p"
      and R: "self < next_node w" "self \<notin> ?R" "\<forall>a \<in> ?R. a < next_node w \<and> \<not> is_metrics_node w a"
    using assms(1) by (auto simp: fresh_root_def)
  obtain w1 t where w1: "make_trigger E self w = Returns () w1" "next_node w \<le> next_node w1"
      "class_part (heap w1 self) = GraphRoot (r\<lparr>metrics_trigger := t\<rparr>)"
      "\<forall>tr. t = Some tr \<longrightarrow> next_node w \<le> tr \<and> tr < next_node w1 \<and> \<not> is_metrics_node w1 tr"
      "\<forall>a < next_node w. get_observers w1 a = ?G a \<and> is_metrics_node w1 a = is_metrics_node w a"
      "\<forall>a < next_node w. a \<noteq> self \<longrightarrow> class_part (heap w1 a) = class_part (heap w a)"
    using make_trigger_eq [OF r(1,3) R(1)] by blast
  have publisher: "\<forall>p. metrics_publisher (r\<lparr>metrics_trigger := t\<rparr>) = Some p \<longrightarrow> p < next_node w1 \<and> \<not> is_metrics_node w1 p"
    using r(4) w1(2,5) by auto
  obtain w2 where w2: "make_aggregator E self w1 = Returns () w2" "next_node w2 = Suc (next_node w1)"
      "class_part (heap w2 self) = GraphRoot (r\<lparr>metrics_trigger := t, metrics_aggregator := Some (next_node w1)\<rparr>)"
      "\<not> is_metrics_node w2 (next_node w1)"
      "\<forall>a < next_node w1. get_observers w2 a = get_observers w1 a \<and> is_metrics_node w2 a = is_metrics_node w1 a"
      "\<forall>a < next_node w1. a \<noteq> self \<longrightarrow> class_part (heap w2 a) = class_part (heap w1 a)"
    using make_aggregator_eq [OF w1(3) _ publisher, of E] R(1) w1(2) by auto
  let ?lo = "next_node w2" and ?ag = "next_node w1"
  have obs2: "get_observers w2 a = ?G a" "is_metrics_node w2 a = is_metrics_node w a" if "a < next_node w" for a
    using w1(2,5) w2(5) that by simp_all
  have closed: "set (?G a) \<subseteq> ?R" if "a \<in> ?R" for a
    using that by (auto simp: below_def graph_edges_def intro: trancl_into_trancl)
  have children: "set (?G self) \<subseteq> ?R"
    by (auto simp: below_def graph_edges_def)
  have old: "\<forall>m \<in> set (get_observers w2 a). m < ?lo" if "a \<in> ?R" for a
    using closed [OF that] obs2(1) [of a] R(3) that w1(2) w2(2) by force
  then have empty: "filter (\<lambda>m. ?lo \<le> m) (get_observers w2 a) = []" if "a \<in> ?R" for a
    using that by (simp add: filter_empty_conv not_le)
  have "tapped ?lo ?R w2"
    unfolding tapped_def
  proof (intro conjI ballI)
    fix a b
    assume "a \<in> ?R" "b \<in> ?R"
    then show "a = b \<or> (\<forall>m \<in> set (get_observers w2 a) \<inter> set (get_observers w2 b). m < ?lo)"
      using old by blast
  next
    fix a m
    assume "a \<in> ?R" "m \<in> set (get_observers w2 a)"
    then have "m < ?lo"
      using old by blast
    then show "?lo \<le> m \<longrightarrow> m < next_node w2 \<and> meter ?lo w2 m"
      by simp
  qed (simp add: empty)
  moreover have "metered w2 self t ?ag"
    using w2(3,4,5) w1(4) by (auto simp: metered_def)
  ultimately have ready: "instrumentable ?lo ?R self t ?ag w2"
    using w1(2,4) w2(2) R obs2(2) unfolding instrumentable_def by fastforce
  have fin: "finite ?R"
    using R(3) by (intro finite_subset [of ?R "{..<next_node w}"]) auto
  have rest: "\<forall>a \<in> ?R - {}. get_observers w2 a = ?G a"
    using R(3) obs2(1) by simp
  obtain w3 V where w3: "for_each (step_connections k (insertions E self) False 0) (?G self) ((w2, ()), {}) = Returns () ((w3, ()), V)"
      "set (?G self) \<subseteq> V" "advanced ?lo ?R self t ?ag ?G {} w2 {} w3 V"
    using insert_forest [OF fin closed ready children rest assms(2)] by blast
  have V: "V \<subseteq> ?R" "instrumentable ?lo ?R self t ?ag w3" "\<forall>a \<in> V. metered_node ?lo ?G w3 a \<and> set (?G a) \<subseteq> V"
      "kept t V w2 w3"
    using w3(3) by (simp_all add: advanced_def)
  have "?R \<subseteq> V"
    using reach_least [of ?G self V] w3(2) V(3) unfolding below_def by blast
  then have inst3: "instrumented ?lo ?R self t ?ag ?G w3"
    using V closed by (auto simp: instrumented_def)
  have "insert_everywhere k E self w2 = Returns () w3"
    using w3(1) obs2(1) [OF R(1)] by (simp add: insert_everywhere_def walk_connections_def)
  then have "instrument_metrics k E self w = Returns () (set_instrumented True self w3)"
    using r(1,2) w1(1) w2(1) by (simp add: instrument_metrics_def)
  moreover have "class_part (heap w3 self) = class_part (heap w2 self)"
    using V(4) R(1) w1(2) w2(2) by (simp add: kept_def)
  then have root3: "class_part (heap w3 self) = GraphRoot (r\<lparr>metrics_trigger := t, metrics_aggregator := Some ?ag\<rparr>)"
    using w2(3) by simp
  have "instrumented ?lo ?R self t ?ag ?G (set_instrumented True self w3)"
  proof -
    let ?v = "set_instrumented True self w3"
    have "is_metrics_node ?v a = is_metrics_node w3 a" for a
      using root3 by (simp add: is_metrics_node_def set_instrumented_def)
    moreover have "(class_part (heap ?v a) = MetricsNode ms) = (class_part (heap w3 a) = MetricsNode ms)"
        "(class_part (heap ?v a) = MetricsPublisherNode p) = (class_part (heap w3 a) = MetricsPublisherNode p)"
        "next_node ?v = next_node w3" for a ms p
      using root3 by (simp_all add: set_instrumented_def)
    then have "meter ?lo ?v a = meter ?lo w3 a" for a
      by (simp add: meter_def)
    moreover have "metered ?v self t ?ag = metered w3 self t ?ag"
      using root3 calculation(1) by (simp add: metered_def) (simp add: set_instrumented_def)
    moreover have "get_observers ?v = get_observers w3" "next_node ?v = next_node w3"
      by (simp_all add: set_instrumented_def)
    ultimately have "instrumented ?lo ?R self t ?ag ?G ?v = instrumented ?lo ?R self t ?ag ?G w3"
      by (simp only: instrumented_def instrumentable_def tapped_def metered_node_def)
    then show ?thesis
      using inst3 by simp
  qed
  moreover have "get_observers w3 a = ?G a" if "a < next_node w" "a \<notin> ?R" for a
    using kept_observers [OF V(4), of a] that V(1) w1(2,4) w2(2) obs2(1) by force
  moreover have "class_part (heap w3 a) = class_part (heap w a)" if "a < next_node w" "a \<noteq> self" for a
    using V(4) w1(2,6) w2(2,6) that by (simp add: kept_def)
  ultimately show ?thesis
    using w1(2,4) w2(2) root3
    by (intro exI [of _ "set_instrumented True self w3"] exI [of _ ?lo] exI [of _ t] exI [of _ ?ag])
      (auto simp: set_instrumented_def)
qed

lemma deinstrument_eq:
  assumes I: "instrumented lo (below w self) self t ag (get_observers w) v" and "fresh_root w self"
    and "metrics_instrumented (root_of v self)" and "next_node w \<le> lo" and "\<forall>tr. t = Some tr \<longrightarrow> next_node w \<le> tr"
    and "\<forall>a < next_node w. a \<in> below w self \<or> get_observers v a = get_observers w a"
    and "2 * card (below w self) < k"
  shows "\<exists>u. deinstrument_metrics k self v = Returns () u \<and> (\<forall>a < next_node w. get_observers u a = get_observers w a)"
proof -
  let ?R = "below w self" and ?G = "get_observers w"
  have R: "self < next_node w" "self \<notin> ?R" "\<And>a. a \<in> ?R \<Longrightarrow> a < next_node w"
    using assms(2) by (auto simp: fresh_root_def)
  then have fin: "finite ?R"
    by (intro finite_subset [of ?R "{..<next_node w}"]) auto
  have children: "set (?G self) \<subseteq> ?R" "get_observers v self = ?G self"
    using assms(6) R by (auto simp: below_def graph_edges_def)
  have "pending ?R v v {}"
    by (simp add: pending_def)
  then obtain u V where u: "for_each (filter_step k (removals self) 0 self) (?G self) ((v, ()), {}) = Returns () ((u, ()), V)"
      "set (?G self) \<subseteq> V" "undone lo ?R t ?G v {} v {} u V"
    using remove_forest [OF I fin children(1) _ assms(7)] by blast
  have final: "\<And>m. m \<in> ?R \<inter> V \<or> hidden t lo v m \<or> get_observers u m = get_observers v m"
      "\<And>a. a \<in> ?R \<inter> V \<Longrightarrow> get_observers u a = ?G a \<and> set (?G a) \<subseteq> V"
    using u(3) unfolding undone_def by blast+
  have "set (?G a) \<subseteq> ?R" if "a \<in> ?R" for a
    using that by (auto simp: below_def graph_edges_def intro: trancl_into_trancl)
  then have "?R \<subseteq> ?R \<inter> V"
    using reach_least [of ?G self "?R \<inter> V"] u(2) children(1) final(2) unfolding below_def by blast
  then have "get_observers u a = ?G a" if "a < next_node w" for a
    using that final(1) [of a] final(2) [of a] assms(4,5,6) by (cases "a \<in> ?R") (auto simp: hidden_def)
  moreover have "remove_everywhere k self v = Returns () u"
    using u(1) children(2) by (simp add: remove_everywhere_def filter_nodes_def)
  ultimately show ?thesis
    using assms(3) by (simp add: deinstrument_metrics_def set_instrumented_def set_trigger_def set_aggregator_def)
qed

section \<open>Properties\<close>

text \<open>C3: Instrumenting a graph without metrics nodes puts a metrics node of its own into every connection below
  the root, in the order of the connections, with the old observer as its only one. Deinstrumenting it gives every
  node that was there its observers back, in their order, also around cycles and for repeated connections.\<close>

theorem instrumentation_is_undone:
  assumes "fresh_root w self" and "2 * card (below w self) < k"
  shows "\<exists>v u. instrument_metrics k E self w = Returns () v \<and>
    (\<forall>a \<in> below w self. map (get_observers v) (get_observers v a) = map (\<lambda>c. [c]) (get_observers w a) \<and>
       distinct (get_observers v a) \<and> (\<forall>m \<in> set (get_observers v a). is_metrics_node v m)) \<and>
    deinstrument_metrics k self v = Returns () u \<and>
    (\<forall>a < next_node w. get_observers u a = get_observers w a)"
proof -
  have "card (below w self) < k"
    using assms(2) by simp
  then obtain v lo t ag where v: "instrument_metrics k E self w = Returns () v" "next_node w \<le> lo"
      "instrumented lo (below w self) self t ag (get_observers w) v" "metrics_instrumented (root_of v self)"
      "\<forall>tr. t = Some tr \<longrightarrow> next_node w \<le> tr"
      "\<forall>a < next_node w. a \<in> below w self \<or> get_observers v a = get_observers w a"
    using instrument_eq [OF assms(1)] by metis
  note facts = instrumented_facts [OF v(3)]
  have "map (get_observers v) (get_observers v a) = map (\<lambda>c. [c]) (get_observers w a) \<and>
      distinct (get_observers v a) \<and> (\<forall>m \<in> set (get_observers v a). is_metrics_node v m)" if "a \<in> below w self" for a
  proof (intro conjI ballI)
    fix m
    assume "m \<in> set (get_observers v a)"
    with facts(1) that have "meter lo v m"
      by blast
    then show "is_metrics_node v m"
      by (auto simp: meter_def is_metrics_node_def)
  qed (use facts(3,4) that in simp_all)
  with v(1) deinstrument_eq [OF v(3) assms(1) v(4,2,5,6) assms(2)] show ?thesis
    by blast
qed

definition rooted_world :: "unit world" where
  "rooted_world = set_node 9 (set_class (GraphRoot
     \<lparr>metrics_instrumented = False, metrics_publishing_frequency_hz = 1, metrics_trigger = None,
      metrics_aggregator = None, metrics_publisher = None, debug = False, node_to_run = None\<rparr>))
     (example_world ((\<lambda>_. [])(9 := [0], 0 := [1, 1], 1 := [0])) (\<lambda>_. PlainNode))"

theorem instrumentation_is_undone_witness:
  "\<exists>v u. instrument_metrics 5 example_env 9 rooted_world = Returns () v \<and> length (get_observers v 0) = 2 \<and>
    deinstrument_metrics 5 9 v = Returns () u \<and> get_observers u 0 = [1, 1]"
proof -
  have obs: "get_observers rooted_world = (\<lambda>_. [])(9 := [0], 0 := [1, 1], 1 := [0])"
    by (simp add: rooted_world_def)
  have "below rooted_world 9 \<subseteq> {0, 1}"
    unfolding below_def obs by (rule reach_least) auto
  moreover have "0 \<in> below rooted_world 9"
    by (auto simp: below_def obs graph_edges_def)
  moreover have "below rooted_world 9 \<noteq> {}" "card (below rooted_world 9) \<le> 2"
    using calculation card_mono [of "{0, 1 :: nid}" "below rooted_world 9"] by auto
  moreover have "fresh_root rooted_world 9"
    using calculation(1) by (auto simp: fresh_root_def rooted_world_def is_metrics_node_def example_world_def example_node_def)
  ultimately obtain v u where vu: "instrument_metrics 5 example_env 9 rooted_world = Returns () v"
      "map (get_observers v) (get_observers v 0) = map (\<lambda>c. [c]) (get_observers rooted_world 0)"
      "deinstrument_metrics 5 9 v = Returns () u" "\<forall>a < next_node rooted_world. get_observers u a = get_observers rooted_world a"
    using instrumentation_is_undone [of rooted_world 9 5 example_env] by fastforce
  have "length (get_observers v 0) = 2"
    using arg_cong [OF vu(2), of length] by (simp add: obs)
  moreover have "get_observers u 0 = [1, 1]"
    using vu(4) by (simp add: obs) (simp add: rooted_world_def example_world_def)
  ultimately show ?thesis
    using vu(1,3) by blast
qed

end
