(* ===== verification/Root_Control.thy ===== *)
theory Root_Control
  imports Deinstrumentation
begin

text \<open>
  What starting and stopping a graph does to the threads of the nodes below its root: each runnable
  node is started once, consumers before the producers that feed them, and stopping ends every
  thread. A root that can be reached from itself starts itself again and never returns.
\<close>

section \<open>Operations that do not throw\<close>

text \<open>\<open>quiet P r\<close>: the operation does not throw, and if it returns, then in a state with \<open>P\<close>.\<close>

fun quiet :: "('s \<Rightarrow> bool) \<Rightarrow> ('e, 's, 'a) outcome \<Rightarrow> bool" where
  "quiet P (Returns a s) = P s"
| "quiet P (Throws e s) = False"
| "quiet P NoReturn = True"

lemma quiet_andthen: "quiet P r \<Longrightarrow> (\<And>s. P s \<Longrightarrow> quiet Q (f s)) \<Longrightarrow> quiet Q (andthen r f)"
  by (cases r) auto

lemma quiet_mono: "quiet P r \<Longrightarrow> (\<And>s. P s \<Longrightarrow> Q s) \<Longrightarrow> quiet Q r"
  by (cases r) auto

lemma quiet_ends: "quiet P r \<Longrightarrow> ends P r"
  by (cases r) auto

lemma quiet_for_each:
  "P s \<Longrightarrow> (\<And>x s. x \<in> set xs \<Longrightarrow> P s \<Longrightarrow> quiet P (f x s)) \<Longrightarrow> quiet P (for_each f xs s)"
  by (induction xs arbitrary: s) (auto intro!: quiet_andthen)

lemma quiet_on_world: "quiet P (f (fst t)) \<Longrightarrow> quiet (\<lambda>t. P (fst t)) (on_world f t)"
  by (cases t; cases "f (fst t)") auto

lemma quiet_without_visited: "quiet (\<lambda>t. P (fst t)) r \<Longrightarrow> quiet P (without_visited r)"
  by (cases r) auto

lemma quiet_step_nodes:
  assumes "\<And>n l s. P s \<Longrightarrow> quiet P (f n l s)"
  shows "P s \<Longrightarrow> quiet (\<lambda>t. P (fst t)) (step_nodes k f fwd l n (s, V))"
proof (induction k arbitrary: l n s V)
  case 0
  then show ?case by simp
next
  case (Suc k)
  have rec: "quiet (\<lambda>t. P (fst t)) (for_each (step_nodes k f fwd (Suc l)) cs (t, W))" if "P t" for cs t W
    by (rule quiet_for_each) (use that Suc.IH in \<open>auto\<close>)
  have one: "quiet (\<lambda>t. P (fst t)) (on_world (f n l) t)" if "P (fst t)" for t :: "('a world \<times> 'b) \<times> nid set"
    by (rule quiet_on_world, rule assms, rule that)
  have "quiet (\<lambda>t. P (fst t)) (andthen (on_world (f n l) (s, insert n V)) (for_each (step_nodes k f fwd (Suc l)) cs))"
      "quiet (\<lambda>t. P (fst t)) (andthen (for_each (step_nodes k f fwd (Suc l)) cs (s, insert n V)) (on_world (f n l)))" for cs
    by (rule quiet_andthen, rule one, use Suc.prems rec in auto)
       (rule quiet_andthen, rule rec, use Suc.prems one in auto)
  then show ?case
    using Suc.prems by (cases fwd) (simp_all add: Let_def del: on_world.simps)
qed

lemma quiet_walk_world:
  assumes "\<And>n w. P w \<Longrightarrow> quiet P (f n w)" and "P w"
  shows "quiet P (walk_world k f fwd self w)"
proof -
  have "quiet (\<lambda>s. P (fst s)) (on_world (f n) s)" if "P (fst s)" for n and s :: "'a world \<times> unit"
    by (rule quiet_on_world, rule assms, rule that)
  then have "quiet (\<lambda>t. P (fst (fst t))) (for_each (step_nodes k (\<lambda>n l. on_world (f n)) fwd 0) xs ((w, ()), {}))" for xs
    by (intro quiet_for_each) (use assms(2) in \<open>auto intro: quiet_step_nodes [where P = "\<lambda>s. P (fst s)"] simp del: on_world.simps\<close>)
  then show ?thesis
    unfolding walk_world_def walk_nodes_def
    by (intro quiet_without_visited) simp
qed

section \<open>The frame of starting\<close>

definition is_root :: "'u world \<Rightarrow> nid \<Rightarrow> bool" where
  "is_root w n \<longleftrightarrow> (\<exists>r. class_part (heap w n) = GraphRoot r)"

definition same_shape :: "'u world \<Rightarrow> 'u world \<Rightarrow> bool" where
  "same_shape w v \<longleftrightarrow>
     (\<forall>n. get_observers v n = get_observers w n \<and> is_runnable v n = is_runnable w n \<and> is_root v n = is_root w n)"

lemma same_shape_refl [simp]: "same_shape w w"
  by (simp add: same_shape_def)

lemma same_shape_trans: "same_shape w v \<Longrightarrow> same_shape v u \<Longrightarrow> same_shape w u"
  by (simp add: same_shape_def)

lemma same_shape_update_runnable: "same_shape w (update_runnable f n w)"
  by (simp add: same_shape_def update_runnable_def is_runnable_def is_root_def set_node_def get_observers_def)

lemma same_shape_log_line: "same_shape w (log_line b msg w)"
  by (simp add: same_shape_def log_line_def is_runnable_def is_root_def get_observers_def)

lemma same_shape_update_root: "is_root w n \<Longrightarrow> same_shape w (update_root f n w)"
  by (auto simp: same_shape_def update_root_def is_runnable_def is_root_def set_node_def get_observers_def)

lemma virtual_call_root: "is_root w n \<Longrightarrow> virtual_call rc nc n w = rc n w"
  by (auto simp: virtual_call_def is_root_def)

lemma virtual_call_node: "\<not> is_root w n \<Longrightarrow> virtual_call rc nc n w = Returns () (nc n w)"
  by (auto simp: virtual_call_def is_root_def split: node_class.split)

lemma quiet_visit_runnable:
  assumes "\<And>n w. is_root w n \<Longrightarrow> quiet (same_shape w) (rc n w)" and "\<And>n w. same_shape w (nc n w)"
  shows "quiet (same_shape w) (visit_runnable doing rc nc dbg run n w)"
proof -
  let ?w = "log_line dbg (''GraphRoot '' @ doing @ '' '' @ node_name (heap w n)) w"
  have "quiet (same_shape ?w) (virtual_call rc nc n ?w)"
    using assms by (cases "is_root ?w n") (simp_all add: virtual_call_root virtual_call_node)
  then have "quiet (same_shape w) (virtual_call rc nc n ?w)"
    by (rule quiet_mono) (rule same_shape_trans [OF same_shape_log_line])
  then show ?thesis
    by (simp add: visit_runnable_def)
qed

lemma quiet_start_all:
  "is_root w self \<Longrightarrow> quiet (same_shape w) (start_all d k thread_fn None self w)"
proof (induction d arbitrary: w self)
  case 0
  then show ?case by simp
next
  case (Suc d)
  let ?w = "update_root (\<lambda>r. r\<lparr>node_to_run := None\<rparr>) self w"
    and ?f = "visit_runnable ''starting'' (start_all d k thread_fn None) node_start (debug (root_of w self)) None"
  have "quiet (same_shape v) (?f n v)" for n and v :: "'a world"
    using Suc.IH same_shape_update_runnable unfolding node_start_def by (intro quiet_visit_runnable) auto
  then have "quiet (same_shape w) (?f n v)" if "same_shape w v" for n v
    using that by (blast intro: quiet_mono same_shape_trans)
  then have "quiet (same_shape w) (walk_world k ?f False self ?w)"
    using same_shape_update_root [OF Suc.prems] by (rule quiet_walk_world)
  then show ?case
    by (auto simp: Let_def intro!: quiet_andthen)
qed

section \<open>The walk over threads\<close>

definition chosen :: "nid option \<Rightarrow> 'u world \<Rightarrow> nid \<Rightarrow> bool" where
  "chosen run w n \<longleftrightarrow> is_runnable w n \<and> Some n \<noteq> run"

definition on_threads :: "(runnable \<Rightarrow> runnable) \<Rightarrow> nid set \<Rightarrow> 'u world \<Rightarrow> 'u world" where
  "on_threads g A w = w\<lparr>heap := \<lambda>n. if n \<in> A
     then (heap w n)\<lparr>thread_part := map_option g (thread_part (heap w n))\<rparr> else heap w n\<rparr>"

definition announced :: "bool \<Rightarrow> string \<Rightarrow> nid list \<Rightarrow> 'u world \<Rightarrow> 'u world" where
  "announced dbg doing ns w =
     (if dbg then w\<lparr>console := console w @ map (\<lambda>n. ''GraphRoot '' @ doing @ '' '' @ node_name (heap w n)) ns\<rparr> else w)"

lemma announced_simps [simp]:
  "heap (announced dbg doing ns w) = heap w"
  "get_observers (announced dbg doing ns w) = get_observers w"
  by (simp_all add: announced_def get_observers_def fun_eq_iff)

lemma on_threads_simps [simp]:
  "get_observers (on_threads g A w) = get_observers w"
  "is_runnable (on_threads g A w) n = is_runnable w n"
  "is_root (on_threads g A w) n = is_root w n"
  "node_name (heap (on_threads g A w) n) = node_name (heap w n)"
  "class_part (heap (on_threads g A w) n) = class_part (heap w n)"
  "console (on_threads g A w) = console w"
  "heap (on_threads g A w) n =
     (if n \<in> A then (heap w n)\<lparr>thread_part := map_option g (thread_part (heap w n))\<rparr> else heap w n)"
  by (simp_all add: on_threads_def get_observers_def is_runnable_def is_root_def fun_eq_iff)

lemma announced_again:
  "n \<notin> A \<Longrightarrow> announced dbg doing ns (on_threads g A (announced dbg doing [n] (on_threads g {n} w))) =
     announced dbg doing (n # ns) (on_threads g (insert n A) w)"
  by (auto simp: announced_def on_threads_def fun_eq_iff)

lemma visit_list:
  assumes "distinct xs" and "\<And>n. n \<in> set xs \<Longrightarrow> \<not> is_root w n"
  shows "for_each (visit_runnable doing rc (update_runnable g) dbg run) xs w =
    Returns () (announced dbg doing (filter (chosen run w) xs) (on_threads g (set (filter (chosen run w) xs)) w))"
  using assms
proof (induction xs arbitrary: w)
  case Nil
  then show ?case by (simp add: announced_def on_threads_def)
next
  case (Cons n xs)
  show ?case
  proof (cases "chosen run w n")
    case False
    moreover from this have "visit_runnable doing rc (update_runnable g) dbg run n w = Returns () w"
      by (auto simp: visit_runnable_def chosen_def)
    ultimately show ?thesis
      using Cons by simp
  next
    case True
    let ?w = "log_line dbg (''GraphRoot '' @ doing @ '' '' @ node_name (heap w n)) w"
    let ?v = "update_runnable g n ?w"
    have v: "?v = announced dbg doing [n] (on_threads g {n} w)"
      by (simp add: announced_def on_threads_def log_line_def update_runnable_def set_node_def fun_eq_iff)
    have "\<not> is_root ?w n"
      using Cons.prems(2) [of n] by (simp add: is_root_def log_line_def)
    then have "visit_runnable doing rc (update_runnable g) dbg run n w = Returns () ?v"
      using True by (simp add: visit_runnable_def chosen_def virtual_call_node)
    moreover have "chosen run ?v = chosen run w"
      unfolding v by (simp add: fun_eq_iff chosen_def is_runnable_def)
    moreover have "\<not> is_root ?v m" if "m \<in> set xs" for m
      unfolding v using that Cons.prems(2) [of m] by (auto simp: is_root_def)
    ultimately have "for_each (visit_runnable doing rc (update_runnable g) dbg run) (n # xs) w =
        Returns () (announced dbg doing (filter (chosen run w) xs) (on_threads g (set (filter (chosen run w) xs)) ?v))"
      using Cons.IH [of ?v] Cons.prems(1) by simp
    moreover have "n \<notin> set (filter (chosen run w) xs)"
      using Cons.prems(1) by simp
    ultimately show ?thesis
      using True unfolding v by (simp add: announced_again)
  qed
qed

text \<open>The walks of a root see the same callback on every graph without roots below it.\<close>

lemma andthen_same:
  assumes "r = r' \<and> ends P r'" and "\<And>s. P s \<Longrightarrow> f s = g s \<and> ends P (g s)"
  shows "andthen r f = andthen r' g \<and> ends P (andthen r' g)"
  using assms by (cases r') auto

lemma for_each_same:
  assumes "\<And>x s. x \<in> set xs \<Longrightarrow> P s \<Longrightarrow> f x s = g x s \<and> ends P (g x s)" and "P s"
  shows "for_each f xs s = for_each g xs s \<and> ends P (for_each g xs s)"
  using assms
proof (induction xs arbitrary: s)
  case Nil
  then show ?case by simp
next
  case (Cons x xs)
  show ?case
    unfolding for_each.simps by (rule andthen_same) (use Cons in simp_all)
qed

lemma step_nodes_same:
  assumes "\<And>n l s. n \<in> N \<Longrightarrow> P s \<Longrightarrow> f n l s = g n l s \<and> ends P (g n l s)"
    and "\<And>n s. n \<in> N \<Longrightarrow> P s \<Longrightarrow> set (get_observers (fst s) n) \<subseteq> N"
  shows "n \<in> N \<Longrightarrow> P (fst s) \<Longrightarrow>
    step_nodes k f fwd l n s = step_nodes k g fwd l n s \<and> ends (\<lambda>t. P (fst t)) (step_nodes k g fwd l n s)"
proof (induction k arbitrary: l n s)
  case 0
  then show ?case by simp
next
  case (Suc k)
  let ?P = "\<lambda>t. P (fst t)"
  obtain t V where s: "s = (t, V)" by (cases s)
  have rec: "for_each (step_nodes k f fwd (Suc l)) cs u = for_each (step_nodes k g fwd (Suc l)) cs u \<and>
      ends ?P (for_each (step_nodes k g fwd (Suc l)) cs u)" if "set cs \<subseteq> N" "?P u" for cs u
    by (rule for_each_same) (use that Suc.IH in blast)+
  have one: "on_world (f n l) u = on_world (g n l) u \<and> ends ?P (on_world (g n l) u)" if "?P u" for u
    using assms(1) [OF Suc.prems(1) that, of l] by (cases u; cases "g n l (fst u)") auto
  have cs: "set (get_observers (fst t) n) \<subseteq> N"
    using assms(2) Suc.prems s by simp
  have 1: "andthen (on_world (f n l) u) (for_each (step_nodes k f True (Suc l)) (get_observers (fst t) n)) =
      andthen (on_world (g n l) u) (for_each (step_nodes k g True (Suc l)) (get_observers (fst t) n)) \<and>
      ends ?P (andthen (on_world (g n l) u) (for_each (step_nodes k g True (Suc l)) (get_observers (fst t) n)))"
    if "?P u" fwd for u
    using that by (intro andthen_same one) (use rec [OF cs] in simp_all)
  have 2: "andthen (for_each (step_nodes k f False (Suc l)) (get_observers (fst t) n) u) (on_world (f n l)) =
      andthen (for_each (step_nodes k g False (Suc l)) (get_observers (fst t) n) u) (on_world (g n l)) \<and>
      ends ?P (andthen (for_each (step_nodes k g False (Suc l)) (get_observers (fst t) n) u) (on_world (g n l)))"
    if "?P u" "\<not> fwd" for u
    using rec [OF cs that(1)] that(2) by (intro andthen_same one) simp_all
  show ?case
    using Suc.prems 1 [of "(t, insert n V)"] 2 [of "(t, insert n V)"]
    by (cases fwd) (simp_all add: s Let_def del: on_world.simps)
qed

lemma for_each_on_world:
  "for_each (\<lambda>(n, l). on_world (h n)) xs (w, v) = on_world (for_each h (map fst xs)) (w, v)"
proof (induction xs arbitrary: w)
  case Nil
  then show ?case by simp
next
  case (Cons x xs)
  then show ?case
    by (cases x; cases "h (fst x) w") auto
qed

abbreviation visits :: "string \<Rightarrow> (nid \<Rightarrow> 'u act) \<Rightarrow> (runnable \<Rightarrow> runnable) \<Rightarrow> bool \<Rightarrow> nid option \<Rightarrow>
    nid \<Rightarrow> nat \<Rightarrow> 'u world \<times> unit \<Rightarrow> ('u, unit) ending" where
  "visits doing rc g dbg run n l \<equiv> on_world (visit_runnable doing rc (update_runnable g) dbg run n)"

lemma visits_same_shape:
  assumes "same_shape w (fst s)" and "\<And>n w. is_root w n \<Longrightarrow> quiet (same_shape w) (rc n w)"
  shows "ends (\<lambda>t. same_shape w (fst t)) (visits doing rc g dbg run n l s)"
proof (rule quiet_ends, rule quiet_on_world)
  have "quiet (same_shape (fst s)) (visit_runnable doing rc (update_runnable g) dbg run n (fst s))"
    using assms(2) same_shape_update_runnable by (rule quiet_visit_runnable)
  then show "quiet (same_shape w) (visit_runnable doing rc (update_runnable g) dbg run n (fst s))"
    by (rule quiet_mono) (rule same_shape_trans [OF assms(1)])
qed

lemma graph_keeping_visits:
  assumes "\<And>n w. is_root w n \<Longrightarrow> quiet (same_shape w) (rc n w)"
  shows "graph_keeping (visits doing rc g dbg run)"
  by unfold_locales
    (rule ends_mono [OF visits_same_shape [OF same_shape_refl assms]], auto simp: same_shape_def)

lemma walk_threads:
  fixes w :: "'u world"
  assumes "\<forall>n \<in> below w self. \<not> is_root w n"
    and "finite N" and "\<forall>x \<in> N. set (get_observers w x) \<subseteq> N" and "self \<in> N" and "card N < k"
  obtains xs where "walk_order k (get_observers w) fwd self = Some xs"
    and "distinct (map fst xs)" and "set (map fst xs) = below w self"
    and "walk_world k (visit_runnable doing rc (update_runnable g) dbg run) fwd self w =
      Returns () (announced dbg doing (filter (chosen run w) (map fst xs)) (on_threads g {n \<in> below w self. chosen run w n} w))"
proof -
  let ?rc = "\<lambda>n w. Returns () w :: (error, 'u world, unit) outcome"
  have rc: "graph_keeping (visits doing ?rc g dbg run)"
    by (rule graph_keeping_visits) simp
  obtain xs where xs: "walk_order k (get_observers w) fwd self = Some xs"
      "walk_nodes k (visits doing ?rc g dbg run) fwd self (w, ()) = for_each (\<lambda>(n, l). visits doing ?rc g dbg run n l) xs (w, ())"
      "distinct (map fst xs)" "set (map fst xs) = below w self"
    by (rule walk_visits [OF rc, of N "(w, ())" self k fwd]) (use assms(2-5) in \<open>simp_all add: below_def\<close>)
  have same: "visits doing rc g dbg run n l s = visits doing ?rc g dbg run n l s \<and>
      ends (\<lambda>t. same_shape w (fst t)) (visits doing ?rc g dbg run n l s)"
    if "n \<in> below w self" "same_shape w (fst s)" for n and l :: nat and s
  proof -
    have "\<not> is_root (fst s) n"
      using assms(1) that by (simp add: same_shape_def)
    then have "visit_runnable doing rc (update_runnable g) dbg run n (fst s) = visit_runnable doing ?rc (update_runnable g) dbg run n (fst s)"
      by (simp add: visit_runnable_def virtual_call_node is_root_def log_line_def)
    moreover have "ends (\<lambda>t. same_shape w (fst t)) (visits doing ?rc g dbg run n l s)"
      using that(2) by (rule visits_same_shape) simp
    ultimately show ?thesis
      by (cases s) simp
  qed
  have closed: "set (get_observers (fst s) n) \<subseteq> below w self" if "n \<in> below w self" "same_shape w (fst s)" for n and s :: "'u world \<times> unit"
    using that by (auto simp: same_shape_def below_def graph_edges_def intro: trancl_into_trancl)
  have "for_each (step_nodes k (visits doing rc g dbg run) fwd 0) (get_observers w self) ((w, ()), {}) =
      for_each (step_nodes k (visits doing ?rc g dbg run) fwd 0) (get_observers w self) ((w, ()), {})"
  proof (rule for_each_same [where P = "\<lambda>s. same_shape w (fst (fst s))", THEN conjunct1])
    show "step_nodes k (visits doing rc g dbg run) fwd 0 n s = step_nodes k (visits doing ?rc g dbg run) fwd 0 n s \<and>
        ends (\<lambda>s. same_shape w (fst (fst s))) (step_nodes k (visits doing ?rc g dbg run) fwd 0 n s)"
      if "n \<in> set (get_observers w self)" "same_shape w (fst (fst s))" for n s
    proof (rule step_nodes_same [where N = "below w self" and P = "\<lambda>s. same_shape w (fst s)"])
      show "n \<in> below w self"
        using that(1) by (auto simp: below_def graph_edges_def)
    qed (use same closed that(2) in blast)+
  qed simp
  then have "walk_world k (visit_runnable doing rc (update_runnable g) dbg run) fwd self w =
      without_visited (on_world (for_each (visit_runnable doing ?rc (update_runnable g) dbg run) (map fst xs)) (w, ()))"
    using xs(2) by (simp add: walk_world_def walk_nodes_def for_each_on_world)
  moreover have "{n \<in> below w self. chosen run w n} = set (filter (chosen run w) (map fst xs))"
    using xs(4) by auto
  ultimately show ?thesis
    using that [OF xs(1,3,4)] visit_list [OF xs(3), of w doing ?rc g dbg run] assms(1) xs(4) by simp
qed

section \<open>The order of starting\<close>

lemma children_first_prefix: "children_first G V (xs @ ys) \<Longrightarrow> children_first G V xs"
  by (auto simp: children_first_def)

lemma below_first:
  assumes "children_first G {} (ys @ n # zs)" and "(n, m) \<in> (graph_edges G)\<^sup>+"
  shows "m \<in> set ys"
  using assms(2)
proof (induction rule: trancl_induct)
  case (base m)
  then show ?case
    using assms(1) by (auto simp: children_first_def graph_edges_def)
next
  case (step m c)
  then obtain us vs where "ys = us @ m # vs"
    by (auto dest: split_list)
  moreover have "children_first G {} ys"
    using assms(1) by (rule children_first_prefix)
  ultimately have "set (G m) \<subseteq> set us" "set us \<subseteq> set ys"
    by (auto simp: children_first_def)
  with step(2) show ?case
    by (auto simp: graph_edges_def)
qed

lemma filter_splits:
  "filter p xs = ys @ zs \<Longrightarrow> \<exists>us vs. xs = us @ vs \<and> ys = filter p us \<and> zs = filter p vs"
proof (induction ys arbitrary: xs)
  case Nil
  then show ?case by (intro exI [of _ "[]"] exI [of _ xs]) simp
next
  case (Cons y ys)
  then obtain as bs where as: "xs = as @ y # bs" "\<forall>a \<in> set as. \<not> p a" "p y" "filter p bs = ys @ zs"
    by (auto simp: filter_eq_Cons_iff)
  from Cons.IH [OF as(4)] obtain us vs where "bs = us @ vs" "ys = filter p us" "zs = filter p vs"
    by blast
  with as(1-3) show ?case
    by (intro exI [of _ "as @ y # us"] exI [of _ vs]) simp
qed

lemma below_first_filter:
  assumes "children_first G {} xs" and "filter p xs = ys @ n # zs" and "(n, m) \<in> (graph_edges G)\<^sup>+" and "p m"
  shows "m \<in> set ys"
proof -
  obtain us vs where "xs = us @ vs" "ys = filter p us" "n # zs = filter p vs"
    using filter_splits [OF assms(2)] by blast
  moreover from this obtain as bs where "vs = as @ n # bs" "\<forall>a \<in> set as. \<not> p a"
    by (auto simp: Cons_eq_filter_iff)
  ultimately have "children_first G {} ((us @ as) @ n # bs)" "\<forall>a \<in> set as. \<not> p a" "ys = filter p us"
    using assms(1) by auto
  then show ?thesis
    using below_first [of G "us @ as" n bs m] assms(3,4) by auto
qed

section \<open>A root that can be reached from itself\<close>

lemma for_each_stuck:
  assumes "x \<in> set xs" and "P s" and "\<And>y s. P s \<Longrightarrow> quiet P (f y s)" and "\<And>s. P s \<Longrightarrow> f x s = NoReturn"
  shows "for_each f xs s = NoReturn"
  using assms(1,2)
proof (induction xs arbitrary: s)
  case Nil
  then show ?case by simp
next
  case (Cons y ys)
  show ?case
  proof (cases "y = x")
    case True
    then show ?thesis
      using assms(4) Cons.prems(2) by simp
  next
    case False
    then show ?thesis
      using Cons assms(3) [OF Cons.prems(2), of y] by (cases "f y s") auto
  qed
qed

lemma below_same_shape: "same_shape w v \<Longrightarrow> below v self = below w self"
  by (simp add: same_shape_def below_def graph_edges_def)

lemma start_all_stuck:
  assumes "is_root w self" and "is_runnable w self" and "self \<in> below w self"
    and "finite N" and "\<forall>x \<in> N. set (get_observers w x) \<subseteq> N" and "self \<in> N" and "card N < k"
  shows "start_all d k thread_fn None self w = NoReturn"
  using assms(1-3,5)
proof (induction d arbitrary: w)
  case 0
  then show ?case by simp
next
  case (Suc d)
  let ?rc = "start_all d k thread_fn None" and ?dbg = "debug (root_of w self)"
  define v where "v = update_root (\<lambda>r. r\<lparr>node_to_run := None\<rparr>) self w"
  have v: "same_shape w v"
    unfolding v_def by (rule same_shape_update_root [OF Suc.prems(1)])
  then have prems: "is_root v self" "is_runnable v self" "self \<in> below v self" "\<forall>x \<in> N. set (get_observers v x) \<subseteq> N"
    using Suc.prems below_same_shape [OF v] by (simp_all add: same_shape_def)
  let ?f = "visit_runnable ''starting'' ?rc (update_runnable start_thread) ?dbg None"
  have "graph_keeping (visits ''starting'' ?rc start_thread ?dbg None)"
    by (rule graph_keeping_visits) (rule quiet_start_all)
  then obtain xs where xs: "walk_nodes k (visits ''starting'' ?rc start_thread ?dbg None) False self (v, ()) =
        for_each (\<lambda>(n, l). visits ''starting'' ?rc start_thread ?dbg None n l) xs (v, ())"
      "set (map fst xs) = below v self"
    by (rule walk_visits [of _ N "(v, ())" self k False]) (use assms(4,6,7) prems(4) in \<open>simp_all add: below_def\<close>)
  have "for_each ?f (map fst xs) v = NoReturn"
  proof (rule for_each_stuck [where x = self and P = "same_shape v"])
    show "self \<in> set (map fst xs)"
      using prems(3) xs(2) by simp
    show "quiet (same_shape v) (?f n u)" if "same_shape v u" for n u
      by (rule quiet_mono, rule quiet_visit_runnable, erule quiet_start_all, rule same_shape_update_runnable)
        (rule same_shape_trans [OF that])
    show "?f self u = NoReturn" if u: "same_shape v u" for u
    proof -
      let ?u = "log_line ?dbg (''GraphRoot starting '' @ node_name (heap u self)) u"
      have shape: "same_shape v ?u"
        by (rule same_shape_trans [OF u same_shape_log_line])
      then have "is_root ?u self" "is_runnable ?u self" "self \<in> below ?u self" "\<forall>x \<in> N. set (get_observers ?u x) \<subseteq> N"
        using prems below_same_shape [OF shape] by (simp_all add: same_shape_def)
      moreover from this have "?rc self ?u = NoReturn"
        by (rule Suc.IH)
      moreover have "is_runnable u self"
        using u prems(2) by (simp add: same_shape_def)
      ultimately show ?thesis
        by (simp add: visit_runnable_def virtual_call_root)
    qed
  qed simp
  then have "walk_world k ?f False self v = NoReturn"
    using xs(1) by (simp add: walk_world_def for_each_on_world)
  then show ?case
    by (simp add: Let_def v_def node_start_def)
qed

section \<open>Properties\<close>

text \<open>C6: Starting a graph without further roots below its root starts every runnable node below the root exactly
  once, and nothing else, and announces them in that order if the root is in debug mode. On a graph without
  cycles a node is started after everything it feeds. Stopping the graph then leaves each of
  them without a thread and asked to stop.\<close>

theorem root_starts_and_stops_threads:
  assumes "class_part (heap w self) = GraphRoot r" and "\<not> metrics_instrumented r"
    and "\<forall>n \<in> below w self. \<not> is_root w n"
    and "finite N" and "\<forall>x \<in> N. set (get_observers w x) \<subseteq> N" and "self \<in> N" and "card N < k"
  shows "\<exists>ns v u. graph_start (Suc d) k thread_fn self w = Returns () v \<and>
    distinct ns \<and> set ns = {n \<in> below w self. is_runnable w n} \<and>
    (\<forall>n. thread_part (heap v n) =
       (if n \<in> set ns then map_option start_thread (thread_part (heap w n)) else thread_part (heap w n))) \<and>
    (debug r \<longrightarrow> console v = console w @ map (\<lambda>n. ''GraphRoot starting '' @ node_name (heap w n)) ns) \<and>
    (acyclic (graph_edges (get_observers w)) \<longrightarrow>
       (\<forall>ys n zs. ns = ys @ n # zs \<longrightarrow> {m \<in> below w n. is_runnable w m} \<subseteq> set ys)) \<and>
    graph_stop (Suc d) k self v = Returns () u \<and>
    (\<forall>n. thread_part (heap u n) =
       (if n \<in> set ns then Some \<lparr>my_thread = None, stop_signal = True\<rparr> else thread_part (heap w n)))"
proof -
  let ?G = "get_observers w" and ?w = "update_root (\<lambda>r. r\<lparr>node_to_run := None\<rparr>) self w"
    and ?R = "below w self" and ?stop = "\<lambda>r. end_stop (begin_stop r)"
  have shape: "same_shape w ?w"
    using assms(1) by (intro same_shape_update_root) (simp add: is_root_def)
  then have w: "get_observers ?w = ?G" "below ?w self = ?R" "\<forall>n \<in> ?R. \<not> is_root ?w n" "chosen None ?w = is_runnable w"
    using assms(3) below_same_shape [OF shape] by (auto simp: same_shape_def chosen_def fun_eq_iff)
  let ?A = "{n \<in> ?R. is_runnable w n}"
  obtain xs where xs: "walk_order k ?G False self = Some xs" "distinct (map fst xs)" "set (map fst xs) = ?R"
      "walk_world k (visit_runnable ''starting'' (start_all d k thread_fn None) (update_runnable start_thread) (debug r) None) False self ?w =
        Returns () (announced (debug r) ''starting'' (filter (is_runnable w) (map fst xs)) (on_threads start_thread ?A ?w))"
    by (rule walk_threads [of ?w self N k False "''starting''" _ start_thread "debug r" None]) (use assms(4-7) w in simp_all)
  let ?ns = "filter (is_runnable w) (map fst xs)"
  define v where "v = announced (debug r) ''starting'' ?ns (on_threads start_thread ?A ?w)"
  have started: "graph_start (Suc d) k thread_fn self w = Returns () v"
    using xs(4) assms(1) by (simp add: graph_start_def node_start_def v_def)
  have v: "get_observers v = ?G" "is_root v = is_root ?w" "chosen None v = is_runnable w"
      "class_part (heap v self) = GraphRoot (r\<lparr>node_to_run := None\<rparr>)"
    using w(1,4) assms(1) by (simp_all add: v_def fun_eq_iff is_root_def chosen_def is_runnable_def update_root_def)
  have "below v self = ?R"
    by (simp add: below_def v(1))
  obtain us :: "(nid \<times> nat) list" where "walk_world k (visit_runnable ''stopping'' (graph_stop d k) (update_runnable ?stop) (debug r) None) True self v =
      Returns () (announced (debug r) ''stopping'' (filter (is_runnable w) (map fst us)) (on_threads ?stop ?A v))"
    by (rule walk_threads [of v self N k True "''stopping''" "graph_stop d k" ?stop "debug r" None],
        use assms(4-7) w v \<open>below v self = ?R\<close> in simp_all)
  then have stopped: "graph_stop (Suc d) k self v =
      Returns () (announced (debug r) ''stopping'' (filter (is_runnable w) (map fst us)) (on_threads ?stop ?A v))"
    using v(4) assms(2) by (simp add: node_stop_and_join_def)
  have "{m \<in> below w n. is_runnable w m} \<subseteq> set ys" if "acyclic (graph_edges ?G)" "?ns = ys @ n # zs" for ys n zs
    using below_first_filter [OF walk_order_children_first [OF that(1) xs(1)] that(2)] by (auto simp: below_def)
  moreover have w_node: "thread_part (heap ?w n) = thread_part (heap w n)" "node_name (heap ?w n) = node_name (heap w n)"
      "console ?w = console w" for n
    by (simp_all add: update_root_def set_node_def)
  moreover have "?stop (start_thread t) = \<lparr>my_thread = None, stop_signal = True\<rparr>" for t
    by (cases t) (auto simp: start_thread_def begin_stop_def end_stop_def request_stop_def)
  then have "map_option ?stop (map_option start_thread (thread_part (heap w n))) = Some \<lparr>my_thread = None, stop_signal = True\<rparr>"
    if "is_runnable w n" for n
    using that by (auto simp: is_runnable_def)
  ultimately show ?thesis
    using started stopped xs(2,3)
    by (intro exI [of _ ?ns] exI [of _ v] exI [of _ "announced (debug r) ''stopping'' (filter (is_runnable w) (map fst us)) (on_threads ?stop ?A v)"])
      (simp add: v_def announced_def)
qed

definition control_world :: "(nid \<Rightarrow> nid list) \<Rightarrow> unit world" where
  "control_world G =
     (let root = \<lparr>metrics_instrumented = False, metrics_publishing_frequency_hz = 1, metrics_trigger = None,
                  metrics_aggregator = None, metrics_publisher = None, debug = True, node_to_run = None\<rparr>;
          w = example_world G ((\<lambda>_. PlainNode)(0 := GraphRoot root, 1 := PlainRunnable, 3 := PlainRunnable))
      in w\<lparr>heap := \<lambda>n. if n \<in> {0, 1, 3} then (heap w n)\<lparr>thread_part := new_thread_part\<rparr> else heap w n\<rparr>)"

lemma control_world_simps [simp]:
  "get_observers (control_world G) = G"
  "is_runnable (control_world G) n = (n \<in> {0, 1, 3})"
  "is_root (control_world G) n = (n = 0)"
  "node_name (heap (control_world G) n) = [char_of (97 + n)]"
  "console (control_world G) = []"
  by (simp_all add: control_world_def example_world_def example_node_def get_observers_def is_runnable_def is_root_def
      new_thread_part_def fun_eq_iff Let_def)

lemma two_in_order:
  assumes "distinct ns" and "set ns = {a, b}" and "a \<noteq> b" and "\<And>zs. ns \<noteq> a # zs"
  shows "ns = [b, a]"
proof -
  have "length ns = 2"
    using assms(1-3) by (metis card_2_iff distinct_card)
  then obtain x y where "ns = [x, y]"
    by (auto simp: length_Suc_conv numeral_2_eq_2)
  with assms show ?thesis
    by (auto simp: doubleton_eq_iff)
qed

theorem root_starts_and_stops_threads_witness:
  "\<exists>v u. graph_start 1 5 (\<lambda>_. Returns ()) 0 (control_world diamond) = Returns () v \<and>
    console v = [''GraphRoot starting d'', ''GraphRoot starting b''] \<and>
    thread_part (heap v 1) = Some \<lparr>my_thread = Some Running, stop_signal = False\<rparr> \<and>
    graph_stop 1 5 0 v = Returns () u \<and> thread_part (heap u 1) = Some \<lparr>my_thread = None, stop_signal = True\<rparr>"
proof -
  let ?w = "control_world diamond"
  have "acyclic (graph_edges diamond)"
    using acyclic_diamond by (simp add: graph_edges_def diamond_edges)
  have below: "below ?w 0 \<subseteq> {1, 2, 3}" "1 \<in> below ?w 0" "3 \<in> below ?w 0" "3 \<in> below ?w 1"
  proof -
    show "below ?w 0 \<subseteq> {1, 2, 3}"
      unfolding below_def by (rule reach_least) (auto simp: diamond_def)
    have "(0, 1) \<in> graph_edges diamond" "(1, 3) \<in> graph_edges diamond"
      by (auto simp: graph_edges_def diamond_def)
    then show "1 \<in> below ?w 0" "3 \<in> below ?w 0" "3 \<in> below ?w 1"
      by (auto simp: below_def)
  qed
  obtain r where r: "class_part (heap ?w 0) = GraphRoot r" "\<not> metrics_instrumented r" "debug r"
    by (simp add: control_world_def example_world_def example_node_def Let_def)
  have "\<forall>n \<in> below ?w 0. \<not> is_root ?w n" "\<forall>x \<in> {0, 1, 2, 3}. set (get_observers ?w x) \<subseteq> {0, 1, 2, 3}"
    using below(1) by (auto simp: diamond_def)
  from root_starts_and_stops_threads [OF r(1,2) this(1) _ this(2), of 5 0 "\<lambda>_. Returns ()"]
  obtain ns v u where ns: "graph_start 1 5 (\<lambda>_. Returns ()) 0 ?w = Returns () v" "distinct ns"
      "set ns = {n \<in> below ?w 0. is_runnable ?w n}" "thread_part (heap v 1) = map_option start_thread (thread_part (heap ?w 1))"
      "console v = map (\<lambda>n. ''GraphRoot starting '' @ [char_of (97 + n)]) ns"
      "\<And>ys n zs. ns = ys @ n # zs \<Longrightarrow> {m \<in> below ?w n. is_runnable ?w m} \<subseteq> set ys"
      "graph_stop 1 5 0 v = Returns () u" "thread_part (heap u 1) = Some \<lparr>my_thread = None, stop_signal = True\<rparr>"
    using r(3) \<open>acyclic _\<close> below(2) by auto
  have "ns = [3, 1]"
  proof (rule two_in_order [OF ns(2)])
    show "set ns = {1, 3}"
      using ns(3) below by auto
    show "ns \<noteq> 1 # zs" for zs
      using ns(6) [of "[]" 1 zs] below(4) by auto
  qed simp
  moreover have "thread_part (heap ?w 1) = new_thread_part"
    by (simp add: control_world_def Let_def)
  moreover have "char_of (97 + 3 :: nat) = CHR ''d''" "char_of (97 + 1 :: nat) = CHR ''b''"
    by code_simp+
  ultimately show ?thesis
    using ns(1,4,5,7,8) by (simp add: new_thread_part_def start_thread_def del: graph_stop.simps)
qed

text \<open>C31: Starting a graph whose root can be reached from itself does not return: the walk comes to the root, a
  runnable node like any other, and starts the graph again.\<close>

theorem root_below_itself_never_starts:
  assumes "is_root w self" and "is_runnable w self" and "self \<in> below w self"
    and "finite N" and "\<forall>x \<in> N. set (get_observers w x) \<subseteq> N" and "self \<in> N" and "card N < k"
  shows "graph_start d k thread_fn self w = NoReturn"
  unfolding graph_start_def using assms by (rule start_all_stuck)

theorem root_below_itself_never_starts_witness:
  "graph_start 7 3 (\<lambda>_. Returns ()) 0 (control_world ring) = NoReturn"
proof -
  have "(0, 1) \<in> graph_edges ring" "(1, 0) \<in> graph_edges ring"
    by (auto simp: graph_edges_def ring_def)
  then have "0 \<in> below (control_world ring) 0"
    by (auto simp: below_def)
  then show ?thesis
    by (intro root_below_itself_never_starts [where N = "{0, 1}"]) (auto simp: ring_def)
qed

end
