(* ===== verification/Heap_Typing.thy ===== *)
theory Heap_Typing
  imports Root_Control
begin

text \<open>
  An invariant of the heap: no publisher's mutex is held between two operations, every metrics node has its
  publisher, every address that a node keeps has been given to a node of the class that the pointer
  type promises, and connections are only those of nodes that have been created. All
  operations that build, connect, run and take apart a graph keep it, however they end; in particular the
  assumptions of the statements about signals hold. Nodes are never destroyed here: the pointers that
  \<open>connect(Node&)\<close> makes without owning the node, and that may outlive it, are not told apart from
  shared ones.
\<close>

section \<open>Well-typed worlds\<close>

definition is_generator :: "node_class \<Rightarrow> bool" where
  "is_generator c \<longleftrightarrow> (\<exists>hz k. c = FrequencyGenerator hz k)"

text \<open>The classes that derive from \<open>RunnableNode\<close>.\<close>

fun runnable_class :: "node_class \<Rightarrow> bool" where
  "runnable_class PlainRunnable = True"
| "runnable_class (Producer p) = True"
| "runnable_class (FrequencyGenerator hz k) = True"
| "runnable_class (UniversalDataPlayer p) = True"
| "runnable_class (GraphRoot r) = True"
| "runnable_class _ = False"

definition allocated :: "'u world \<Rightarrow> nid \<Rightarrow> bool" where
  "allocated w n \<longleftrightarrow> n < next_node w"

fun class_ok :: "'u world \<Rightarrow> node_class \<Rightarrow> bool" where
  "class_ok w (MetricsNode ms) = is_publisher (class_part (heap w (publisher_node ms)))"
| "class_ok w (MetricsPublisherNode p) = (\<not> mtx p)"
| "class_ok w (GraphRoot r) =
     ((\<forall>t. metrics_trigger r = Some t \<longrightarrow> is_generator (class_part (heap w t))) \<and>
      (\<forall>a. metrics_aggregator r = Some a \<longrightarrow> allocated w a) \<and>
      (\<forall>p. metrics_publisher r = Some p \<longrightarrow> allocated w p))"
| "class_ok w c = True"

definition node_ok :: "'u world \<Rightarrow> nid \<Rightarrow> bool" where
  "node_ok w n \<longleftrightarrow>
     (\<forall>m \<in> set (get_observers w n). allocated w m) \<and> class_ok w (class_part (heap w n)) \<and>
     (thread_part (heap w n) \<noteq> None \<longleftrightarrow> runnable_class (class_part (heap w n))) \<and>
     (allocated w n \<or> class_part (heap w n) = PlainNode \<and> get_observers w n = [])"

definition well_typed :: "'u world \<Rightarrow> bool" where
  "well_typed w \<longleftrightarrow> (\<forall>n. node_ok w n)"

text \<open>A publisher, a generator and a root stay what they are.\<close>

definition compatible :: "node_class \<Rightarrow> node_class \<Rightarrow> bool" where
  "compatible c d \<longleftrightarrow> (is_publisher c \<longrightarrow> is_publisher d) \<and> (is_generator c \<longrightarrow> is_generator d) \<and>
     ((\<exists>r. c = GraphRoot r) \<longrightarrow> (\<exists>r. d = GraphRoot r))"

lemma compatible_trans: "compatible a b \<Longrightarrow> compatible b c \<Longrightarrow> compatible a c"
  by (simp add: compatible_def)

lemma compatible_refl [simp]: "compatible c c"
  by (simp add: compatible_def)

text \<open>A well-typed world later on: no node changes to an incompatible class.\<close>

definition later :: "'u world \<Rightarrow> 'u world \<Rightarrow> bool" where
  "later w v \<longleftrightarrow> well_typed v \<and> next_node w \<le> next_node v \<and>
     (\<forall>n. compatible (class_part (heap w n)) (class_part (heap v n)))"

lemma later_refl: "well_typed w \<Longrightarrow> later w w"
  by (simp add: later_def)

lemma later_trans: "later u v \<Longrightarrow> later v w \<Longrightarrow> later u w"
  unfolding later_def by (meson compatible_trans order_trans)

lemma later_typed: "later w v \<Longrightarrow> well_typed v"
  by (simp add: later_def)

lemma later_allocated: "later w v \<Longrightarrow> allocated w n \<Longrightarrow> allocated v n"
  by (simp add: later_def allocated_def)

lemma later_root: "later w v \<Longrightarrow> is_root w n \<Longrightarrow> is_root v n"
  by (auto simp: later_def compatible_def is_root_def)

lemma later_generator: "later w v \<Longrightarrow> is_generator (class_part (heap w n)) \<Longrightarrow> is_generator (class_part (heap v n))"
  by (simp add: later_def compatible_def)

lemma ends_later_then:
  "ends (later w) r \<Longrightarrow> (\<And>v. later w v \<Longrightarrow> ends (later v) (f v)) \<Longrightarrow> ends (later w) (andthen r f)"
  by (cases r) (auto intro: ends_mono later_trans)

lemma ends_later_bind:
  "ends (later w) r \<Longrightarrow> (\<And>a v. later w v \<Longrightarrow> ends (later v) (f a v)) \<Longrightarrow> ends (later w) (bnd r f)"
  by (cases r) (auto intro: ends_mono later_trans)

lemma ends_later_after: "later w v \<Longrightarrow> ends (later v) r \<Longrightarrow> ends (later w) r"
  by (blast intro: ends_mono later_trans)

lemma ends_later_for_each:
  assumes "well_typed w" and "\<And>x v. x \<in> set xs \<Longrightarrow> later w v \<Longrightarrow> ends (later v) (f x v)"
  shows "ends (later w) (for_each f xs w)"
  by (rule ends_for_each) (auto intro: later_refl assms ends_later_after)

lemma typed_node: "well_typed w \<Longrightarrow> node_ok w n"
  by (simp add: well_typed_def)

lemma typed_observer: "well_typed w \<Longrightarrow> m \<in> set (get_observers w n) \<Longrightarrow> allocated w m"
  by (simp add: well_typed_def node_ok_def)

lemma typed_root: "well_typed w \<Longrightarrow> is_root w n \<Longrightarrow> allocated w n"
  by (auto simp: well_typed_def node_ok_def is_root_def dest: spec [of _ n])

lemma typed_publisher: "well_typed w \<Longrightarrow> is_publisher (class_part (heap w n)) \<Longrightarrow> allocated w n"
  by (auto simp: well_typed_def node_ok_def is_publisher_def dest: spec [of _ n])

lemma typed_generator: "well_typed w \<Longrightarrow> is_generator (class_part (heap w n)) \<Longrightarrow> allocated w n"
  by (auto simp: well_typed_def node_ok_def is_generator_def dest: spec [of _ n])

lemma typed_owns_publishers: "well_typed w \<Longrightarrow> owns_publishers w"
  unfolding owns_publishers_def well_typed_def node_ok_def by (metis class_ok.simps(1))

section \<open>Elementary changes\<close>

lemma later_same_heap:
  assumes "well_typed w" and "heap v = heap w" and "next_node v = next_node w"
  shows "later w v"
proof -
  have "class_ok v c = class_ok w c" for c
    by (cases c) (simp_all add: assms(2,3) allocated_def)
  then show ?thesis
    using assms by (simp add: later_def well_typed_def node_ok_def allocated_def is_root_def get_observers_def)
qed

lemma class_ok_mono:
  assumes "class_ok w c" and "next_node w \<le> next_node v"
    and "\<And>n. is_publisher (class_part (heap w n)) \<Longrightarrow> is_publisher (class_part (heap v n))"
    and "\<And>n. is_generator (class_part (heap w n)) \<Longrightarrow> is_generator (class_part (heap v n))"
  shows "class_ok v c"
  using assms by (cases c) (auto simp: allocated_def)

lemma later_set_node:
  assumes "well_typed w" and "allocated w n"
    and "\<forall>m \<in> set (observers (f (heap w n))). allocated w m"
    and "class_ok w (class_part (f (heap w n)))"
    and "thread_part (f (heap w n)) \<noteq> None \<longleftrightarrow> runnable_class (class_part (f (heap w n)))"
    and "compatible (class_part (heap w n)) (class_part (f (heap w n)))"
  shows "later w (set_node n f w)"
proof -
  let ?v = "set_node n f w"
  have cls: "class_ok ?v c" if "class_ok w c" for c
    by (rule class_ok_mono [OF that]) (use assms(6) in \<open>auto simp: compatible_def\<close>)
  have "node_ok ?v k" for k
    using typed_node [OF assms(1), of k] assms(2-5) cls by (auto simp: node_ok_def allocated_def get_observers_def)
  then show ?thesis
    using assms(6) by (auto simp: later_def well_typed_def is_root_def compatible_def)
qed

lemma later_set_class:
  assumes "well_typed w" and "allocated w n" and "class_ok w c"
    and "runnable_class c = runnable_class (class_part (heap w n))" and "compatible (class_part (heap w n)) c"
  shows "later w (set_node n (set_class c) w)"
  using assms typed_node [OF assms(1), of n]
  by (intro later_set_node) (auto simp: node_ok_def get_observers_def)

lemma later_new_node:
  assumes "well_typed w" and "class_ok w c" and "thread \<noteq> None \<longleftrightarrow> runnable_class c"
  shows "later w (snd (new_node E name thread c w))" and "fst (new_node E name thread c w) = next_node w"
    and "class_part (heap (snd (new_node E name thread c w)) (next_node w)) = c"
    and "allocated (snd (new_node E name thread c w)) (next_node w)"
proof -
  let ?v = "snd (new_node E name thread c w)"
  have v: "heap ?v = (heap w)(next_node w := heap ?v (next_node w))" "next_node ?v = Suc (next_node w)"
      "class_part (heap ?v (next_node w)) = c" "observers (heap ?v (next_node w)) = []"
      "thread_part (heap ?v (next_node w)) = thread"
    by (simp_all add: new_node_def Let_def split_beta)
  have plain: "class_part (heap w (next_node w)) = PlainNode"
    using typed_node [OF assms(1), of "next_node w"] by (simp add: node_ok_def allocated_def)
  have classes: "class_part (heap ?v k) = (if k = next_node w then c else class_part (heap w k))" for k
    using v(1,3) by (metis fun_upd_apply)
  have cls: "class_ok ?v d" if "class_ok w d" for d
    by (rule class_ok_mono [OF that]) (use v(2) plain in \<open>auto simp: classes is_publisher_def is_generator_def\<close>)
  have "node_ok ?v k" for k
  proof (cases "k = next_node w")
    case True
    then show ?thesis
      using v assms(3) cls [OF assms(2)] by (simp add: node_ok_def allocated_def get_observers_def)
  next
    case False
    then have "heap ?v k = heap w k"
      using v(1) by (metis fun_upd_apply)
    then show ?thesis
      using typed_node [OF assms(1), of k] cls v(2) by (auto simp: node_ok_def allocated_def get_observers_def)
  qed
  then show "later w ?v"
    using v(2) plain by (auto simp: later_def well_typed_def compatible_def is_publisher_def is_generator_def classes)
  show "fst (new_node E name thread c w) = next_node w" "class_part (heap ?v (next_node w)) = c" "allocated ?v (next_node w)"
    using v by (simp_all add: new_node_def Let_def split_beta allocated_def)
qed

section \<open>Creating and connecting nodes\<close>

lemma later_tick: "well_typed w \<Longrightarrow> later w (snd (get_current_time E w))"
  by (rule later_same_heap) (simp_all add: get_current_time_def)

lemma later_new_metrics_publisher_node:
  assumes "well_typed w"
  shows "later w (snd (new_metrics_publisher_node E name w))"
    and "is_publisher (class_part (heap (snd (new_metrics_publisher_node E name w)) (fst (new_metrics_publisher_node E name w))))"
proof -
  let ?w = "snd (get_current_time E w)"
  have tick: "later w ?w"
    using assms by (rule later_tick)
  obtain p where p: "new_metrics_publisher_node E name w = new_node E name None (MetricsPublisherNode p) ?w" "\<not> mtx p"
    by (simp add: new_metrics_publisher_node_def get_current_time_def Let_def reset_publisher_def)
  note new = later_new_node [OF later_typed [OF tick], of "MetricsPublisherNode p" None E name, simplified, OF p(2)]
  show "later w (snd (new_metrics_publisher_node E name w))"
    unfolding p(1) using tick new(1) by (rule later_trans)
  show "is_publisher (class_part (heap (snd (new_metrics_publisher_node E name w)) (fst (new_metrics_publisher_node E name w))))"
    unfolding p(1) new(2) using new(3) by (simp add: is_publisher_def)
qed

lemma later_new_metrics_node:
  assumes "well_typed w"
  shows "later w (snd (new_metrics_node E name hz w))"
    and "allocated (snd (new_metrics_node E name hz w)) (fst (new_metrics_node E name hz w))"
    and "\<exists>ms. class_part (heap (snd (new_metrics_node E name hz w)) (fst (new_metrics_node E name hz w))) = MetricsNode ms"
proof -
  define u where "u = snd (new_node E name None PlainNode w)"
  define v where "v = snd (new_metrics_publisher_node E (take 28 name @ ''_Pub'') u)"
  define pub where "pub = fst (new_metrics_publisher_node E (take 28 name @ ''_Pub'') u)"
  let ?ms = "\<lparr>publisher_node = pub, last_receive_time = - 1, passive_frequency_hz = hz,
                last_passive_publish_time = 0, last_received_indexes = (\<lambda>_. None)\<rparr>"
  have eq: "new_metrics_node E name hz w = (next_node w, set_node (next_node w) (set_class (MetricsNode ?ms)) v)"
    by (simp add: new_metrics_node_def u_def v_def pub_def Let_def split_beta) (simp add: new_node_def Let_def split_beta)
  note new = later_new_node [OF assms, of PlainNode None E name, simplified, folded u_def]
  note publisher = later_new_metrics_publisher_node [OF later_typed [OF new(1)], of E "take 28 name @ ''_Pub''", folded v_def pub_def]
  have v: "later w v" "allocated v (next_node w)"
    using new publisher(1) by (blast intro: later_trans later_allocated)+
  have plain: "class_part (heap v (next_node w)) = PlainNode"
    using new(3,4) by (simp add: v_def new_metrics_publisher_node_def new_node_def Let_def split_beta get_current_time_def allocated_def)
  have "later v (set_node (next_node w) (set_class (MetricsNode ?ms)) v)"
    using later_typed [OF v(1)] v(2) publisher(2) plain
    by (intro later_set_class) (auto simp: compatible_def is_publisher_def is_generator_def)
  then show "later w (snd (new_metrics_node E name hz w))"
    unfolding eq using v(1) by (auto intro: later_trans)
  show "allocated (snd (new_metrics_node E name hz w)) (fst (new_metrics_node E name hz w))"
      "\<exists>ms. class_part (heap (snd (new_metrics_node E name hz w)) (fst (new_metrics_node E name hz w))) = MetricsNode ms"
    unfolding eq using v(2) by (simp_all add: allocated_def)
qed

lemma later_push_observer:
  assumes "well_typed w" and "allocated w a" and "allocated w b"
  shows "later w (push_observer a b w)"
  unfolding push_observer_def using assms typed_node [OF assms(1), of a]
  by (intro later_set_node) (auto simp: node_ok_def get_observers_def)

lemma later_disconnect: "well_typed w \<Longrightarrow> allocated w a \<Longrightarrow> later w (disconnect a b w)"
  unfolding disconnect_def using typed_node [of w a]
  by (intro later_set_node) (auto simp: node_ok_def get_observers_def)

lemma ends_on_connect:
  assumes "well_typed w"
  shows "ends (later w) (on_connect self n b w)"
proof (cases "class_part (heap w self)")
  case (MetricsNode ms)
  then have p: "is_publisher (class_part (heap w (publisher_node ms)))"
    using typed_node [OF assms, of self] by (simp add: node_ok_def)
  then have set: "later w (set_node (publisher_node ms) (set_class (MetricsPublisherNode q)) w)" if "\<not> mtx q" for q
    using assms typed_publisher [OF assms p] that
    by (intro later_set_class) (auto simp: is_publisher_def compatible_def is_generator_def)
  have "\<not> mtx q" if "class_part (heap w (publisher_node ms)) = MetricsPublisherNode q" for q
    using typed_node [OF assms, of "publisher_node ms"] that by (simp add: node_ok_def)
  then show ?thesis
    using MetricsNode p assms set
    by (auto simp: on_connect_def child_node_set_def parent_node_set_def is_publisher_def later_refl)
qed (simp_all add: on_connect_def assms later_refl)

lemma ends_connect:
  assumes "well_typed w" and "allocated w a" and "allocated w b"
  shows "ends (later w) (connect a b w)"
  unfolding connect_def using later_push_observer [OF assms] assms
  by (intro ends_later_then) (blast intro: ends_later_after ends_on_connect later_typed)+

lemma ends_new_frequency_generator:
  assumes "well_typed w"
  shows "ends (later w) (new_frequency_generator E hz name w)"
    and "new_frequency_generator E hz name w = Returns t v \<Longrightarrow> is_generator (class_part (heap v t))"
  using later_new_node [OF assms, of "FrequencyGenerator hz 0" new_thread_part E name]
  by (auto simp: new_frequency_generator_def new_thread_part_def Let_def split_beta is_generator_def split: if_splits)

section \<open>Signals and threads\<close>

lemma keeps_part_kind:
  assumes "keeps_part c d"
  shows "compatible c d" and "runnable_class d = runnable_class c" and "c = PlainNode \<Longrightarrow> d = PlainNode"
proof -
  have "compatible c d \<and> runnable_class d = runnable_class c \<and> (c = PlainNode \<longrightarrow> d = PlainNode)"
    using assms by (cases c; cases d; simp add: compatible_def is_publisher_def is_generator_def)
  then show "compatible c d" "runnable_class d = runnable_class c" "c = PlainNode \<Longrightarrow> d = PlainNode"
    by auto
qed

lemma keeps_part_ok: "keeps_part c d \<Longrightarrow> class_ok w c \<Longrightarrow> class_ok w d"
  by (cases c; cases d; simp)

lemma later_same_structure:
  assumes "well_typed w" and "same_structure w v"
  shows "later w v"
proof -
  have s: "keeps_part (class_part (heap w n)) (class_part (heap v n))" "get_observers v n = get_observers w n"
      "thread_part (heap v n) = thread_part (heap w n)" "next_node v = next_node w" for n
    using assms(2) by (auto simp: same_structure_def same_parts_def get_observers_def)
  have kinds: "is_publisher (class_part (heap w n)) \<Longrightarrow> is_publisher (class_part (heap v n))"
      "is_generator (class_part (heap w n)) \<Longrightarrow> is_generator (class_part (heap v n))"
      "runnable_class (class_part (heap v n)) = runnable_class (class_part (heap w n))"
      "class_part (heap w n) = PlainNode \<Longrightarrow> class_part (heap v n) = PlainNode"
      "is_root w n \<Longrightarrow> is_root v n" for n
    using keeps_part_kind [OF s(1) [of n]] by (auto simp: compatible_def is_root_def)
  have "class_ok v (class_part (heap v n))" if "class_ok w (class_part (heap w n))" for n
  proof -
    have "class_ok v (class_part (heap w n))"
      by (rule class_ok_mono [OF that]) (simp add: s(4), erule kinds(1), erule kinds(2))
    then show ?thesis
      by (rule keeps_part_ok [OF s(1)])
  qed
  then show ?thesis
    using assms(1) kinds(4) keeps_part_kind(1) [OF s(1)]
    by (simp add: later_def well_typed_def node_ok_def allocated_def s(2-4) kinds(3)) blast
qed

lemma ends_send: "well_typed w \<Longrightarrow> ends (later w) (send d E n m w)"
  by (blast intro: ends_mono [OF frame.dispatch_relates(2)] typed_owns_publishers later_same_structure)

lemma later_update_runnable:
  assumes "well_typed w" and "allocated w n"
  shows "later w (update_runnable f n w)"
  unfolding update_runnable_def using assms typed_node [OF assms(1), of n]
  by (intro later_set_node) (auto simp: node_ok_def get_observers_def)

section \<open>Walks\<close>

abbreviation walk_later :: "('u, 'c) walk \<Rightarrow> ('u, 'c) walk \<Rightarrow> bool" where
  "walk_later s t \<equiv> later (fst (fst s)) (fst (fst t))"

lemma ends_walk_then:
  "ends (walk_later s) r \<Longrightarrow> (\<And>t. walk_later s t \<Longrightarrow> ends (walk_later t) (f t)) \<Longrightarrow> ends (walk_later s) (andthen r f)"
  by (cases r) (auto intro: ends_mono later_trans)

lemma ends_walk_after: "walk_later s t \<Longrightarrow> ends (walk_later t) r \<Longrightarrow> ends (walk_later s) r"
  by (erule ends_mono) (rule later_trans)

lemma ends_walk_bind:
  assumes "ends (walk_later s) r" and "\<And>a t. walk_later s t \<Longrightarrow> ends (walk_later t) (f a t)"
  shows "ends (walk_later s) (bnd r f)"
proof (cases r)
  case (Returns a t)
  then have "walk_later s t"
    using assms(1) by simp
  then have "ends (walk_later s) (f a t)"
    by (rule ends_walk_after) (rule assms(2) [OF \<open>walk_later s t\<close>])
  then show ?thesis
    using Returns by simp
qed (use assms(1) in simp_all)

lemma ends_walk_for_each:
  assumes "well_typed (fst (fst s))" and "\<And>x t. x \<in> set xs \<Longrightarrow> walk_later s t \<Longrightarrow> ends (walk_later t) (f x t)"
  shows "ends (walk_later s) (for_each f xs s)"
proof (rule ends_for_each)
  show "walk_later s s"
    using assms(1) by (rule later_refl)
  show "ends (walk_later s) (f x t)" if "x \<in> set xs" "walk_later s t" for x t
    using that(2) assms(2) [OF that] by (rule ends_walk_after)
qed

lemma ends_walk_call:
  assumes "ends (\<lambda>u. later (fst (fst s)) (fst u)) (f (fst s))"
  shows "ends (walk_later s) (on_world f s)"
  using assms by (cases s; cases "f (fst s)") auto

lemma ends_walk_graph:
  assumes "ends (later (fst (fst s))) (f (fst (fst s)))"
  shows "ends (walk_later s) (on_graph f s)"
  using assms by (cases s; cases "fst s"; cases "f (fst (fst s))") auto

lemma ends_step_nodes:
  assumes f: "\<And>n l t. later w0 (fst t) \<Longrightarrow> allocated (fst t) n \<Longrightarrow> ends (\<lambda>u. later (fst t) (fst u)) (f n l t)"
  shows "later w0 (fst (fst s)) \<Longrightarrow> allocated (fst (fst s)) n \<Longrightarrow> ends (walk_later s) (step_nodes k f fwd l n s)"
proof (induction k arbitrary: l n s)
  case 0
  then show ?case by simp
next
  case (Suc k)
  obtain t V where s: "s = (t, V)" by (cases s)
  have wt: "well_typed (fst t)"
    using Suc.prems(1) s by (simp add: later_typed)
  have call: "ends (walk_later u) (on_world (f n l) u)" if "walk_later s u" for u
    by (rule ends_walk_call, rule f) (use that Suc.prems in \<open>auto intro: later_trans later_allocated\<close>)
  have rec: "ends (walk_later u) (for_each (step_nodes k f fwd (Suc l)) (get_observers (fst t) n) u)" if "walk_later s u" for u
  proof (rule ends_walk_for_each)
    show "well_typed (fst (fst u))"
      using that by (rule later_typed)
    fix x v
    assume "x \<in> set (get_observers (fst t) n)" "walk_later u v"
    then show "ends (walk_later v) (step_nodes k f fwd (Suc l) x v)"
      using typed_observer [OF wt] that Suc.prems s
      by (intro Suc.IH) (auto intro: later_trans later_allocated)
  qed
  have self: "walk_later s (t, insert n V)"
    using wt s by (simp add: later_refl)
  have from_self: "walk_later s v" if "walk_later (t, insert n V) v" for v
    using that s by simp
  show ?case
  proof (cases fwd)
    case True
    have "ends (walk_later (t, insert n V)) (andthen (on_world (f n l) (t, insert n V)) (for_each (step_nodes k f fwd (Suc l)) (get_observers (fst t) n)))"
      by (rule ends_walk_then [OF call [OF self]], rule rec, rule from_self)
    then show ?thesis
      using True later_refl [OF wt] by (simp add: s Let_def del: on_world.simps)
  next
    case False
    have "ends (walk_later (t, insert n V)) (andthen (for_each (step_nodes k f fwd (Suc l)) (get_observers (fst t) n) (t, insert n V)) (on_world (f n l)))"
      by (rule ends_walk_then [OF rec [OF self]], rule call, rule from_self)
    then show ?thesis
      using False later_refl [OF wt] by (simp add: s Let_def del: on_world.simps)
  qed
qed

lemma ends_step_connections:
  assumes f: "\<And>n m l t. later w0 (fst t) \<Longrightarrow> allocated (fst t) n \<Longrightarrow> allocated (fst t) m \<Longrightarrow>
      ends (\<lambda>u. later (fst t) (fst u)) (f n m l t)"
  shows "later w0 (fst (fst s)) \<Longrightarrow> allocated (fst (fst s)) n \<Longrightarrow> ends (walk_later s) (step_connections k f fwd l n s)"
proof (induction k arbitrary: l n s)
  case 0
  then show ?case by simp
next
  case (Suc k)
  obtain t V where s: "s = (t, V)" by (cases s)
  have wt: "well_typed (fst t)"
    using Suc.prems(1) s by (simp add: later_typed)
  have child: "later w0 (fst (fst u)) \<and> allocated (fst (fst u)) m \<and> allocated (fst (fst u)) n"
    if "m \<in> set (get_observers (fst t) n)" "walk_later s u" for m u
    using that typed_observer [OF wt] Suc.prems s by (auto intro: later_trans later_allocated)
  have call: "ends (walk_later u) (on_world (f n m l) u)" if "m \<in> set (get_observers (fst t) n)" "walk_later s u" for m u
    by (rule ends_walk_call, rule f) (use child [OF that] in auto)
  have rec: "ends (walk_later u) (step_connections k f fwd (Suc l) m u)" if "m \<in> set (get_observers (fst t) n)" "walk_later s u" for m u
    by (rule Suc.IH) (use child [OF that] in auto)
  have both: "ends (walk_later u) (andthen (on_world (f n m l) u) (step_connections k f fwd (Suc l) m))"
      "ends (walk_later u) (andthen (step_connections k f fwd (Suc l) m u) (on_world (f n m l)))"
    if "m \<in> set (get_observers (fst t) n)" "walk_later s u" for m u
    by (rule ends_walk_then [OF call [OF that]], rule rec [OF that(1)], erule later_trans [OF that(2)])
       (rule ends_walk_then [OF rec [OF that]], rule call [OF that(1)], erule later_trans [OF that(2)])
  have "ends (walk_later (t, insert n V)) (for_each (\<lambda>child s.
      if fwd then andthen (on_world (f n child l) s) (step_connections k f True (l + 1) child)
      else andthen (step_connections k f False (l + 1) child s) (on_world (f n child l)))
      (get_observers (fst t) n) (t, insert n V))"
    by (rule ends_walk_for_each) (use wt s both in \<open>auto simp del: on_world.simps\<close>)
  then show ?case
    using later_refl [OF wt] by (simp add: s del: on_world.simps)
qed

lemma ends_filter_step:
  assumes f: "\<And>n l t. later w0 (fst t) \<Longrightarrow> allocated (fst t) n \<Longrightarrow> ends (\<lambda>u. later (fst t) (fst u)) (f n l t)"
  shows "later w0 (fst (fst s)) \<Longrightarrow> allocated (fst (fst s)) p \<Longrightarrow> allocated (fst (fst s)) n \<Longrightarrow>
    ends (walk_later s) (filter_step k f l p n s)"
proof (induction k arbitrary: l p n s)
  case 0
  then show ?case by simp
next
  case (Suc k)
  obtain t V where s: "s = (t, V)" by (cases s)
  have wt: "well_typed (fst t)"
    using Suc.prems(1) s by (simp add: later_typed)
  let ?s = "(t, insert n V)"
  have call: "ends (walk_later ?s) (on_world (f n l) ?s)"
    by (rule ends_walk_call, rule f) (use Suc.prems s in auto)
  have rest: "ends (walk_later u) (andthen
      (if \<not> keep then andthen (on_graph (\<lambda>w. Returns () (disconnect p n w)) u)
          (for_each (\<lambda>c. on_graph (connect p c)) (get_observers (fst (fst u)) n))
       else Returns () u)
      (for_each (filter_step k f (l + 1) n) (get_observers (fst (fst u)) n)))" if u: "walk_later ?s u" for keep u
  proof -
    have base: "later w0 (fst (fst u))" "allocated (fst (fst u)) p" "allocated (fst (fst u)) n" "well_typed (fst (fst u))"
      using u Suc.prems s by (auto intro: later_trans later_allocated later_typed)
    have link: "ends (walk_later v) (for_each (\<lambda>c. on_graph (connect p c)) (get_observers (fst (fst u)) n) v)"
      if v: "walk_later u v" for v
    proof (rule ends_walk_for_each)
      show "well_typed (fst (fst v))"
        using v by (rule later_typed)
      fix c x
      assume "c \<in> set (get_observers (fst (fst u)) n)" "walk_later v x"
      then have "walk_later u x" "allocated (fst (fst u)) c"
        using v base(4) typed_observer by (auto intro: later_trans)
      then show "ends (walk_later x) (on_graph (connect p c) x)"
        using base by (intro ends_walk_graph ends_connect) (auto intro: later_allocated later_typed)
    qed
    have cut: "ends (walk_later u) (on_graph (\<lambda>w. Returns () (disconnect p n w)) u)"
      by (rule ends_walk_graph) (simp add: later_disconnect base)
    have rec: "ends (walk_later v) (for_each (filter_step k f (l + 1) n) (get_observers (fst (fst u)) n) v)"
      if v: "walk_later u v" for v
    proof (rule ends_walk_for_each)
      show "well_typed (fst (fst v))"
        using v by (rule later_typed)
      fix c x
      assume "c \<in> set (get_observers (fst (fst u)) n)" "walk_later v x"
      then have "walk_later u x" "allocated (fst (fst u)) c"
        using v base(4) typed_observer by (auto intro: later_trans)
      then show "ends (walk_later x) (filter_step k f (l + 1) n c x)"
        using base by (intro Suc.IH) (auto intro: later_trans later_allocated)
    qed
    show ?thesis
      using ends_walk_then [OF cut link] base(4)
      by (intro ends_walk_then [OF _ rec]) (auto simp: later_refl simp del: on_graph.simps)
  qed
  have "ends (walk_later ?s) (bnd (on_world (f n l) ?s) (\<lambda>keep_node s.
        let grand_children = get_observers (fst (fst s)) n in
        andthen
          (if \<not> keep_node
           then andthen (on_graph (\<lambda>w. Returns () (disconnect p n w)) s)
                  (for_each (\<lambda>grand_child. on_graph (connect p grand_child)) grand_children)
           else Returns () s)
          (for_each (filter_step k f (l + 1) n) grand_children)))"
    using call rest unfolding Let_def by (rule ends_walk_bind)
  then show ?case
    using later_refl [OF wt] by (simp add: s del: on_world.simps on_graph.simps)
qed

text \<open>The walks from a root.\<close>

lemma ends_strip: "ends (\<lambda>t. P (fst (fst t))) r \<Longrightarrow> ends P (without_visited (without_visited r))"
  by (cases r) auto

lemma ends_walk_world:
  assumes "well_typed w"
    and "\<And>n v. later w v \<Longrightarrow> allocated v n \<Longrightarrow> ends (later v) (f n v)"
  shows "ends (later w) (walk_world k f fwd self w)"
proof -
  have f: "ends (\<lambda>u. later (fst t) (fst u)) (on_world (f n) t)" if "later w (fst t)" "allocated (fst t) n" for n and t :: "'a world \<times> unit"
    using assms(2) [OF that] by (cases t; cases "f n (fst t)") auto
  have "ends (walk_later ((w, ()), {}))
      (for_each (step_nodes k (\<lambda>node level. on_world (f node)) fwd 0) (get_observers w self) ((w, ()), {}))"
  proof (rule ends_walk_for_each)
    fix n and s :: "('a world \<times> unit) \<times> nid set"
    assume n: "n \<in> set (get_observers w self)" "walk_later ((w, ()), {}) s"
    show "ends (walk_later s) (step_nodes k (\<lambda>node level. on_world (f node)) fwd 0 n s)"
      by (rule ends_step_nodes)
        (use f n typed_observer [OF assms(1)] in \<open>auto intro: later_allocated simp del: on_world.simps\<close>)
  qed (simp add: assms(1))
  then show ?thesis
    unfolding walk_world_def walk_nodes_def fst_conv by (intro ends_strip) simp
qed

lemma later_log_line: "well_typed w \<Longrightarrow> later w (log_line b msg w)"
  by (rule later_same_heap) (simp_all add: log_line_def)

lemma ends_visit_runnable:
  assumes "well_typed w" and "allocated w n"
    and "\<And>v. later w v \<Longrightarrow> is_root v n \<Longrightarrow> ends (later v) (rc n v)"
    and "\<And>v. later w v \<Longrightarrow> allocated v n \<Longrightarrow> later v (nc n v)"
  shows "ends (later w) (visit_runnable doing rc nc dbg run n w)"
proof -
  let ?w = "log_line dbg (''GraphRoot '' @ doing @ '' '' @ node_name (heap w n)) w"
  have w: "later w ?w"
    using assms(1) by (rule later_log_line)
  then have "ends (later ?w) (virtual_call rc nc n ?w)"
    using assms(2-4) by (cases "is_root ?w n") (auto simp: virtual_call_root virtual_call_node intro: later_allocated)
  then show ?thesis
    using w assms(1) by (auto simp: visit_runnable_def later_refl intro: ends_later_after)
qed

lemma later_update_root:
  assumes "well_typed w" and "is_root w self" and "class_ok w (GraphRoot (f (root_of w self)))"
  shows "later w (update_root f self w)"
  unfolding update_root_def using assms typed_node [OF assms(1), of self] typed_root [OF assms(1,2)]
  by (intro later_set_node) (auto simp: node_ok_def get_observers_def is_root_def compatible_def is_publisher_def is_generator_def)

lemma root_class_ok: "well_typed w \<Longrightarrow> is_root w self \<Longrightarrow> class_ok w (GraphRoot (root_of w self))"
  using typed_node [of w self] by (auto simp: node_ok_def is_root_def)

lemma ends_start_all:
  "well_typed w \<Longrightarrow> is_root w self \<Longrightarrow>
   (\<forall>n. run = Some n \<longrightarrow> allocated w n \<and> (\<forall>v. later w v \<longrightarrow> ends (later v) (thread_fn n v))) \<Longrightarrow>
   ends (later w) (start_all d k thread_fn run self w)"
proof (induction d arbitrary: w self run)
  case 0
  then show ?case by simp
next
  case (Suc d)
  let ?w = "update_root (\<lambda>r. r\<lparr>node_to_run := run\<rparr>) self w"
    and ?f = "visit_runnable ''starting'' (start_all d k thread_fn None) node_start (debug (root_of w self)) run"
  have w: "later w ?w"
    using Suc.prems root_class_ok [OF Suc.prems(1,2)] by (intro later_update_root) auto
  have walk: "ends (later ?w) (walk_world k ?f False self ?w)"
  proof (rule ends_walk_world [OF later_typed [OF w]])
    fix n v
    assume "later ?w v" "allocated v n"
    then show "ends (later v) (?f n v)"
      unfolding node_start_def
      by (intro ends_visit_runnable Suc.IH later_update_runnable) (auto intro: later_typed)
  qed
  have run: "ends (later v) (node_run thread_fn n (log_line b msg v))" if "later w v" "run = Some n" for v n b msg
  proof -
    have "later v (log_line b msg v)"
      using that(1) by (intro later_log_line later_typed)
    moreover have "later (log_line b msg v) (update_runnable clear_stop_signal n (log_line b msg v))"
      using that Suc.prems(3) calculation by (intro later_update_runnable) (blast intro: later_typed later_allocated)+
    ultimately have u: "later v (update_runnable clear_stop_signal n (log_line b msg v))"
      by (rule later_trans)
    then show ?thesis
      unfolding node_run_def using later_trans [OF that(1) u] that(2) Suc.prems(3) by (blast intro: ends_later_after)
  qed
  have "ends (later ?w) (andthen (walk_world k ?f False self ?w) (\<lambda>w'. case run of
      None \<Rightarrow> Returns () w' | Some n \<Rightarrow> node_run thread_fn n (log_line (debug (root_of w self)) (''GraphRoot running '' @ node_name (heap w' n)) w')))"
    using walk
  proof (rule ends_later_then)
    fix v
    assume "later ?w v"
    then have "later w v"
      using w by (blast intro: later_trans)
    then show "ends (later v) (case run of None \<Rightarrow> Returns () v | Some n \<Rightarrow>
        node_run thread_fn n (log_line (debug (root_of w self)) (''GraphRoot running '' @ node_name (heap v n)) v))"
      using run by (auto simp: later_typed later_refl split: option.split)
  qed
  then show ?case
    using w by (simp add: Let_def ends_later_after)
qed

section \<open>Instrumenting\<close>

lemma later_update_root_to:
  assumes "well_typed w" and "is_root w self"
    and "\<And>t. metrics_trigger (f (root_of w self)) = Some t \<Longrightarrow> is_generator (class_part (heap w t))"
    and "\<And>a. metrics_aggregator (f (root_of w self)) = Some a \<Longrightarrow> allocated w a"
    and "metrics_publisher (f (root_of w self)) = metrics_publisher (root_of w self)"
  shows "later w (update_root f self w)"
  using assms root_class_ok [OF assms(1,2)] by (intro later_update_root) auto

lemma root_pointers:
  assumes "well_typed w" and "is_root w self"
  shows "metrics_trigger (root_of w self) = Some t \<Longrightarrow> is_generator (class_part (heap w t))"
    and "metrics_trigger (root_of w self) = Some t \<Longrightarrow> allocated w t"
    and "metrics_aggregator (root_of w self) = Some a \<Longrightarrow> allocated w a"
    and "metrics_publisher (root_of w self) = Some p \<Longrightarrow> allocated w p"
  using root_class_ok [OF assms] typed_generator [OF assms(1)] by auto

lemma ends_make_trigger:
  assumes "well_typed w" and "is_root w self"
  shows "ends (later w) (make_trigger E self w)"
proof (cases "metrics_publishing_frequency_hz (root_of w self) > 0")
  case True
  have "ends (later w) (bnd (new_frequency_generator E hz name w) (\<lambda>t w. Returns () (set_trigger (Some t) self w)))" for hz name
  proof (cases "new_frequency_generator E hz name w")
    case (Returns t v)
    note v = ends_new_frequency_generator(1) [OF assms(1), of E hz name, unfolded Returns ends.simps]
      ends_new_frequency_generator(2) [OF assms(1) Returns]
    have "later v (set_trigger (Some t) self v)"
      unfolding set_trigger_def using v(2) root_pointers [OF later_typed [OF v(1)] later_root [OF v(1) assms(2)]]
      by (intro later_update_root_to later_typed [OF v(1)] later_root [OF v(1) assms(2)]) auto
    with v(1) Returns show ?thesis
      by (auto intro: later_trans)
  qed (use ends_new_frequency_generator(1) [OF assms(1), of E hz name] in simp_all)
  with True show ?thesis
    by (simp add: make_trigger_def)
qed (simp add: make_trigger_def later_refl assms(1))

lemma ends_make_aggregator:
  assumes "well_typed w" and "is_root w self"
  shows "ends (later w) (make_aggregator E self w)"
proof -
  define v where "v = snd (new_node E ''MetricsAggregator'' None PlainNode w)"
  note new = later_new_node [OF assms(1), of PlainNode None E "''MetricsAggregator''", simplified, folded v_def]
  note typed = later_typed [OF new(1)] and root = later_root [OF new(1) assms(2)]
  define u where "u = set_aggregator (Some (next_node w)) self v"
  have u: "later v u"
    unfolding u_def set_aggregator_def using new(4) root_pointers [OF typed root]
    by (intro later_update_root_to typed root) auto
  then have wu: "later w u" "is_root u self" "allocated u (next_node w)"
    using new(1,4) root by (blast intro: later_trans later_root later_allocated)+
  have "ends (later u) (case metrics_publisher (root_of u self) of None \<Rightarrow> Returns () u | Some p \<Rightarrow> connect (next_node w) p u)"
    using ends_connect [OF later_typed [OF u] wu(3)] root_pointers(4) [OF later_typed [OF u] wu(2)] later_refl [OF later_typed [OF u]]
    by (auto split: option.split)
  from ends_later_after [OF wu(1) this] show ?thesis
    unfolding make_aggregator_def Let_def split_beta u_def v_def new(2) [unfolded v_def] .
qed

lemma ends_insert_metrics_between:
  assumes "well_typed w" and "is_root w self" and "allocated w n1" and "allocated w n2"
  shows "ends (later w) (insert_metrics_between E self n1 n2 w)"
proof -
  let ?new = "new_metrics_node E (metrics_node_name (node_name (heap w n1)) (node_name (heap w n2))) 0 w"
  define m v where "m = fst ?new" and "v = snd ?new"
  obtain ms where ms: "class_part (heap v m) = MetricsNode ms"
    using later_new_metrics_node(3) [OF assms(1)] unfolding m_def v_def by blast
  let ?pub = "publisher_node (metrics_part (class_part (heap v m)))"
  have v: "later w v" "allocated v m"
    using later_new_metrics_node [OF assms(1)] by (simp_all add: m_def v_def)
  then have "later v (disconnect n1 n2 v)"
    using assms(3) by (intro later_disconnect) (blast intro: later_typed later_allocated)+
  moreover have "allocated v ?pub"
    using typed_publisher [OF later_typed [OF v(1)]] typed_node [OF later_typed [OF v(1)], of m] ms by (simp add: node_ok_def)
  ultimately have u: "later w (disconnect n1 n2 v)" "allocated (disconnect n1 n2 v) m" "allocated (disconnect n1 n2 v) ?pub"
    using v by (blast intro: later_trans later_allocated)+
  have link: "ends (later x) (connect a b x)" if "later (disconnect n1 n2 v) x" "allocated (disconnect n1 n2 v) a"
    "allocated (disconnect n1 n2 v) b" for x a b
    using that by (intro ends_connect) (blast intro: later_typed later_allocated)+
  have n: "allocated (disconnect n1 n2 v) n1" "allocated (disconnect n1 n2 v) n2" "is_root (disconnect n1 n2 v) self"
    using u(1) assms by (blast intro: later_allocated later_root)+
  have trigger: "ends (later x) (case metrics_trigger (root_of x self) of None \<Rightarrow> Returns () x | Some t \<Rightarrow> connect t ?pub x)"
    and aggregator: "ends (later x) (case metrics_aggregator (root_of x self) of None \<Rightarrow> Throws OutOfBounds x | Some a \<Rightarrow> connect ?pub a x)"
    if x: "later (disconnect n1 n2 v) x" for x
  proof -
    note typed = later_typed [OF x] and root = later_root [OF x n(3)] and pub = later_allocated [OF x u(3)]
    show "ends (later x) (case metrics_trigger (root_of x self) of None \<Rightarrow> Returns () x | Some t \<Rightarrow> connect t ?pub x)"
      using ends_connect [OF typed root_pointers(2) [OF typed root] pub] later_refl [OF typed] by (auto split: option.split)
    show "ends (later x) (case metrics_aggregator (root_of x self) of None \<Rightarrow> Throws OutOfBounds x | Some a \<Rightarrow> connect ?pub a x)"
      using ends_connect [OF typed pub root_pointers(3) [OF typed root]] later_refl [OF typed] by (auto split: option.split)
  qed
  have "ends (later (disconnect n1 n2 v)) (andthen (connect n1 m (disconnect n1 n2 v)) (\<lambda>w.
         andthen (connect m n2 w) (\<lambda>w.
         andthen (case metrics_trigger (root_of w self) of
                    None \<Rightarrow> Returns () w
                  | Some trigger \<Rightarrow> connect trigger ?pub w) (\<lambda>w.
         case metrics_aggregator (root_of w self) of
           None \<Rightarrow> Throws OutOfBounds w
         | Some aggregator \<Rightarrow> connect ?pub aggregator w))))"
    by (intro ends_later_then link trigger aggregator n u(2))
      (auto intro: later_refl later_typed [OF u(1)] later_trans)
  from ends_later_after [OF u(1) this] show ?thesis
    unfolding insert_metrics_between_def Let_def split_beta m_def v_def .
qed

lemma ends_insert_everywhere:
  fixes w :: "'u world"
  assumes "well_typed w" and "is_root w self"
  shows "ends (later w) (insert_everywhere k E self w)"
proof -
  let ?f = "\<lambda>n1 n2 level. on_world (insert_metrics_between E self n1 n2)"
  have f: "ends (\<lambda>u. later (fst t) (fst u)) (?f n m l t)"
    if "later w (fst t)" "allocated (fst t) n" "allocated (fst t) m" for n m and l :: nat and t :: "'u world \<times> unit"
  proof -
    have "ends (later (fst t)) (insert_metrics_between E self n m (fst t))"
      using that assms(2) by (intro ends_insert_metrics_between) (blast intro: later_typed later_root)+
    then show ?thesis
      by (cases t; cases "insert_metrics_between E self n m (fst t)") auto
  qed
  have "ends (walk_later ((w, ()), {})) (for_each (step_connections k ?f False 0) (get_observers w self) ((w, ()), {}))"
  proof (rule ends_walk_for_each)
    fix n and s :: "('u world \<times> unit) \<times> nid set"
    assume n: "n \<in> set (get_observers w self)" "walk_later ((w, ()), {}) s"
    show "ends (walk_later s) (step_connections k ?f False 0 n s)"
      by (rule ends_step_connections)
        (use f n typed_observer [OF assms(1)] in \<open>auto intro: later_allocated simp del: on_world.simps\<close>)
  qed (simp add: assms(1))
  then show ?thesis
    unfolding insert_everywhere_def walk_connections_def fst_conv by (intro ends_strip) simp
qed

lemma later_set_root_flag: "well_typed w \<Longrightarrow> is_root w self \<Longrightarrow> later w (set_instrumented b self w)"
  unfolding set_instrumented_def using root_pointers [of w self] by (intro later_update_root_to) auto

lemma later_forget:
  assumes "well_typed w" and "is_root w self"
  shows "later w (set_trigger None self w)" and "later w (set_aggregator None self w)"
  unfolding set_trigger_def set_aggregator_def using assms root_pointers [OF assms]
  by (intro later_update_root_to; auto)+

lemma ends_instrument_metrics:
  assumes "well_typed w" and "is_root w self"
  shows "ends (later w) (instrument_metrics k E self w)"
proof -
  have root: "well_typed v" "is_root v self" if "later w v" for v
    using that assms(2) by (blast intro: later_typed later_root)+
  have "ends (later w) (andthen (make_trigger E self w) (\<lambda>w. andthen (make_aggregator E self w) (\<lambda>w.
      andthen (insert_everywhere k E self w) (\<lambda>w. Returns () (set_instrumented True self w)))))"
  proof (intro ends_later_then ends_make_trigger assms ends_make_aggregator ends_insert_everywhere)
    show "well_typed v" "is_root v self" if "later w v" for v
      using root [OF that] by simp_all
    show "well_typed u" "is_root u self" if "later w v" "later v u" for v u
      using root [OF later_trans [OF that]] by simp_all
    show "ends (later x) (Returns () (set_instrumented True self x))" if "later w v" "later v u" "later u x" for v u x
      using root [OF later_trans [OF later_trans [OF that(1,2)] that(3)]] by (simp add: later_set_root_flag)
  qed
  then show ?thesis
    by (simp add: instrument_metrics_def later_refl assms(1))
qed

lemma later_test_and_remove:
  assumes "well_typed w" and "is_root w self"
  shows "later w (snd (test_and_remove_metrics_node self n w))"
proof (cases "class_part (heap w n)")
  case (MetricsNode ms)
  let ?v = "case metrics_trigger (root_of w self) of None \<Rightarrow> w | Some trigger \<Rightarrow> disconnect trigger n w"
  have v: "later w ?v"
    using assms root_pointers(2) [OF assms] by (auto simp: later_refl later_disconnect split: option.split)
  have "is_publisher (class_part (heap w (publisher_node ms)))"
    using typed_node [OF assms(1), of n] MetricsNode by (simp add: node_ok_def)
  then have pub: "allocated ?v (publisher_node ms)"
    using typed_publisher [OF assms(1)] v by (blast intro: later_allocated)
  have "later ?v (case metrics_aggregator (root_of ?v self) of None \<Rightarrow> ?v | Some a \<Rightarrow> disconnect (publisher_node ms) a ?v)"
    using later_disconnect [OF later_typed [OF v] pub] later_refl [OF later_typed [OF v]] by (simp split: option.split)
  from later_trans [OF v this] show ?thesis
    using MetricsNode by (simp add: test_and_remove_metrics_node_def Let_def)
qed (simp_all add: test_and_remove_metrics_node_def assms(1) later_refl)

lemma ends_filter_nodes:
  fixes w :: "'u world"
  assumes "well_typed w" and "allocated w self"
    and f: "\<And>n l t. later w (fst t) \<Longrightarrow> ends (\<lambda>u. later (fst t) (fst u)) (f n l t)"
  shows "ends (later w) (without_visited (filter_nodes k f self (w, ())))"
proof -
  have "ends (walk_later ((w, ()), {})) (for_each (filter_step k f 0 self) (get_observers w self) ((w, ()), {}))"
  proof (rule ends_walk_for_each)
    fix n and s :: "('u world \<times> unit) \<times> nid set"
    assume n: "n \<in> set (get_observers w self)" "walk_later ((w, ()), {}) s"
    show "ends (walk_later s) (filter_step k f 0 self n s)"
      by (rule ends_filter_step)
        (use f n assms(2) typed_observer [OF assms(1)] in \<open>auto intro: later_allocated simp del: on_world.simps\<close>)
  qed (simp add: assms(1))
  then show ?thesis
    unfolding filter_nodes_def fst_conv by (intro ends_strip) simp
qed

lemma ends_remove_everywhere:
  fixes w :: "'u world"
  assumes "well_typed w" and "is_root w self" and "allocated w self"
  shows "ends (later w) (remove_everywhere k self w)"
proof -
  let ?f = "\<lambda>n level. on_world (\<lambda>w. case test_and_remove_metrics_node self n w of (keep, w) \<Rightarrow> Returns keep w)
    :: 'u world \<times> unit \<Rightarrow> (error, 'u world \<times> unit, bool) outcome"
  have f: "ends (\<lambda>u. later (fst t) (fst u)) (?f n l t)" if "later w (fst t)" for n and l :: nat and t :: "'u world \<times> unit"
    using later_test_and_remove [OF later_typed [OF that] later_root [OF that assms(2)], of n]
    by (cases t) (auto simp: split_beta)
  show ?thesis
    unfolding remove_everywhere_def by (rule ends_filter_nodes [OF assms(1,3)]) (rule f)
qed

lemma ends_deinstrument_metrics:
  assumes "well_typed w" and "is_root w self"
  shows "ends (later w) (deinstrument_metrics k self w)"
proof -
  have "ends (later w) (andthen (remove_everywhere k self w) (\<lambda>w.
      Returns () (set_instrumented False self (set_trigger None self (set_aggregator None self w)))))"
  proof (intro ends_later_then ends_remove_everywhere assms typed_root)
    show "ends (later v) (Returns () (set_instrumented False self (set_trigger None self (set_aggregator None self v))))"
      if "later w v" for v
    proof -
      have a: "later v (set_aggregator None self v)"
        using that assms(2) by (intro later_forget) (blast intro: later_typed later_root)+
      moreover from this have "later (set_aggregator None self v) (set_trigger None self (set_aggregator None self v))"
        using later_root [OF a later_root [OF that assms(2)]] by (intro later_forget) (blast intro: later_typed)+
      ultimately have t: "later v (set_trigger None self (set_aggregator None self v))"
        by (rule later_trans)
      from later_set_root_flag [OF later_typed [OF t] later_root [OF t later_root [OF that assms(2)]]]
      show ?thesis
        using t by (auto intro: later_trans)
    qed
  qed
  then show ?thesis
    by (simp add: deinstrument_metrics_def later_refl assms(1))
qed

lemma ends_graph_stop: "well_typed w \<Longrightarrow> is_root w self \<Longrightarrow> ends (later w) (graph_stop d k self w)"
proof (induction d arbitrary: w self)
  case 0
  then show ?case by simp
next
  case (Suc d)
  let ?f = "visit_runnable ''stopping'' (graph_stop d k) node_stop_and_join (debug (root_of w self)) (node_to_run (root_of w self))"
  have "ends (later v) (?f n v)" if "later w v" "allocated v n" for n v
    unfolding node_stop_and_join_def using that
    by (intro ends_visit_runnable Suc.IH later_update_runnable) (auto intro: later_typed)
  then have walk: "ends (later w) (walk_world k ?f True self w)"
    by (rule ends_walk_world [OF Suc.prems(1)])
  have "ends (later v) (if metrics_instrumented (root_of v self)
      then deinstrument_metrics k self (case metrics_trigger (root_of v self) of None \<Rightarrow> v | Some trigger \<Rightarrow> node_stop_and_join trigger v)
      else Returns () v)" if v: "later w v" for v
  proof -
    let ?u = "case metrics_trigger (root_of v self) of None \<Rightarrow> v | Some trigger \<Rightarrow> node_stop_and_join trigger v"
    have "is_root v self" "well_typed v"
      using v Suc.prems(2) by (blast intro: later_root later_typed)+
    then have u: "later v ?u"
      using root_pointers(2) by (auto simp: later_refl node_stop_and_join_def intro: later_update_runnable split: option.split)
    have "ends (later ?u) (deinstrument_metrics k self ?u)"
      using later_typed [OF u] later_root [OF u \<open>is_root v self\<close>] by (rule ends_deinstrument_metrics)
    with u \<open>well_typed v\<close> show ?thesis
      by (auto intro: ends_later_after later_refl)
  qed
  from ends_later_then [OF walk this] show ?case
    by (simp add: Let_def)
qed

lemma ends_graph_profile:
  assumes "\<forall>n. run = Some n \<longrightarrow> allocated w n \<and> (\<forall>v. later w v \<longrightarrow> ends (later v) (thread_fn n v))"
    and "well_typed w" and "is_root w self"
  shows "ends (later w) (graph_profile d k E thread_fn run self w)"
  unfolding graph_profile_def Let_def
proof (rule ends_later_then [OF ends_instrument_metrics [OF assms(2,3)]])
  fix v
  assume v: "later w v"
  have typed: "well_typed v" "is_root v self"
    using v assms(3) by (blast intro: later_typed later_root)+
  let ?u = "case metrics_trigger (root_of v self) of None \<Rightarrow> v | Some trigger \<Rightarrow> node_start trigger v"
  have u: "later v ?u"
    using typed root_pointers(2) [OF typed] by (auto simp: later_refl node_start_def intro: later_update_runnable split: option.split)
  have "ends (later ?u) (andthen (start_all d k thread_fn run self ?u) (\<lambda>w. if run \<noteq> None then graph_stop d k self w else Returns () w))"
  proof (rule ends_later_then)
    show "ends (later ?u) (start_all d k thread_fn run self ?u)"
      using assms(1) later_allocated [OF later_trans [OF v u]] later_trans [OF later_trans [OF v u]]
      by (intro ends_start_all later_typed [OF u] later_root [OF u typed(2)]) blast
    show "ends (later x) (if run \<noteq> None then graph_stop d k self x else Returns () x)" if "later ?u x" for x
      using ends_graph_stop [OF later_typed [OF that] later_root [OF that later_root [OF u typed(2)]]] later_refl [OF later_typed [OF that]]
      by simp
  qed
  with u show "ends (later v) (andthen (start_all d k thread_fn run self ?u) (\<lambda>w. if run \<noteq> None then graph_stop d k self w else Returns () w))"
    by (rule ends_later_after)
qed

end
