(* ===== verification/Delivery.thy ===== *)
theory Delivery
  imports Dispatch_Frame
begin

text \<open>
  When a signal returns and what has been delivered by then. Calls follow the connections, and from
  a \<open>MetricsNode\<close> also to its publisher: if these have no cycle then every signal returns, at a
  depth that the number of nodes bounds, and a larger bound changes nothing. Around a cycle of
  forwarding nodes a signal never returns. On plain nodes, the deliveries are counted.
\<close>

section \<open>The depth bound does not matter once it is enough\<close>

definition approx_deliver :: "'u deliver \<Rightarrow> 'u deliver \<Rightarrow> bool" where
  "approx_deliver rf rf' \<longleftrightarrow> (\<forall>n m s w. approx (rf n m s w) (rf' n m s w))"

lemma approx_notify:
  "approx_deliver rf rf' \<Longrightarrow> approx (notify_observers rf n m w) (notify_observers rf' n m w)"
  unfolding notify_observers_def Let_def approx_deliver_def by (rule approx_for_each) blast

lemma approx_signal: "approx_deliver rf rf' \<Longrightarrow> approx (signal E rf n m w) (signal E rf' n m w)"
  unfolding signal_def by (intro approx_andthen approx_notify approx_simps)

lemma approx_finally_unlock: "approx r r' \<Longrightarrow> approx (finally_unlock n r) (finally_unlock n r')"
  by (auto simp: approx_def)

lemma approx_publish:
  "approx_deliver rf rf' \<Longrightarrow> approx (publish_and_reset E rf n w) (publish_and_reset E rf' n w)"
  unfolding publish_and_reset_def Let_def signal_new_def split_beta
  by (auto intro!: approx_finally_unlock approx_andthen approx_signal)

lemma approx_passive:
  "approx_deliver rf rf' \<Longrightarrow> approx (metrics_node_passive E rf n t w) (metrics_node_passive E rf' n t w)"
  unfolding metrics_node_passive_def Let_def by (auto intro: approx_publish)

lemma approx_receive:
  assumes "approx_deliver rf rf'"
  shows "approx (receive E rf n m w) (receive E rf' n m w)"
  unfolding receive_def Let_def
  by (cases "class_part (heap w n)")
    (auto simp: callback_fun_receive_def filter_fun_receive_def filter_name_receive_def
      filter_name_passthrough_receive_def map_fun_receive_def every_n_receive_def last_one_receive_def
      message_printer_receive_def metrics_printer_receive_def saver_receive_def metrics_node_receive_def
      Let_def split_beta
      split: option.split outcome.split mapped.split
      intro!: approx_andthen approx_bnd approx_signal approx_passive assms)

lemma approx_virtual:
  assumes "approx_deliver rf rf'"
  shows "approx_deliver (virtual_receive_from E rf) (virtual_receive_from E rf')"
  using assms unfolding approx_deliver_def virtual_receive_from_def
  by (auto split: node_class.split intro!: approx_publish approx_receive simp: approx_deliver_def)

lemma receive_from_Suc: "receive_from (Suc d) E = virtual_receive_from E (receive_from d E)"
  by (intro ext) simp

lemma approx_receive_from: "d \<le> d' \<Longrightarrow> approx_deliver (receive_from d E) (receive_from d' E)"
proof (induction d arbitrary: d')
  case 0
  then show ?case by (simp add: approx_deliver_def)
next
  case (Suc d)
  then obtain d'' where "d' = Suc d''" "d \<le> d''"
    by (cases d') auto
  with Suc.IH [of d''] show ?case
    by (simp only: receive_from_Suc approx_virtual)
qed

lemma send_depth_irrelevant: "send d E n m w \<noteq> NoReturn \<Longrightarrow> d \<le> d' \<Longrightarrow> send d' E n m w = send d E n m w"
  by (rule approx_returns [OF approx_signal [OF approx_receive_from]])

section \<open>Without a cycle every signal returns\<close>

text \<open>
  A rank that every call decreases; the publishers whose rank is below \<open>b\<close> are not locked.
\<close>

definition ready :: "(nid \<Rightarrow> nat) \<Rightarrow> nat \<Rightarrow> 'u world \<Rightarrow> bool" where
  "ready h b w \<longleftrightarrow>
     owns_publishers w \<and>
     (\<forall>a c. c \<in> set (observers (heap w a)) \<longrightarrow> h c < h a) \<and>
     (\<forall>a ms. class_part (heap w a) = MetricsNode ms \<longrightarrow> h (publisher_node ms) < h a) \<and>
     (\<forall>q p. class_part (heap w q) = MetricsPublisherNode p \<longrightarrow> h q < b \<longrightarrow> \<not> mtx p)"

lemma ready_mono: "ready h b w \<Longrightarrow> a \<le> b \<Longrightarrow> ready h a w"
  by (simp add: ready_def)

lemma ready_same:
  assumes "ready h b w" and s: "same_structure w v"
  shows "ready h b v"
proof -
  have parts: "keeps_part (class_part (heap w n)) (class_part (heap v n))" for n
    using s by (simp add: same_structure_def same_parts_def)
  have "h (publisher_node ms) < h a" if "class_part (heap v a) = MetricsNode ms" for a ms
    using keeps_metrics_back [of "class_part (heap w a)" ms] parts [of a] that assms(1)
    by (auto simp: ready_def) metis
  moreover have "\<not> mtx p" if "class_part (heap v q) = MetricsPublisherNode p" "h q < b" for q p
    using parts [of q] that assms(1)
    by (cases "class_part (heap w q)") (auto simp: ready_def)
  ultimately show ?thesis
    using assms owns_publishers_same by (auto simp: ready_def same_structure_def)
qed

lemma ready_ends: "ends (same_structure w) r \<Longrightarrow> ready h b w \<Longrightarrow> ends (ready h b) r"
  by (blast intro: ends_mono ready_same)

lemma ready_owns: "ready h b w \<Longrightarrow> owns_publishers w"
  by (simp add: ready_def)

text \<open>The client's functions return, or throw.\<close>

definition returning :: "'u env \<Rightarrow> bool" where
  "returning E \<longleftrightarrow>
     (\<forall>k m msg u. callbackfun E k m msg u \<noteq> NoReturn \<and> filterfun E k m msg u \<noteq> NoReturn \<and>
        mapfun E k m msg u \<noteq> NoReturn)"

definition returns_below :: "(nid \<Rightarrow> nat) \<Rightarrow> nat \<Rightarrow> 'u deliver \<Rightarrow> bool" where
  "returns_below h b rf \<longleftrightarrow> (\<forall>n m s w. h n < b \<longrightarrow> ready h (Suc (h n)) w \<longrightarrow> rf n m s w \<noteq> NoReturn)"

lemma set_sender_info_returns: "set_sender_info L name g c m \<noteq> NoReturn"
  by (auto simp: set_sender_info_def set_source_node_guid_def set_source_node_name_def Let_def
      split: option.split)

lemma stamp_returns: "stamp_message E n m w \<noteq> NoReturn"
  using set_sender_info_returns by (auto simp: stamp_message_def split: outcome.split)

lemma on_user_returns: "f (user w) \<noteq> NoReturn \<Longrightarrow> on_user f w \<noteq> NoReturn"
  by (cases "f (user w)") simp_all

lemma ready_heap: "heap v = heap w \<Longrightarrow> ready h b v = ready h b w"
  by (simp add: ready_def owns_publishers_def)

lemma returns_notify:
  assumes rf: "returns_below h (h n) rf" "frame.stable_deliver rf" and w: "ready h (h n) (w :: 'u world)"
  shows "notify_observers rf n m w \<noteq> NoReturn"
proof -
  have "same_structure w (count_send n w)"
    by (rule frame.R_count)
  then have w': "ready h (h n) (count_send n w)"
    using w by (rule ready_same [rotated])
  show ?thesis
    unfolding notify_observers_def Let_def
  proof (rule returns_for_each [where P = "ready h (h n)", OF w'])
    fix c and v :: "'u world" assume "c \<in> set (get_observers (count_send n w) n)" and v: "ready h (h n) v"
    then have c: "h c < h n"
      using w' by (simp add: ready_def get_observers_def)
    then have "rf c m n v \<noteq> NoReturn"
      using rf(1) v ready_mono [OF v, of "Suc (h c)"] by (simp add: returns_below_def)
    moreover have "ends (ready h (h n)) (rf c m n v)"
      using rf(2) v by (intro ready_ends [OF _ v] frame.stableD) (simp_all add: frame.stable_deliver_def ready_owns)
    ultimately show "rf c m n v \<noteq> NoReturn \<and> ends (ready h (h n)) (rf c m n v)" ..
  qed
qed

lemma returns_signal:
  assumes rf: "returns_below h (h n) rf" "frame.stable_deliver rf" and w: "ready h (h n) w"
  shows "signal E rf n m w \<noteq> NoReturn"
  unfolding signal_def
proof (rule returns_andthen [OF stamp_returns])
  show "ends (ready h (h n)) (stamp_message E n m w)"
    using frame.stableD [OF frame.stable_stamp ready_owns [OF w]] w by (rule ready_ends)
qed (rule returns_notify [OF rf])

lemma returns_signal_new:
  assumes rf: "returns_below h (h n) rf" "frame.stable_deliver rf" and w: "ready h (h n) w"
  shows "signal_new E rf n msg w \<noteq> NoReturn"
proof -
  have "heap (snd (new_message msg w)) = heap w"
    by (simp add: new_message_def)
  with w have "ready h (h n) (snd (new_message msg w))"
    using ready_heap by blast
  from returns_signal [OF rf this] show ?thesis
    unfolding signal_new_def Let_def split_beta .
qed

lemma ready_locked:
  assumes w: "ready h (Suc (h n)) w" and p: "class_part (heap w n) = MetricsPublisherNode p"
  shows "ready h (h n) (locked True n w)"
  using assms
  by (auto simp: ready_def owns_publishers_def is_publisher_def locked_def update_publisher_def split: if_splits)

lemma finally_unlock_returns: "r \<noteq> NoReturn \<Longrightarrow> finally_unlock n r \<noteq> NoReturn"
  by (cases r) simp_all

lemma returns_publish:
  assumes rf: "returns_below h (h n) rf" "frame.stable_deliver rf" and w: "ready h (Suc (h n)) w"
    and p: "class_part (heap w n) = MetricsPublisherNode p"
  shows "publish_and_reset E rf n w \<noteq> NoReturn"
proof -
  let ?w = "snd (get_current_time E (snd (get_current_time E (locked True n w))))"
  have "\<not> mtx p"
    using w p by (auto simp: ready_def)
  have "heap ?w = heap (locked True n w)"
    by (simp add: get_current_time_def)
  with ready_locked [OF w p] have "ready h (h n) ?w"
    using ready_heap by blast
  then have "signal_new E rf n msg ?w \<noteq> NoReturn" for msg
    by (rule returns_signal_new [OF rf])
  then have "andthen (signal_new E rf n msg ?w) (\<lambda>v. let (now, v) = get_current_time E v in Returns () (g now v)) \<noteq> NoReturn" for msg g
    by (rule returns_andthen [OF _ ends_True]) (simp add: split_beta)
  from finally_unlock_returns [OF this] \<open>\<not> mtx p\<close> p show ?thesis
    unfolding publish_and_reset_def Let_def split_beta by simp
qed

lemma ready_node:
  assumes "ready h b w" and "class_part (heap w n) = MetricsNode ms"
  shows "h (publisher_node ms) < h n" and "\<exists>p. class_part (heap w (publisher_node ms)) = MetricsPublisherNode p"
  using assms by (auto simp: ready_def owns_publishers_def is_publisher_def)

lemma returns_publisher_of:
  assumes rf: "returns_below h (h n) rf" "frame.stable_deliver rf" and w: "ready h (h n) w"
    and p: "h q < h n" "class_part (heap w q) = MetricsPublisherNode p"
  shows "publish_and_reset E rf q w \<noteq> NoReturn"
proof (rule returns_publish [OF _ rf(2) _ p(2)])
  show "returns_below h (h q) rf"
    using rf(1) p(1) by (simp add: returns_below_def)
  show "ready h (Suc (h q)) w"
    using w p(1) by (rule ready_mono [OF _ Suc_leI])
qed

lemma returns_passive:
  assumes rf: "returns_below h (h n) rf" "frame.stable_deliver rf" and w: "ready h (h n) w"
    and ms: "class_part (heap w n) = MetricsNode ms"
  shows "metrics_node_passive E rf n t w \<noteq> NoReturn"
proof -
  let ?set = "update_metrics (\<lambda>ms. ms\<lparr>last_passive_publish_time := t\<rparr>) n"
  have publish: "publish_and_reset E rf (publisher_node ms) v \<noteq> NoReturn" if "same_structure w v" for v
  proof -
    have v: "ready h (h n) v"
      using w that by (rule ready_same)
    have "is_publisher (class_part (heap w (publisher_node ms)))"
      using ready_node [OF w ms] by (auto simp: is_publisher_def)
    then have "is_publisher (class_part (heap v (publisher_node ms)))"
      using that keeps_publisher unfolding same_structure_def same_parts_def by blast
    then show ?thesis
      using returns_publisher_of [OF rf v ready_node(1) [OF w ms]] by (auto simp: is_publisher_def)
  qed
  have set: "same_structure v (?set v)" if "class_part (heap v n) = MetricsNode ns" for v :: "'u world" and ns
    using that by (rule frame.R_update_metrics) simp
  have "class_part (heap (?set w) n) = MetricsNode (ms\<lparr>last_passive_publish_time := t\<rparr>)"
    by (simp add: update_metrics_def ms)
  from publish [OF set [OF ms]] publish [OF frame.R_trans [OF set [OF ms] set [OF this]]] show ?thesis
    by (simp add: metrics_node_passive_def ms Let_def)
qed

lemma node_later:
  assumes "same_structure w v" and "class_part (heap w n) = MetricsNode ms"
  shows "\<exists>ns. class_part (heap v n) = MetricsNode ns \<and> publisher_node ns = publisher_node ms"
proof -
  have "keeps_part (MetricsNode ms) (class_part (heap v n))"
    using assms unfolding same_structure_def same_parts_def by metis
  then show ?thesis by (auto split: node_class.splits)
qed

lemma publisher_later:
  assumes "same_structure w v" and "ready h b w" and "class_part (heap w n) = MetricsNode ms"
  shows "\<exists>p. class_part (heap v (publisher_node ms)) = MetricsPublisherNode p"
proof -
  have "is_publisher (class_part (heap w (publisher_node ms)))"
    using ready_node [OF assms(2,3)] by (auto simp: is_publisher_def)
  then show ?thesis
    using assms(1) keeps_publisher unfolding same_structure_def same_parts_def is_publisher_def by blast
qed

lemma returns_metrics_node:
  assumes rf: "returns_below h (h n) rf" "frame.stable_deliver rf" and w: "ready h (h n) (w :: 'u world)"
    and ms: "class_part (heap w n) = MetricsNode ms"
  shows "metrics_node_receive E rf n (signal E rf n) m w \<noteq> NoReturn"
proof -
  let ?tick = "\<lambda>w :: 'u world. snd (get_current_time E w)"
  have tick: "same_structure v (?tick v)" for v
    using frame.R_tick [of v] by (simp add: get_current_time_def)
  have tail: "andthen (record_metrics a b c d e (publisher_node ms) v) (metrics_node_passive E rf n t) \<noteq> NoReturn"
    if v: "same_structure w v" for a b c d e t v
  proof (rule returns_andthen [where P = "same_structure v"])
    obtain p where p: "class_part (heap v (publisher_node ms)) = MetricsPublisherNode p"
      using publisher_later [OF v w ms] by blast
    moreover have "\<not> mtx p"
      using ready_same [OF w v] ready_node(1) [OF w ms] p by (simp add: ready_def)
    ultimately show "record_metrics a b c d e (publisher_node ms) v \<noteq> NoReturn"
      by (simp add: record_metrics_def)
    show "ends (same_structure v) (record_metrics a b c d e (publisher_node ms) v)"
      using p by (intro frame.stable_record) (simp add: is_publisher_def)
    show "metrics_node_passive E rf n t u \<noteq> NoReturn" if "same_structure v u" for u
    proof -
      have wu: "same_structure w u"
        using v that by (rule frame.R_trans)
      then obtain ns where "class_part (heap u n) = MetricsNode ns"
        using node_later ms by blast
      then show ?thesis
        using returns_passive [OF rf ready_same [OF w wu]] by blast
    qed
  qed
  show ?thesis
    unfolding metrics_node_receive_def Let_def split_beta
  proof (rule returns_andthen [where P = "same_structure (?tick w)"], goal_cases)
    case 1
    show ?case
      by (rule returns_signal [OF rf ready_same [OF w tick]])
  next
    case 2
    have "owns_publishers (?tick w)"
      using ready_owns [OF ready_same [OF w tick]] .
    then show ?case
      by (rule frame.stableD [OF frame.stable_signal [OF rf(2)]])
  next
    case (3 v)
    then have wv: "same_structure w (?tick v)"
      using tick frame.R_trans by blast
    let ?v1 = "\<lambda>t. update_metrics (\<lambda>ms. ms\<lparr>last_receive_time := t\<rparr>) n (?tick v)"
    let ?v2 = "\<lambda>t g i. update_metrics (\<lambda>ms. ms\<lparr>last_received_indexes := (last_received_indexes ms)(g := Some i)\<rparr>) n (?v1 t)"
    have set: "same_structure w (update_metrics f n v)"
      if v: "same_structure w v" and f: "\<And>ms. keeps_part (MetricsNode ms) (MetricsNode (f ms))" for v f
    proof -
      obtain ns where "class_part (heap v n) = MetricsNode ns"
        using node_later [OF v ms] by blast
      then have "same_structure v (update_metrics f n v)"
        by (rule frame.R_update_metrics) (rule f)
      with v show ?thesis by (rule frame.R_trans)
    qed
    have "same_structure w (?v2 t g i)" for t g i
      by (rule set, rule set, rule wv) simp_all
    moreover have "publisher_node (metrics_part (class_part (heap (?tick v) n))) = publisher_node ms"
      using node_later [OF wv ms] by auto
    ultimately show ?case
      using tail by (simp split: option.split)
  qed
qed

lemma returns_receive:
  assumes E: "returning E" and rf: "returns_below h (h n) rf" "frame.stable_deliver rf"
    and w: "ready h (h n) (w :: 'u world)"
  shows "receive E rf n m w \<noteq> NoReturn"
proof -
  have sig: "signal E rf n i v \<noteq> NoReturn" if "heap v = heap w" for i v
    using ready_heap [OF that, of h "h n"] w by (intro returns_signal [OF rf]) simp
  have sig': "signal E rf n i v \<noteq> NoReturn" if "same_structure w v" for i v
    by (rule returns_signal [OF rf ready_same [OF w that]])
  have user: "on_user f w \<noteq> NoReturn" if "\<And>u. f u \<noteq> NoReturn" for f :: "'u \<Rightarrow> (error, 'u, 'a) outcome"
    using that by (intro on_user_returns)
  have heap: "ends (\<lambda>v. heap v = heap w) (on_user f w)" for f :: "'u \<Rightarrow> (error, 'u, 'a) outcome"
    by (cases "f (user w)") simp_all
  show ?thesis
  proof (cases "class_part (heap w n)")
    case (CallbackFun k)
    have "callback_fun_receive E k (signal E rf n) m w \<noteq> NoReturn"
      unfolding callback_fun_receive_def
      by (rule returns_andthen [OF user heap sig]) (use E in \<open>auto simp: returning_def\<close>)
    then show ?thesis by (simp add: receive_def CallbackFun)
  next
    case (FilterFun k)
    have "filter_fun_receive E k (signal E rf n) m w \<noteq> NoReturn"
      unfolding filter_fun_receive_def
      by (rule returns_bnd [OF user heap]) (use E sig in \<open>auto simp: returning_def\<close>)
    then show ?thesis by (simp add: receive_def FilterFun)
  next
    case (MapFun k)
    have "map_fun_receive E k (signal E rf n) m w \<noteq> NoReturn"
      unfolding map_fun_receive_def
      by (rule returns_bnd [OF user heap])
        (use E sig in \<open>auto simp: returning_def new_message_def split: mapped.split\<close>)
    then show ?thesis by (simp add: receive_def MapFun)
  next
    case (EveryN k i)
    have "every_n_receive n (signal E rf n) m w \<noteq> NoReturn"
      unfolding every_n_receive_def
      by (rule returns_andthen [OF _ ends_True]) (simp_all add: sig every_n_advance_def Let_def)
    then show ?thesis by (simp add: receive_def EveryN)
  next
    case (LastOne l)
    have "same_structure w (set_node n (set_class (LastOne (Some m))) w)"
      by (rule frame.R_class) (simp_all add: LastOne)
    then show ?thesis by (simp add: receive_def LastOne last_one_receive_def sig')
  next
    case (UniversalDataSaver sv)
    have "same_structure w (write_stream bs n w)" if "saver_open sv" for bs
      using frame.R_file [OF UniversalDataSaver that] .
    then show ?thesis
      by (simp add: receive_def UniversalDataSaver saver_receive_def Let_def sig sig')
  next
    case MetricsPrinter
    have "metrics_pretty_print L msg s \<noteq> NoReturn" for L msg s
      by (rule metrics_pretty_print_returns)
    then show ?thesis
      by (auto simp: receive_def MetricsPrinter metrics_printer_receive_def sig Let_def split: outcome.split)
  next
    case (MetricsNode ms)
    then show ?thesis
      using returns_metrics_node [OF rf w] by (simp add: receive_def)
  qed (auto simp: receive_def Let_def sig filter_name_receive_def filter_name_passthrough_receive_def
      message_printer_receive_def producer_receive_def split: option.split)
qed

lemma returns_receive_from:
  assumes "returning (E :: 'u env)"
  shows "returns_below h d (receive_from d E)"
proof (induction d)
  case 0
  then show ?case by (simp add: returns_below_def)
next
  case (Suc d)
  show ?case
    unfolding returns_below_def
  proof (intro allI impI)
    fix n m s and w :: "'u world" assume n: "h n < Suc d" and w: "ready h (Suc (h n)) w"
    have below: "returns_below h (h n) (receive_from d E)"
      using Suc n by (simp add: returns_below_def)
    show "receive_from (Suc d) E n m s w \<noteq> NoReturn"
      using returns_publish [OF below frame.stable_receive_from w]
        returns_receive [OF assms below frame.stable_receive_from ready_mono [OF w]]
      by (auto simp: virtual_receive_from_def split: node_class.split)
  qed
qed

lemma send_returns:
  assumes "returning E" and "ready h (h n) w" and "h n \<le> d"
  shows "send d E n m w \<noteq> NoReturn"
proof (rule returns_signal [OF _ frame.stable_receive_from assms(2)])
  show "returns_below h (h n) (receive_from d E)"
    using returns_receive_from [OF assms(1), of h d] assms(3) by (simp add: returns_below_def)
qed

text \<open>A call goes along a connection, or from a \<open>MetricsNode\<close> to its publisher.\<close>

definition calls :: "'u world \<Rightarrow> (nid \<times> nid) set" where
  "calls w = {(a, c). c \<in> set (get_observers w a)} \<union>
     {(a, c). \<exists>ms. class_part (heap w a) = MetricsNode ms \<and> c = publisher_node ms}"

definition unlocked :: "'u world \<Rightarrow> bool" where
  "unlocked w \<longleftrightarrow> (\<forall>q p. class_part (heap w q) = MetricsPublisherNode p \<longrightarrow> \<not> mtx p)"

lemma card_below:
  assumes "finite r" and "acyclic r" and "(a, c) \<in> r"
  shows "card (r\<^sup>+ `` {c}) < card (r\<^sup>+ `` {a})"
proof (rule psubset_card_mono)
  show "finite (r\<^sup>+ `` {a})"
    using assms(1) by (simp add: finite_trancl)
  have "r\<^sup>+ `` {c} \<subseteq> r\<^sup>+ `` {a}"
    using assms(3) by (auto intro: trancl_into_trancl2)
  moreover have "c \<in> r\<^sup>+ `` {a}" "c \<notin> r\<^sup>+ `` {c}"
    using assms(2,3) by (auto simp: acyclic_def)
  ultimately show "r\<^sup>+ `` {c} \<subset> r\<^sup>+ `` {a}"
    by blast
qed

lemma acyclic_ready:
  assumes "finite (calls w)" and "acyclic (calls w)" and "owns_publishers w" and "unlocked w"
  shows "ready (\<lambda>n. card ((calls w)\<^sup>+ `` {n})) b w"
proof -
  have "(a, c) \<in> calls w" if "c \<in> set (observers (heap w a))" for a c
    using that by (simp add: calls_def get_observers_def)
  moreover have "(a, publisher_node ms) \<in> calls w" if "class_part (heap w a) = MetricsNode ms" for a ms
    using that by (simp add: calls_def)
  ultimately show ?thesis
    using assms(3,4) card_below [OF assms(1,2)] by (auto simp: ready_def unlocked_def)
qed

lemma acyclic_send_returns:
  assumes "finite (calls w)" and "acyclic (calls w)" and "owns_publishers w" and "unlocked w"
    and "returning E" and "card ((calls w)\<^sup>+ `` {n}) \<le> d"
  shows "send d E n m w \<noteq> NoReturn"
  using assms by (intro send_returns [OF assms(5) acyclic_ready])

section \<open>Deliveries on plain nodes\<close>

text \<open>The classes whose \<open>receive\<close> is the one of \<open>Node\<close>: it just signals.\<close>

fun passes :: "node_class \<Rightarrow> bool" where
  "passes PlainNode = True"
| "passes NullNode = True"
| "passes PlainRunnable = True"
| "passes (FrequencyGenerator hz k) = True"
| "passes (UniversalDataPlayer p) = True"
| "passes (GraphRoot r) = True"
| "passes _ = False"

lemma passes_receive: "passes (class_part (heap w n)) \<Longrightarrow> receive_from (Suc d) E n m s w = send d E n m w"
  by (cases "class_part (heap w n)") (simp_all add: virtual_receive_from_def receive_def)

text \<open>
  The nodes that receive a message when \<open>n\<close> does, \<open>n\<close> included, in the order in which they
  do; a node is listed as often as it receives.
\<close>

primrec deliveries :: "nat \<Rightarrow> (nid \<Rightarrow> nid list) \<Rightarrow> nid \<Rightarrow> nid list option" where
  "deliveries 0 G n = None"
| "deliveries (Suc d) G n = map_option (\<lambda>xss. n # concat xss) (those (map (deliveries d G) (G n)))"

definition stamped :: "flexlib \<Rightarrow> message \<Rightarrow> bool" where
  "stamped L m \<longleftrightarrow> message_counter L m \<noteq> - 1 \<and> (\<exists>g. source_node_guid L m = Some g \<and> g \<noteq> nil_uuid)"

lemma stamped_unchanged: "stamped L m \<Longrightarrow> set_sender_info L name guid c m = Returns () m"
  by (auto simp: stamped_def set_sender_info_def nil_uuid_def uuid.expand Let_def split: option.split)

lemma sent_message_stamped: "stamped L sent_message"
  using has_meta_simps [OF sent_message_meta] by (simp add: stamped_def nil_uuid_def)

definition plain_part :: "'u env \<Rightarrow> nid set \<Rightarrow> (nid \<Rightarrow> nid list) \<Rightarrow> message \<Rightarrow> mid \<Rightarrow> 'u world \<Rightarrow> bool" where
  "plain_part E N G msg m w \<longleftrightarrow>
     get_observers w = G \<and> (\<forall>n \<in> N. passes (class_part (heap w n)) \<and> set (G n) \<subseteq> N) \<and>
     msgs w m = msg \<and> stamped (lib E) msg"

lemma plain_part_count: "plain_part E N G msg m w \<Longrightarrow> plain_part E N G msg m (count_send n w)"
  by (auto simp: plain_part_def count_send_def get_observers_def fun_eq_iff)

lemma plain_part_counts: "plain_part E N G msg m w \<Longrightarrow> plain_part E N G msg m (fold count_send xs w)"
  by (induction xs arbitrary: w) (simp_all add: plain_part_count)

definition counted :: "nid list option \<Rightarrow> 'u world \<Rightarrow> (error, 'u world, unit) outcome" where
  "counted xs w = (case xs of None \<Rightarrow> NoReturn | Some xs \<Rightarrow> Returns () (fold count_send xs w))"

lemma for_each_counted:
  assumes "\<And>c w. c \<in> set cs \<Longrightarrow> P w \<Longrightarrow> f c w = counted (g c) w"
    and P: "\<And>xs w. P w \<Longrightarrow> P (fold count_send xs w)" and "P w"
  shows "for_each f cs w = counted (map_option concat (those (map g cs))) w"
  using assms(1,3)
proof (induction cs arbitrary: w)
  case Nil
  then show ?case by (simp add: counted_def)
next
  case (Cons c cs)
  then show ?case
    using P by (cases "g c"; cases "those (map g cs)") (auto simp: counted_def)
qed

lemma send_counted:
  assumes "plain_part E N G msg m w" and "\<And>c w. c \<in> set (G n) \<Longrightarrow> plain_part E N G msg m w \<Longrightarrow>
      receive_from d E c m n w = counted (deliveries d G c) w"
  shows "send d E n m w = counted (deliveries (Suc d) G n) w"
proof -
  have "stamp_message E n m w = Returns () w"
    using assms(1) stamped_unchanged by (auto simp: stamp_message_def plain_part_def)
  moreover have "get_observers (count_send n w) n = G n"
    using plain_part_count [OF assms(1)] by (simp add: plain_part_def)
  moreover have "for_each (\<lambda>o'. receive_from d E o' m n) (G n) (count_send n w) =
      counted (map_option concat (those (map (deliveries d G) (G n)))) (count_send n w)"
    by (rule for_each_counted [where P = "plain_part E N G msg m"])
      (use assms in \<open>auto intro: plain_part_counts plain_part_count\<close>)
  ultimately show ?thesis
    by (simp add: signal_def notify_observers_def counted_def split: option.split)
qed

lemma receive_counted:
  assumes "plain_part E N G msg m w" and "n \<in> N"
  shows "receive_from d E n m s w = counted (deliveries d G n) w"
  using assms
proof (induction d arbitrary: n s w)
  case 0
  then show ?case by (simp add: counted_def)
next
  case (Suc d)
  have "receive_from (Suc d) E n m s w = send d E n m w"
    using Suc.prems by (intro passes_receive) (simp add: plain_part_def)
  also have "\<dots> = counted (deliveries (Suc d) G n) w"
    using Suc by (intro send_counted [OF Suc.prems(1)] Suc.IH) (auto simp: plain_part_def)
  finally show ?case .
qed

lemma counter_counts:
  "message_send_counter (heap (fold count_send xs w) n) = message_send_counter (heap w n) + of_nat (count_list xs n)"
  by (induction xs arbitrary: w) (simp_all add: count_send_def algebra_simps)

lemma fold_count_send:
  "class_part (heap (fold count_send xs w) n) = class_part (heap w n)"
  "files (fold count_send xs w) = files w" "msgs (fold count_send xs w) = msgs w"
  "next_msg (fold count_send xs w) = next_msg w" "get_observers (fold count_send xs w) = get_observers w"
  "polls (fold count_send xs w) = polls w" "thread_part (heap (fold count_send xs w) n) = thread_part (heap w n)"
  "ticks (fold count_send xs w) = ticks w" "sleeps (fold count_send xs w) = sleeps w"
  "node_name (heap (fold count_send xs w) n) = node_name (heap w n)"
  "node_guid (heap (fold count_send xs w) n) = node_guid (heap w n)"
  by (induction xs arbitrary: w) (auto simp: count_send_def get_observers_def fun_eq_iff)

text \<open>A cycle among the nodes has no finite list of deliveries.\<close>

lemma those_None: "x \<in> set xs \<Longrightarrow> x = None \<Longrightarrow> those xs = None"
  by (induction xs) (auto split: option.splits)

lemma deliveries_cycle:
  assumes "\<And>n. n \<in> C \<Longrightarrow> set (G n) \<inter> C \<noteq> {}"
  shows "n \<in> C \<Longrightarrow> deliveries d G n = None"
proof (induction d arbitrary: n)
  case 0
  then show ?case by simp
next
  case (Suc d)
  then obtain c where "c \<in> set (G n)" "c \<in> C"
    using assms by blast
  then have "those (map (deliveries d G) (G n)) = None"
    using Suc.IH by (intro those_None [of "deliveries d G c"]) (simp_all, metis imageI)
  then show ?case by simp
qed

text \<open>What two savers without append do to one file: the second writes over what the first wrote.\<close>

lemma put_at_twice: "length xs \<le> length ys \<Longrightarrow> put_at pos ys (put_at pos xs content) = put_at pos ys content"
  by (cases "pos \<le> length content") (simp_all add: put_at_def add.commute)

lemma savers_overwrite:
  assumes "class_part (heap w a) = UniversalDataSaver sa" "class_part (heap w b) = UniversalDataSaver sb" "a \<noteq> b"
    and "\<not> saver_app sa" "\<not> saver_app sb" "saver_pos sa = saver_pos sb" "saver_path sa = saver_path sb"
    and "length xs \<le> length ys"
  shows "files (write_stream ys b (write_stream xs a w)) = files (write_stream ys b w)"
proof -
  have "class_part (heap (write_stream xs a w) b) = UniversalDataSaver sb"
    using assms(2,3) by (simp add: write_stream_saver [OF assms(1)])
  then show ?thesis
    using assms by (simp add: write_stream_saver put_at_twice fun_eq_iff)
qed

section \<open>Properties\<close>

text \<open>C7: However a signal travels, and however it ends, it changes no connection, no name, no identifier and
  no thread, creates no node, and releases every lock it has taken.\<close>

theorem signal_keeps_the_graph:
  assumes "owns_publishers w"
  shows "ends (\<lambda>v. get_observers v = get_observers w \<and> next_node v = next_node w \<and>
    (\<forall>n. node_name (heap v n) = node_name (heap w n) \<and> node_guid (heap v n) = node_guid (heap w n) \<and>
         thread_part (heap v n) = thread_part (heap w n)) \<and>
    (unlocked w \<longrightarrow> unlocked v)) (send d E n m w)"
proof (rule ends_mono [OF frame.dispatch_relates(2) [OF assms]])
  fix v assume s: "same_structure w v"
  have parts: "keeps_part (class_part (heap w q)) (class_part (heap v q))" for q
    using s by (simp add: same_structure_def same_parts_def)
  have "\<not> mtx p" if "unlocked w" "class_part (heap v q) = MetricsPublisherNode p" for q p
    using parts [of q] that by (cases "class_part (heap w q)") (auto simp: unlocked_def)
  then show "get_observers v = get_observers w \<and> next_node v = next_node w \<and>
      (\<forall>n. node_name (heap v n) = node_name (heap w n) \<and> node_guid (heap v n) = node_guid (heap w n) \<and>
           thread_part (heap v n) = thread_part (heap w n)) \<and> (unlocked w \<longrightarrow> unlocked v)"
    using s by (auto simp: same_structure_def get_observers_def unlocked_def fun_eq_iff)
qed

theorem signal_keeps_the_graph_witness:
  "ends (\<lambda>v. get_observers v = diamond) (send 3 example_env 0 0 (example_world diamond (\<lambda>_. MessagePrinter)))"
  by (rule ends_mono [OF signal_keeps_the_graph]) (simp_all add: owns_publishers_def)

text \<open>C25: While a signal travels, no file gets shorter and printed output is only appended to. A file on which
  every open saver appends, or on which a single saver is open that stands at its end, is only
  appended to, and stays such a file. Without this side condition recorded bytes can be lost:
  two savers that opened one file without appending write over each other, as
  \<open>savers_overwrite\<close> shows.\<close>

theorem signal_only_appends:
  assumes "owns_publishers w"
  shows "ends (\<lambda>v. (\<forall>path. length (files w path) \<le> length (files v path)) \<and>
    (\<forall>path. append_only w path \<longrightarrow> append_only v path \<and> (\<exists>bs. files v path = files w path @ bs)) \<and>
    (\<exists>out. console v = console w @ out) \<and> ticks w \<le> ticks v) (send d E n m w)"
  by (rule ends_mono [OF growth.dispatch_relates(2) [OF assms]]) (simp add: grows_def)

theorem signal_only_appends_witness:
  "ends (\<lambda>v. \<exists>bs. files v ''rec'' = [1, 2] @ bs)
     (send 3 example_env 0 0 ((example_world diamond ((\<lambda>_. MessagePrinter)
        (3 := UniversalDataSaver \<lparr>saver_path = ''rec'', saver_open = True, saver_app = False, saver_pos = 2\<rparr>)))
       \<lparr>files := (\<lambda>_. [1, 2])\<rparr>))"
proof -
  let ?w = "(example_world diamond ((\<lambda>_. MessagePrinter)
        (3 := UniversalDataSaver \<lparr>saver_path = ''rec'', saver_open = True, saver_app = False, saver_pos = 2\<rparr>)))
       \<lparr>files := (\<lambda>_. [1, 2])\<rparr>"
  have w: "owns_publishers ?w" "append_only ?w ''rec''"
    by (auto simp: owns_publishers_def append_only_def saver_on_def split: if_splits)
  show ?thesis
    by (rule ends_mono [OF signal_only_appends [OF w(1)]]) (use w(2) in auto)
qed

text \<open>C1: If connections and metrics publishers form no cycle, no publisher is locked and the client's
  functions return, then every signal returns or throws. The number of nodes below the sender is a sufficient
  depth, and every greater depth gives the same result.\<close>

theorem acyclic_signal_returns:
  assumes "finite (calls w)" and "acyclic (calls w)" and "owns_publishers w" and "unlocked w" and "returning E"
  shows "\<exists>r. r \<noteq> NoReturn \<and> (\<forall>d \<ge> card ((calls w)\<^sup>+ `` {n}). send d E n m w = r)"
proof (intro exI conjI allI impI)
  let ?d = "card ((calls w)\<^sup>+ `` {n})"
  show ret: "send ?d E n m w \<noteq> NoReturn"
    by (rule acyclic_send_returns [OF assms order_refl])
  show "send d E n m w = send ?d E n m w" if "?d \<le> d" for d
    using ret that by (rule send_depth_irrelevant)
qed

theorem acyclic_signal_returns_witness:
  "\<exists>d. send d example_env 0 0 (example_world diamond (\<lambda>n. if n = 3 then CallbackFun 0 else PlainNode)) \<noteq> NoReturn"
proof -
  let ?w = "example_world diamond (\<lambda>n. if n = 3 then CallbackFun 0 else PlainNode)"
  have calls: "calls ?w = {(0, 1), (0, 2), (1, 3), (2, 3)}"
    by (auto simp: calls_def diamond_def split: if_splits)
  then have c: "finite (calls ?w)" "acyclic (calls ?w)"
    using acyclic_diamond by simp_all
  have "owns_publishers ?w" "unlocked ?w" "returning example_env"
    by (auto simp: owns_publishers_def unlocked_def returning_def example_env_def split: if_splits)
  from acyclic_signal_returns [OF c this] show ?thesis
    by blast
qed

text \<open>C14: Around a cycle of nodes that just forward, a signal never returns: there is no guard against
  receiving a message twice.\<close>

theorem cycle_never_returns:
  assumes "\<forall>n \<in> N. passes (class_part (heap w n)) \<and> set (get_observers w n) \<subseteq> N"
    and "C \<subseteq> N" and "\<forall>n \<in> C. set (get_observers w n) \<inter> C \<noteq> {}" and "n \<in> C"
    and "stamped (lib E) (msgs w m)"
  shows "send d E n m w = NoReturn"
proof -
  have plain: "plain_part E N (get_observers w) (msgs w m) m w"
    using assms(1,5) by (simp add: plain_part_def)
  have "send d E n m w = counted (deliveries (Suc d) (get_observers w) n) w"
    using assms by (intro send_counted [OF plain] receive_counted [where N = N]) auto
  moreover have "deliveries (Suc d) (get_observers w) n = None"
    using assms(3,4) by (intro deliveries_cycle [of C]) auto
  ultimately show ?thesis
    by (simp add: counted_def)
qed

theorem cycle_never_returns_witness:
  "send 1000 example_env 0 0 ((example_world ring (\<lambda>_. PlainNode))\<lparr>msgs := (\<lambda>_. sent_message)\<rparr>) = NoReturn"
proof -
  have "get_observers (w\<lparr>msgs := f\<rparr>) = get_observers w" for w :: "unit world" and f
    by (simp add: get_observers_def fun_eq_iff)
  then show ?thesis
    by (intro cycle_never_returns [of "{0, 1}" _ "{0, 1}"]) (simp_all add: ring_def sent_message_stamped)
qed

end
