(* ===== verification/Recorder.thy ===== *)
theory Recorder
  imports Delivery Runnable
begin

text \<open>
  Recording messages to a file (\<open>universal_data_saver.cpp\<close>) and playing the file back
  (\<open>universal_data_player.cpp\<close>). Opening a saver's file truncates it unless it is opened to append, and
  writing starts at its beginning; different paths are different files. A record is the size of a message in four little-endian bytes and
  the raw bytes of the message. A file is its bytes; an input stream is a position in the
  file and the two state bits. Bytes of a buffer that a short read leaves as they were have the values
  \<open>junk_byte\<close>.
\<close>

section \<open>The saver\<close>

definition open_file_stream :: "'u env \<Rightarrow> bool \<Rightarrow> nid \<Rightarrow> 'u world \<Rightarrow> 'u world" where
  "open_file_stream E app self w =
     (let path = saver_path (saver_part (class_part (heap w self)));
          w = (if can_open E path \<and> \<not> app then w\<lparr>files := (files w)(path := [])\<rparr> else w)
      in update_saver (\<lambda>sv. sv\<lparr>saver_open := can_open E path, saver_app := app, saver_pos := 0\<rparr>) self w)"

definition new_saver :: "'u env \<Rightarrow> string \<Rightarrow> bool \<Rightarrow> string \<Rightarrow> 'u world \<Rightarrow> nid \<times> 'u world" where
  "new_saver E path app name w =
     (let (self, w) = new_node E name None (UniversalDataSaver
            \<lparr>saver_path = path, saver_open = False, saver_app = False, saver_pos = 0\<rparr>) w
      in (self, open_file_stream E app self w))"

definition set_file_path :: "'u env \<Rightarrow> string \<Rightarrow> bool \<Rightarrow> nid \<Rightarrow> 'u world \<Rightarrow> 'u world" where
  "set_file_path E path app self w =
     open_file_stream E app self (update_saver (\<lambda>sv. sv\<lparr>saver_path := path, saver_open := False\<rparr>) self w)"

definition record_message :: "'u env \<Rightarrow> 'u deliver \<Rightarrow> nid \<Rightarrow> mid \<Rightarrow> 'u act" where
  "record_message E rf self m = receive E rf self m"

definition record_bytes :: "flexlib \<Rightarrow> message \<Rightarrow> byte list" where
  "record_bytes L m = u32_bytes (message_raw_size m) @ take (unat (message_raw_size m)) (raw_bytes L m)"

section \<open>Input streams\<close>

definition stream_good :: "istream \<Rightarrow> bool" where
  "stream_good is \<longleftrightarrow> \<not> in_eof is \<and> \<not> in_fail is"

definition stream_read :: "(nat \<Rightarrow> byte) \<Rightarrow> byte list \<Rightarrow> nat \<Rightarrow> istream \<Rightarrow> byte list \<times> istream" where
  "stream_read junk content n is =
     (if \<not> stream_good is then (map junk [0..<n], is\<lparr>in_fail := True\<rparr>)
      else let got = take n (drop (in_pos is) content) in
        (got @ map junk [length got..<n],
         is\<lparr>in_pos := in_pos is + length got, in_eof := length got < n, in_fail := length got < n\<rparr>))"

text \<open>\<open>peek() == EOF\<close>.\<close>

definition stream_peek_eof :: "byte list \<Rightarrow> istream \<Rightarrow> bool \<times> istream" where
  "stream_peek_eof content is =
     (if \<not> stream_good is then (True, is\<lparr>in_fail := True\<rparr>)
      else if length content \<le> in_pos is then (True, is\<lparr>in_eof := True\<rparr>)
      else (False, is))"

definition stream_rewind :: "istream \<Rightarrow> istream" where
  "stream_rewind is = is\<lparr>in_pos := 0, in_eof := False, in_fail := False\<rparr>"

section \<open>The player\<close>

abbreviation player_of :: "'u world \<Rightarrow> nid \<Rightarrow> player_state" where
  "player_of w self \<equiv> player_part (class_part (heap w self))"

definition update_player :: "(player_state \<Rightarrow> player_state) \<Rightarrow> nid \<Rightarrow> 'u world \<Rightarrow> 'u world" where
  "update_player f self = set_node self (\<lambda>nd. set_class (UniversalDataPlayer (f (player_part (class_part nd)))) nd)"

definition new_player ::
  "'u env \<Rightarrow> string \<Rightarrow> string \<Rightarrow> bool \<Rightarrow> bool \<Rightarrow> bool \<Rightarrow> bool \<Rightarrow> 'u world \<Rightarrow> (error, 'u world, nid) outcome" where
  "new_player E path name fv rt rw vb w =
     (let (self, w) = new_node E name new_thread_part (UniversalDataPlayer
            \<lparr>player_path = path, input_file_stream = \<lparr>in_pos = 0, in_eof = False, in_fail = \<not> can_open E path\<rparr>,
             forever = fv, realtime = rt, rewrite_timestamps = rw, verbose = vb,
             num_messages_replayed = 0, num_bytes_replayed = 0, replay_t0 = 0, messages_t0 = 0\<rparr>) w
      in if can_open E path then Returns self w else Throws (CannotOpenFile path) w)"

definition reset_time :: "'u env \<Rightarrow> nid \<Rightarrow> 'u world \<Rightarrow> 'u world" where
  "reset_time E self w =
     (let (now, w) = get_current_time E w in update_player (\<lambda>p. p\<lparr>replay_t0 := now\<rparr>) self w)"

definition reset_production :: "'u env \<Rightarrow> nid \<Rightarrow> 'u world \<Rightarrow> 'u world" where
  "reset_production E self w = reset_time E self (update_player (\<lambda>p. p\<lparr>messages_t0 := 0\<rparr>) self w)"

text \<open>A message whose data is a buffer of at least eight bytes.\<close>

definition message_of_bytes :: "flexlib \<Rightarrow> byte list \<Rightarrow> message" where
  "message_of_bytes L bs = \<lparr>header = take 8 bs, root = fl_decode L (drop 8 bs), data_len = length bs - 8\<rparr>"

text \<open>The conversion of a \<open>double\<close> to an \<open>int\<close>.\<close>

definition truncate_int :: "real \<Rightarrow> int" where
  "truncate_int x = (if x < 0 then \<lceil>x\<rceil> else \<lfloor>x\<rfloor>)"

definition wait_for_message :: "'u env \<Rightarrow> nid \<Rightarrow> mid \<Rightarrow> 'u world \<Rightarrow> 'u world" where
  "wait_for_message E self i w =
     (let message_timestamp = timestamp (lib E) (msgs w i);
          (time_now, w) = get_current_time E w
      in if messages_t0 (player_of w self) = 0
         then update_player (\<lambda>p. p\<lparr>messages_t0 := message_timestamp\<rparr>) self w
         else let elapsed_time = time_now - replay_t0 (player_of w self);
                  time_to_wait = message_timestamp - messages_t0 (player_of w self);
                  ms_to_sleep = truncate_int ((time_to_wait - elapsed_time) * 1000)
              in w\<lparr>sleeps := sleeps w @ [of_int ms_to_sleep]\<rparr>)"

definition rewrite_message :: "'u env \<Rightarrow> nid \<Rightarrow> mid \<Rightarrow> 'u world \<Rightarrow> 'u world" where
  "rewrite_message E self i w =
     (let (now, w) = get_current_time E w
      in w\<lparr>msgs := (msgs w)(i := set_message_counter (lib E) (message_send_counter (heap w self))
             (set_timestamp (lib E) now (msgs w i)))\<rparr>)"

text \<open>The two reads of a record: its size and its bytes.\<close>

definition read_record :: "'u env \<Rightarrow> nid \<Rightarrow> 'u world \<Rightarrow> (u32 \<times> byte list) \<times> 'u world" where
  "read_record E self w =
     (let content = files w (player_path (player_of w self));
          (sizebuf, is) = stream_read (junk_byte E) content 4 (input_file_stream (player_of w self));
          size = u32_value sizebuf;
          (buf, is) = stream_read (\<lambda>k. junk_byte E (4 + k)) content (unat size) is
      in ((size, buf), update_player (\<lambda>p. p\<lparr>input_file_stream := is,
             num_bytes_replayed := num_bytes_replayed p + ucast size\<rparr>) self w))"

text \<open>
  A buffer shorter than a header makes the accessors of the message read far outside it, as the
  size of its data wraps around.
\<close>

definition read_and_signal :: "'u env \<Rightarrow> 'u deliver \<Rightarrow> nid \<Rightarrow> 'u world \<Rightarrow> (error, 'u world, u32) outcome" where
  "read_and_signal E rf self w =
     (let ((size, buf), w) = read_record E self w in
      if length buf < 8 then Throws OutOfBounds w
      else let (i, w) = new_message (message_of_bytes (lib E) buf) w;
               w = (if realtime (player_of w self) then wait_for_message E self i w else w);
               w = (if rewrite_timestamps (player_of w self) then rewrite_message E self i w else w)
           in andthen (signal E rf self i w) (Returns size))"

definition at_end :: "nid \<Rightarrow> 'u world \<Rightarrow> bool \<times> 'u world" where
  "at_end self w =
     (let p = player_of w self; (eof, is) = stream_peek_eof (files w (player_path p)) (input_file_stream p)
      in (eof, update_player (\<lambda>p. p\<lparr>input_file_stream := is\<rparr>) self w))"

definition rewind :: "nid \<Rightarrow> 'u world \<Rightarrow> 'u world" where
  "rewind = update_player (\<lambda>p. p\<lparr>input_file_stream := stream_rewind (input_file_stream p)\<rparr>)"

definition produce :: "'u env \<Rightarrow> 'u deliver \<Rightarrow> nid \<Rightarrow> 'u world \<Rightarrow> (error, 'u world, bool) outcome" where
  "produce E rf self w =
     (let w = (if replay_t0 (player_of w self) = 0 then reset_production E self w else w) in
      if in_fail (input_file_stream (player_of w self)) then Returns False (reset_production E self w)
      else let (eof, w) = at_end self w in
        if eof \<and> \<not> forever (player_of w self) then Returns False (reset_production E self w)
        else bnd (read_and_signal E rf self (if eof then rewind self w else w)) (\<lambda>_. Returns True))"

primrec produce_loop :: "nat \<Rightarrow> 'u env \<Rightarrow> 'u deliver \<Rightarrow> nid \<Rightarrow> 'u act" where
  "produce_loop 0 E rf self w = NoReturn"
| "produce_loop (Suc k) E rf self w =
     bnd (produce E rf self w) (\<lambda>more w. if more then produce_loop k E rf self w else Returns () w)"

definition replayed_line :: "'u env \<Rightarrow> string \<Rightarrow> u64 \<Rightarrow> u64 \<Rightarrow> real \<Rightarrow> string" where
  "replayed_line E start messages bytes seconds =
     start @ dec_str (unat messages) @ '' messages ('' @ dec_str (unat bytes) @ '' bytes) in '' @
     format_double E seconds @ '' seconds''"

definition produce_all_once :: "nat \<Rightarrow> 'u env \<Rightarrow> 'u deliver \<Rightarrow> nid \<Rightarrow> 'u act" where
  "produce_all_once k E rf self w =
     (if verbose (player_of w self)
      then let (t0, w) = get_current_time E w in
        andthen (produce_loop k E rf self w) (\<lambda>w.
          let (t1, w) = get_current_time E w;
              text = replayed_line E (node_name (heap w self) @ '' replayed '')
                (message_send_counter (heap w self)) (num_bytes_replayed (player_of w self)) (t1 - t0)
          in Returns () (w\<lparr>console := console w @ [text]\<rparr>))
      else produce_loop k E rf self w)"

text \<open>
  The loops of \<open>child_thread_fn\<close>. The size that \<open>read_and_signal\<close> returns is added to the
  number of bytes although \<open>read_and_signal\<close> has added it.
\<close>

primrec replay_records :: "nat \<Rightarrow> 'u env \<Rightarrow> 'u deliver \<Rightarrow> nid \<Rightarrow> 'u act" where
  "replay_records 0 E rf self w = NoReturn"
| "replay_records (Suc k) E rf self w =
     (let (stop, w) = stop_requested E self w in
      if stop \<or> in_fail (input_file_stream (player_of w self)) then Returns () w
      else let (eof, w) = at_end self w in
        if eof then Returns () w
        else bnd (read_and_signal E rf self w) (\<lambda>size w.
          replay_records k E rf self (update_player (\<lambda>p. p\<lparr>
            num_bytes_replayed := num_bytes_replayed p + ucast size,
            num_messages_replayed := num_messages_replayed p + 1\<rparr>) self w)))"

primrec replay_loop :: "nat \<Rightarrow> nat \<Rightarrow> 'u env \<Rightarrow> 'u deliver \<Rightarrow> nid \<Rightarrow> 'u act" where
  "replay_loop 0 k E rf self w = NoReturn"
| "replay_loop (Suc l) k E rf self w =
     (let (stop, w) = stop_requested E self w in
      if stop then Returns () w
      else andthen (replay_records k E rf self w) (\<lambda>w.
        if forever (player_of w self) then replay_loop l k E rf self (rewind self (reset_time E self w))
        else let (t1, w) = get_current_time E w;
                 p = player_of w self;
                 w = (if verbose p
                      then w\<lparr>console := console w @ [replayed_line E ''DONE! Replayed ''
                             (ucast (num_messages_replayed p)) (num_bytes_replayed p) (t1 - replay_t0 p)]\<rparr>
                      else w)
             in replay_loop l k E rf self (node_request_stop self w)))"

definition player_thread_fn :: "nat \<Rightarrow> nat \<Rightarrow> 'u env \<Rightarrow> 'u deliver \<Rightarrow> nid \<Rightarrow> 'u act" where
  "player_thread_fn l k E rf self w = replay_loop l k E rf self (reset_production E self w)"

section \<open>The format of a recording\<close>

text \<open>
  Records with a size of fixed width in front of a body: the contract under which records that were
  written one after the other are found again, one after the other.
\<close>

locale framed_records = fixed_codec width enc dec
  for width :: nat and enc :: "'a \<Rightarrow> byte list" and dec :: "byte list \<Rightarrow> 'a" +
  fixes size_of :: "'b \<Rightarrow> 'a" and nat_of :: "'a \<Rightarrow> nat"
    and body :: "'b \<Rightarrow> byte list" and parse :: "byte list \<Rightarrow> 'b" and ok :: "'b \<Rightarrow> bool"
  assumes length_body: "ok x \<Longrightarrow> length (body x) = nat_of (size_of x)"
    and parse_body: "ok x \<Longrightarrow> parse (body x) = x"
begin

definition frame :: "'b \<Rightarrow> byte list" where
  "frame x = enc (size_of x) @ body x"

text \<open>Reading at a position where a record starts.\<close>

lemma read_size:
  "drop pos content = frame x @ rest \<Longrightarrow> take width (drop pos content) = enc (size_of x)"
  by (simp add: frame_def length_enc)

lemma read_body:
  assumes "drop pos content = frame x @ rest" and "ok x"
  shows "take (nat_of (size_of x)) (drop (pos + width) content) = body x"
    and "drop (pos + width + nat_of (size_of x)) content = rest"
proof -
  have "drop (pos + width) content = body x @ rest"
    using arg_cong [OF assms(1), of "drop width"] by (simp add: frame_def length_enc add.commute)
  then show "take (nat_of (size_of x)) (drop (pos + width) content) = body x"
    by (simp add: length_body [OF assms(2)])
  show "drop (pos + width + nat_of (size_of x)) content = rest"
    using arg_cong [OF \<open>drop (pos + width) content = body x @ rest\<close>, of "drop (nat_of (size_of x))"]
    by (simp add: length_body [OF assms(2)] add.commute)
qed

lemma decode_size: "dec (enc (size_of x)) = size_of x"
  by (rule dec_enc)

end

text \<open>
  What a message has to satisfy to survive in a file: its size fits 32 bits, and the library reads
  back what its data encode.
\<close>

definition recordable :: "flexlib \<Rightarrow> message \<Rightarrow> bool" where
  "recordable L m \<longleftrightarrow>
     length (header m) = 8 \<and> length (fl_encode L (root m)) = data_len m \<and> 8 + data_len m < 2 ^ 32 \<and>
     fl_decode L (fl_encode L (root m)) = root m"

lemma raw_size_recordable: "recordable L m \<Longrightarrow> unat (message_raw_size m) = length (raw_bytes L m)"
  by (simp add: recordable_def message_raw_size_def raw_bytes_def unat_of_nat del: of_nat_add)

interpretation recording: framed_records 4 u32_bytes u32_value message_raw_size unat "raw_bytes L"
  "message_of_bytes L" "recordable L" for L
proof unfold_locales
  show "length (raw_bytes L m) = unat (message_raw_size m)" if "recordable L m" for m
    using raw_size_recordable [OF that] by simp
  show "message_of_bytes L (raw_bytes L m) = m" if "recordable L m" for m
    using that by (simp add: message_of_bytes_def raw_bytes_def recordable_def)
qed

lemma record_bytes_frame: "recordable L m \<Longrightarrow> record_bytes L m = recording.frame L m"
  by (simp add: record_bytes_def recording.frame_def raw_size_recordable)

lemma length_raw_bytes: "recordable L m \<Longrightarrow> 8 \<le> length (raw_bytes L m)"
  by (simp add: raw_bytes_def recordable_def)

section \<open>Reading one record\<close>

text \<open>
  The player is at a record boundary, with the records of \<open>ms\<close> ahead of it, plays them once and
  as they are, and its messages go to plain nodes.
\<close>

definition ready_to_play ::
  "'u env \<Rightarrow> nid set \<Rightarrow> (nid \<Rightarrow> nid list) \<Rightarrow> nid \<Rightarrow> message list \<Rightarrow> 'u world \<Rightarrow> bool" where
  "ready_to_play E N G self ms w \<longleftrightarrow>
     (\<exists>p. class_part (heap w self) = UniversalDataPlayer p \<and> \<not> forever p \<and> \<not> realtime p \<and>
        \<not> rewrite_timestamps p \<and> stream_good (input_file_stream p) \<and>
        drop (in_pos (input_file_stream p)) (files w (player_path p)) = concat (map (record_bytes (lib E)) ms)) \<and>
     get_observers w = G \<and> self \<in> N \<and> (\<forall>n \<in> N. passes (class_part (heap w n)) \<and> set (G n) \<subseteq> N)"

text \<open>The messages of \<open>ms\<close> have been signalled; \<open>xs\<close> are the nodes each of them was delivered to.\<close>

definition replayed :: "nid list \<Rightarrow> message list \<Rightarrow> 'u world \<Rightarrow> 'u world \<Rightarrow> bool" where
  "replayed xs ms w v \<longleftrightarrow>
     next_msg v = next_msg w + length ms \<and>
     msgs v = (\<lambda>i. if next_msg w \<le> i \<and> i < next_msg w + length ms then ms ! (i - next_msg w) else msgs w i) \<and>
     (\<forall>n. message_send_counter (heap v n) = message_send_counter (heap w n) + of_nat (length ms * count_list xs n))"

lemma replayed_same:
  assumes "next_msg v = next_msg w" and "msgs v = msgs w"
    and "\<And>n. message_send_counter (heap v n) = message_send_counter (heap w n)"
  shows "replayed xs [] w v"
  using assms by (auto simp: replayed_def fun_eq_iff)

lemma replayed_Nil: "replayed xs [] w w"
  by (rule replayed_same) simp_all

lemma replayed_trans: "replayed xs ms w u \<Longrightarrow> replayed xs ns u v \<Longrightarrow> replayed xs (ms @ ns) w v"
  by (auto simp: replayed_def algebra_simps nth_append fun_eq_iff)

lemma replayed_Cons: "replayed xs [m] w u \<Longrightarrow> replayed xs ms u v \<Longrightarrow> replayed xs (m # ms) w v"
  using replayed_trans [of xs "[m]"] by simp

text \<open>The threads, the polls and the settings and counts of the player are the same.\<close>

definition same_player :: "nid \<Rightarrow> 'u world \<Rightarrow> 'u world \<Rightarrow> bool" where
  "same_player self w v \<longleftrightarrow>
     (\<forall>n. thread_part (heap v n) = thread_part (heap w n)) \<and> polls v = polls w \<and>
     num_messages_replayed (player_of v self) = num_messages_replayed (player_of w self) \<and>
     verbose (player_of v self) = verbose (player_of w self) \<and>
     forever (player_of v self) = forever (player_of w self)"

lemma update_player_simps [simp]:
  "msgs (update_player f n w) = msgs w" "next_msg (update_player f n w) = next_msg w"
  "files (update_player f n w) = files w" "polls (update_player f n w) = polls w"
  "get_observers (update_player f n w) = get_observers w"
  "message_send_counter (heap (update_player f n w) k) = message_send_counter (heap w k)"
  "thread_part (heap (update_player f n w) k) = thread_part (heap w k)"
  by (auto simp: update_player_def get_observers_def fun_eq_iff)

lemma class_update_player:
  "class_part (heap (update_player f n w) k) =
    (if k = n then UniversalDataPlayer (f (player_of w n)) else class_part (heap w k))"
  by (simp add: update_player_def)

lemma read_record_eq:
  assumes p: "class_part (heap w self) = UniversalDataPlayer p" "stream_good (input_file_stream p)"
    and d: "drop (in_pos (input_file_stream p)) (files w (player_path p)) = record_bytes (lib E) m @ rest"
    and m: "recordable (lib E) m"
  shows "read_record E self w = ((message_raw_size m, raw_bytes (lib E) m),
    update_player (\<lambda>p. p\<lparr>input_file_stream := (input_file_stream p)\<lparr>in_pos :=
        in_pos (input_file_stream p) + 4 + unat (message_raw_size m)\<rparr>,
      num_bytes_replayed := num_bytes_replayed p + ucast (message_raw_size m)\<rparr>) self w)"
proof -
  let ?is = "input_file_stream p" and ?c = "files w (player_path p)" and ?n = "unat (message_raw_size m)"
  have d': "drop (in_pos ?is) ?c = recording.frame (lib E) m @ rest"
    using d m by (simp add: record_bytes_frame)
  have good: "\<not> in_eof ?is" "\<not> in_fail ?is"
    using p(2) by (simp_all add: stream_good_def)
  have 1: "stream_read (junk_byte E) ?c 4 ?is = (u32_bytes (message_raw_size m), ?is\<lparr>in_pos := in_pos ?is + 4\<rparr>)"
    using recording.read_size [OF d'] good by (simp add: stream_read_def stream_good_def Let_def)
  have 2: "stream_read j ?c ?n (?is\<lparr>in_pos := in_pos ?is + 4\<rparr>) =
      (raw_bytes (lib E) m, ?is\<lparr>in_pos := in_pos ?is + 4 + ?n\<rparr>)" for j
    using recording.read_body(1) [OF d' m] good raw_size_recordable [OF m]
    by (simp add: stream_read_def stream_good_def Let_def)
  show ?thesis
    unfolding read_record_def p(1) node_class.sel Let_def 1 prod.case codec_simps 2
    by (simp add: update_player_def p(1))
qed

lemma read_and_signal_eq:
  assumes w: "ready_to_play E N G self (m # ms) w" and m: "recordable (lib E) m" "stamped (lib E) m"
    and xs: "deliveries (Suc d) G self = Some xs"
  shows "\<exists>v. read_and_signal E (receive_from d E) self w = Returns (message_raw_size m) v \<and>
    ready_to_play E N G self ms v \<and> replayed xs [m] w v \<and>
    num_bytes_replayed (player_of v self) = num_bytes_replayed (player_of w self) + ucast (message_raw_size m) \<and>
    same_player self w v"
proof -
  obtain p where p: "class_part (heap w self) = UniversalDataPlayer p" "\<not> forever p" "\<not> realtime p"
      "\<not> rewrite_timestamps p" "stream_good (input_file_stream p)"
      "drop (in_pos (input_file_stream p)) (files w (player_path p)) =
        record_bytes (lib E) m @ concat (map (record_bytes (lib E)) ms)"
    and G: "get_observers w = G" "self \<in> N" "\<forall>n \<in> N. passes (class_part (heap w n)) \<and> set (G n) \<subseteq> N"
    using w by (auto simp: ready_to_play_def)
  let ?u = "snd (read_record E self w)"
  let ?v = "?u\<lparr>msgs := (msgs ?u)(next_msg ?u := m), next_msg := next_msg ?u + 1\<rparr>"
  note read = read_record_eq [OF p(1,5,6) m(1)]
  have u: "class_part (heap ?u self) = UniversalDataPlayer (p\<lparr>input_file_stream := (input_file_stream p)\<lparr>in_pos :=
        in_pos (input_file_stream p) + 4 + unat (message_raw_size m)\<rparr>,
      num_bytes_replayed := num_bytes_replayed p + ucast (message_raw_size m)\<rparr>)"
    unfolding read by (simp add: class_update_player p(1))
  have other: "class_part (heap ?u n) = class_part (heap w n)" if "n \<noteq> self" for n
    unfolding read using that by (simp add: class_update_player)
  have same: "files ?u = files w" "next_msg ?u = next_msg w" "msgs ?u = msgs w" "get_observers ?u = G" "polls ?u = polls w"
      "\<And>n. message_send_counter (heap ?u n) = message_send_counter (heap w n)"
      "\<And>n. thread_part (heap ?u n) = thread_part (heap w n)"
    unfolding read using G(1) by (simp_all add: update_player_def get_observers_def fun_eq_iff)
  have pass: "passes (class_part (heap ?u n))" if "n \<in> N" for n
    using G(3) that u other [of n] by (cases "n = self") auto
  have obs: "get_observers ?v = G"
    using same(4) by (simp add: get_observers_def fun_eq_iff)
  have plain: "plain_part E N G m (next_msg w) ?v"
    using obs pass G(3) m(2) same(2) by (simp add: plain_part_def)
  have "send d E self (next_msg w) ?v = counted (deliveries (Suc d) G self) ?v"
  proof (rule send_counted [OF plain])
    show "receive_from d E c (next_msg w) self u = counted (deliveries d G c) u"
      if "c \<in> set (G self)" "plain_part E N G m (next_msg w) u" for c u
      using that(2) by (rule receive_counted) (use that(1) G(2,3) in auto)
  qed
  then have send: "send d E self (next_msg w) ?v = Returns () (fold count_send xs ?v)"
    unfolding xs counted_def by simp
  have "fst (read_record E self w) = (message_raw_size m, raw_bytes (lib E) m)"
    unfolding read by simp
  moreover have "message_of_bytes (lib E) (raw_bytes (lib E) m) = m"
    by (rule recording.parse_body [OF m(1)])
  ultimately have "read_and_signal E (receive_from d E) self w = Returns (message_raw_size m) (fold count_send xs ?v)"
    using length_raw_bytes [OF m(1)] send u p(3,4) same(2)
    by (simp add: read_and_signal_def split_beta Let_def new_message_def)
  moreover have "drop (in_pos (input_file_stream p) + 4 + unat (message_raw_size m)) (files w (player_path p)) =
      concat (map (record_bytes (lib E)) ms)"
    using recording.read_body(2) [OF _ m(1)] p(6) by (simp add: record_bytes_frame [OF m(1)])
  then have "ready_to_play E N G self ms (fold count_send xs ?v)"
    using u pass obs G(2,3) same(1) p(2-5) by (simp add: ready_to_play_def fold_count_send stream_good_def)
  moreover have "replayed xs [m] w (fold count_send xs ?v)"
    using same by (simp add: replayed_def fold_count_send counter_counts fun_eq_iff)
  ultimately show ?thesis
    using u p(1) same(5,7) by (simp add: fold_count_send same_player_def)
qed

section \<open>Playing all records\<close>

lemma record_bytes_not_Nil [simp]: "record_bytes L m \<noteq> []"
proof -
  have "length (record_bytes L m) \<noteq> 0"
    by (simp add: record_bytes_def)
  then show ?thesis by auto
qed

lemma at_end_eq:
  assumes "ready_to_play E N G self ms w"
  shows "\<exists>u. at_end self w = (ms = [], u) \<and> replayed xs [] w u \<and> same_player self w u \<and>
    num_bytes_replayed (player_of u self) = num_bytes_replayed (player_of w self) \<and>
    (ms \<noteq> [] \<longrightarrow> ready_to_play E N G self ms u)"
proof -
  obtain p where p: "class_part (heap w self) = UniversalDataPlayer p" "stream_good (input_file_stream p)"
      "drop (in_pos (input_file_stream p)) (files w (player_path p)) = concat (map (record_bytes (lib E)) ms)"
    using assms by (auto simp: ready_to_play_def)
  have end_iff: "length (files w (player_path p)) \<le> in_pos (input_file_stream p) \<longleftrightarrow> ms = []"
  proof -
    have "length (files w (player_path p)) \<le> in_pos (input_file_stream p) \<longleftrightarrow>
        drop (in_pos (input_file_stream p)) (files w (player_path p)) = []"
      by simp
    also have "\<dots> \<longleftrightarrow> ms = []"
      unfolding p(3) by (cases ms) simp_all
    finally show ?thesis .
  qed
  let ?u = "snd (at_end self w)"
  have "at_end self w = (ms = [], ?u)"
    using p(1,2) end_iff by (simp add: at_end_def stream_peek_eof_def Let_def)
  moreover have "replayed xs [] w ?u" "same_player self w ?u"
      "num_bytes_replayed (player_of ?u self) = num_bytes_replayed (player_of w self)"
    using p(1)
    by (auto simp: at_end_def split_beta Let_def same_player_def class_update_player intro!: replayed_same)
  moreover have "ready_to_play E N G self ms ?u" if "ms \<noteq> []"
    using assms p(1,2) end_iff that
    by (auto simp: ready_to_play_def at_end_def stream_peek_eof_def class_update_player)
  ultimately show ?thesis by blast
qed

lemma reset_production_eq:
  assumes "class_part (heap w self) = UniversalDataPlayer p"
  shows "replayed xs [] w (reset_production E self w) \<and> same_player self w (reset_production E self w) \<and>
    num_bytes_replayed (player_of (reset_production E self w) self) = num_bytes_replayed p \<and>
    (ready_to_play E N G self ms w \<longrightarrow> ready_to_play E N G self ms (reset_production E self w))"
proof -
  have "get_observers (w\<lparr>ticks := t\<rparr>) = get_observers w" for w :: "'a world" and t
    by (simp add: get_observers_def fun_eq_iff)
  then show ?thesis
    using assms
    by (auto simp: reset_production_def reset_time_def get_current_time_def same_player_def
        class_update_player ready_to_play_def intro!: replayed_same)
qed

lemma produce_eq:
  assumes w: "ready_to_play E N G self ms w" and xs: "deliveries (Suc d) G self = Some xs"
    and ms: "\<forall>m \<in> set ms. recordable (lib E) m \<and> stamped (lib E) m"
  shows "\<exists>v. produce E (receive_from d E) self w = Returns (ms \<noteq> []) v \<and> replayed xs (take 1 ms) w v \<and>
    (ms \<noteq> [] \<longrightarrow> ready_to_play E N G self (tl ms) v)"
proof -
  obtain p where p: "class_part (heap w self) = UniversalDataPlayer p"
    using w by (auto simp: ready_to_play_def)
  let ?w = "if replay_t0 (player_of w self) = 0 then reset_production E self w else w"
  have w1: "ready_to_play E N G self ms ?w" "replayed xs [] w ?w"
    using w reset_production_eq [OF p] by (auto simp: replayed_Nil)
  then obtain q where q: "class_part (heap ?w self) = UniversalDataPlayer q"
      "\<not> in_fail (input_file_stream q)"
    by (auto simp: ready_to_play_def stream_good_def)
  obtain u where u: "at_end self ?w = (ms = [], u)" "replayed xs [] ?w u" "same_player self ?w u"
      "ms \<noteq> [] \<longrightarrow> ready_to_play E N G self ms u"
    using at_end_eq [OF w1(1)] by blast
  have wu: "replayed xs [] w u"
    using replayed_trans [OF w1(2) u(2)] by simp
  have fv: "\<not> forever (player_of u self)"
    using u(3) w1(1) by (auto simp: same_player_def ready_to_play_def)
  show ?thesis
  proof (cases ms)
    case Nil
    have "\<exists>q. class_part (heap u self) = UniversalDataPlayer q"
    proof -
      have "u = snd (at_end self ?w)"
        using u(1) by simp
      then show ?thesis
        by (simp add: at_end_def split_beta Let_def class_update_player)
    qed
    then obtain q' where "class_part (heap u self) = UniversalDataPlayer q'" by blast
    then have "replayed xs [] w (reset_production E self u)"
      using reset_production_eq replayed_trans [OF wu] by fastforce
    moreover have "produce E (receive_from d E) self w = Returns False (reset_production E self u)"
      using q u(1) fv Nil by (simp add: produce_def Let_def)
    ultimately show ?thesis
      using Nil by simp
  next
    case (Cons m ms')
    then obtain v where v: "read_and_signal E (receive_from d E) self u = Returns (message_raw_size m) v"
        "ready_to_play E N G self ms' v" "replayed xs [m] u v"
      using read_and_signal_eq [of E N G self m ms' u d xs] u(4) ms xs by auto
    then have "produce E (receive_from d E) self w = Returns True v"
      using q u(1) Cons by (simp add: produce_def Let_def)
    then show ?thesis
      using Cons v replayed_trans [OF wu v(3)] by simp
  qed
qed

lemma produce_loop_eq:
  assumes "ready_to_play E N G self ms w" and "deliveries (Suc d) G self = Some xs"
    and "\<forall>m \<in> set ms. recordable (lib E) m \<and> stamped (lib E) m" and "length ms < k"
  shows "\<exists>v. produce_loop k E (receive_from d E) self w = Returns () v \<and> replayed xs ms w v"
  using assms(1,3,4)
proof (induction ms arbitrary: w k)
  case Nil
  then obtain j where "k = Suc j"
    by (cases k) auto
  with produce_eq [OF Nil(1) assms(2)] show ?case
    by auto
next
  case (Cons m ms)
  then obtain j where j: "k = Suc j" "length ms < j"
    by (cases k) auto
  obtain u where u: "produce E (receive_from d E) self w = Returns True u" "replayed xs [m] w u"
      "ready_to_play E N G self ms u"
    using produce_eq [OF Cons.prems(1) assms(2) Cons.prems(2)] by auto
  then obtain v where "produce_loop j E (receive_from d E) self u = Returns () v" "replayed xs ms u v"
    using Cons.IH [OF u(3) _ j(2)] Cons.prems(2) by auto
  then show ?case
    using u j replayed_Cons by auto
qed

text \<open>The loop of the thread: it counts the bytes of every record twice.\<close>

definition record_sizes :: "message list \<Rightarrow> u64" where
  "record_sizes ms = (\<Sum>m\<leftarrow>ms. ucast (message_raw_size m))"

lemma replay_records_eq:
  assumes "ready_to_play E N G self ms w" and "deliveries (Suc d) G self = Some xs"
    and "\<forall>m \<in> set ms. recordable (lib E) m \<and> stamped (lib E) m" and "length ms < k"
    and "thread_part (heap w self) = Some \<lparr>my_thread = t, stop_signal = False\<rparr>" and "\<forall>j. \<not> stopper E j"
  shows "\<exists>v. replay_records k E (receive_from d E) self w = Returns () v \<and> replayed xs ms w v \<and>
    num_bytes_replayed (player_of v self) = num_bytes_replayed (player_of w self) + 2 * record_sizes ms \<and>
    num_messages_replayed (player_of v self) = num_messages_replayed (player_of w self) + of_nat (length ms)"
  using assms(1,3,4,5)
proof (induction ms arbitrary: w k)
  case Nil
  then obtain j where j: "k = Suc j"
    by (cases k) auto
  define u where "u = w\<lparr>polls := polls w + 1\<rparr>"
  have stop: "stop_requested E self w = (False, u)"
    using Nil.prems(4) assms(6) by (simp add: stop_requested_def u_def)
  have ready: "ready_to_play E N G self [] u"
    using Nil.prems(1) by (simp add: u_def ready_to_play_def get_observers_def fun_eq_iff)
  have "replayed xs [] w u"
    by (rule replayed_same) (simp_all add: u_def)
  moreover obtain v where v: "at_end self u = (True, v)" "replayed xs [] u v" "same_player self u v"
      "num_bytes_replayed (player_of v self) = num_bytes_replayed (player_of u self)"
    using at_end_eq [OF ready] by auto
  moreover have "\<not> in_fail (input_file_stream (player_of u self))"
    using ready by (auto simp: ready_to_play_def stream_good_def)
  ultimately show ?case
    using stop j replayed_trans [of xs "[]" w u "[]" v]
    by (simp add: record_sizes_def same_player_def u_def)
next
  case (Cons m ms)
  then obtain j where j: "k = Suc j" "length ms < j"
    by (cases k) auto
  define u where "u = w\<lparr>polls := polls w + 1\<rparr>"
  have stop: "stop_requested E self w = (False, u)"
    using Cons.prems(4) assms(6) by (simp add: stop_requested_def u_def)
  have ready: "ready_to_play E N G self (m # ms) u"
    using Cons.prems(1) by (simp add: u_def ready_to_play_def get_observers_def fun_eq_iff)
  have fail: "\<not> in_fail (input_file_stream (player_of u self))"
    using ready by (auto simp: ready_to_play_def stream_good_def)
  have wu: "replayed xs [] w u"
    by (rule replayed_same) (simp_all add: u_def)
  obtain v where v: "at_end self u = (False, v)" "replayed xs [] u v" "same_player self u v"
      "num_bytes_replayed (player_of v self) = num_bytes_replayed (player_of u self)"
      "ready_to_play E N G self (m # ms) v"
    using at_end_eq [OF ready] by auto
  obtain x where x: "read_and_signal E (receive_from d E) self v = Returns (message_raw_size m) x"
      "ready_to_play E N G self ms x" "replayed xs [m] v x"
      "num_bytes_replayed (player_of x self) = num_bytes_replayed (player_of v self) + ucast (message_raw_size m)"
      "same_player self v x"
    using read_and_signal_eq [OF v(5) _ _ assms(2)] Cons.prems(2) by auto
  let ?count = "update_player (\<lambda>p. p\<lparr>num_bytes_replayed := num_bytes_replayed p + ucast (message_raw_size m),
      num_messages_replayed := num_messages_replayed p + 1\<rparr>) self"
  have y: "ready_to_play E N G self ms (?count x)" "replayed xs [] x (?count x)"
      "thread_part (heap (?count x) self) = Some \<lparr>my_thread = t, stop_signal = False\<rparr>"
    using x(2,5) v(3) Cons.prems(4)
    by (auto simp: ready_to_play_def class_update_player same_player_def u_def intro!: replayed_same)
  obtain z where z: "replay_records j E (receive_from d E) self (?count x) = Returns () z" "replayed xs ms (?count x) z"
      "num_bytes_replayed (player_of z self) = num_bytes_replayed (player_of (?count x) self) + 2 * record_sizes ms"
      "num_messages_replayed (player_of z self) = num_messages_replayed (player_of (?count x) self) + of_nat (length ms)"
    using Cons.IH [OF y(1) _ j(2) y(3)] Cons.prems(2) by auto
  have "replayed xs (m # ms) w z"
    using replayed_trans [OF wu replayed_trans [OF v(2) replayed_trans [OF x(3) replayed_trans [OF y(2) z(2)]]]] by simp
  moreover have "replay_records k E (receive_from d E) self w = Returns () z"
    using stop fail v(1) x(1) z(1) j(1) by simp
  ultimately show ?case
    using z(3,4) x(4,5) v(3,4)
    by (simp add: class_update_player record_sizes_def same_player_def u_def algebra_simps)
qed

section \<open>Recording\<close>

text \<open>A saver whose next write goes to the end of its file, as after opening an empty one.\<close>

definition at_file_end :: "'u world \<Rightarrow> nid \<Rightarrow> bool" where
  "at_file_end w n \<longleftrightarrow>
     (let sv = saver_part (class_part (heap w n))
      in saver_open sv \<and> (saver_app sv \<or> saver_pos sv = length (files w (saver_path sv))))"

lemma opened_at_file_end:
  assumes "class_part (heap w n) = UniversalDataSaver sv" and "can_open E (saver_path sv)"
  shows "at_file_end (open_file_stream E app n w) n"
  using assms by (simp add: at_file_end_def open_file_stream_def update_saver_def Let_def)

lemma write_at_end:
  assumes sv: "class_part (heap w n) = UniversalDataSaver sv" and w: "at_file_end w n"
  shows "files (write_stream bs n w) = (files w)(saver_path sv := files w (saver_path sv) @ bs)"
    and "at_file_end (write_stream bs n w) n"
    and "\<exists>sw. class_part (heap (write_stream bs n w) n) = UniversalDataSaver sw \<and> saver_path sw = saver_path sv"
proof -
  have pos: "(if saver_app sv then length (files w (saver_path sv)) else saver_pos sv) = length (files w (saver_path sv))"
    using w sv by (auto simp: at_file_end_def Let_def)
  show f: "files (write_stream bs n w) = (files w)(saver_path sv := files w (saver_path sv) @ bs)"
    unfolding write_stream_saver(1) [OF sv] pos put_at_end ..
  show "at_file_end (write_stream bs n w) n"
    using w sv unfolding at_file_end_def f write_stream_saver(2) [OF sv] pos by (simp add: Let_def)
  show "\<exists>sw. class_part (heap (write_stream bs n w) n) = UniversalDataSaver sw \<and> saver_path sw = saver_path sv"
    by (simp add: write_stream_saver(2) [OF sv])
qed

lemma saver_records:
  assumes "class_part (heap w n) = UniversalDataSaver sv" and "saver_open sv" and "get_observers w n = []"
    and "stamped (lib E) (msgs w i)"
  shows "receive_from (Suc d) E n i s w =
    Returns () (count_send n (write_stream (record_bytes (lib E) (msgs w i)) n w))"
proof -
  have "stamp_message E n i v = Returns () v" if "msgs v = msgs w" for v
    using stamped_unchanged assms(4) that by (simp add: stamp_message_def fun_upd_idem)
  moreover have "get_observers (count_send n (write_stream bs n w)) n = []" for bs
    using assms(3) by (simp add: count_send_def get_observers_def)
  ultimately show ?thesis
    using assms(1,2)
    by (simp add: virtual_receive_from_def receive_def saver_receive_def signal_def notify_observers_def
        record_bytes_def Let_def)
qed

definition record_all :: "nat \<Rightarrow> 'u env \<Rightarrow> nid \<Rightarrow> mid list \<Rightarrow> 'u act" where
  "record_all d E n is = for_each (\<lambda>i. receive_from (Suc d) E n i n) is"

lemma record_all_eq:
  assumes "class_part (heap w n) = UniversalDataSaver sv" and "at_file_end w n" and "get_observers w n = []"
    and "\<forall>i \<in> set is. stamped (lib E) (msgs w i)"
  shows "\<exists>v. record_all d E n is w = Returns () v \<and>
    files v = (files w)(saver_path sv := files w (saver_path sv) @ concat (map (\<lambda>i. record_bytes (lib E) (msgs w i)) is)) \<and>
    msgs v = msgs w \<and> next_msg v = next_msg w \<and> get_observers v = get_observers w \<and>
    (\<forall>k. k \<noteq> n \<longrightarrow> class_part (heap v k) = class_part (heap w k)) \<and> is_saver (class_part (heap v n))"
  using assms
proof (induction "is" arbitrary: w sv)
  case Nil
  then show ?case by (simp add: record_all_def)
next
  case (Cons i "is")
  let ?u = "count_send n (write_stream (record_bytes (lib E) (msgs w i)) n w)"
  note wr = write_at_end [OF Cons.prems(1,2)]
  obtain sw where sw: "class_part (heap ?u n) = UniversalDataSaver sw" "saver_path sw = saver_path sv"
    using wr(3) by (auto simp: count_send_def)
  have u: "files ?u = (files w)(saver_path sv := files w (saver_path sv) @ record_bytes (lib E) (msgs w i))"
      "msgs ?u = msgs w" "next_msg ?u = next_msg w" "get_observers ?u = get_observers w"
    using wr(1) by (simp_all add: count_send_def get_observers_def fun_eq_iff)
  have other: "class_part (heap ?u k) = class_part (heap w k)" if "k \<noteq> n" for k
    using that by (simp add: count_send_def write_stream_saver(2) [OF Cons.prems(1)])
  have end_: "at_file_end ?u n"
    using wr(2) by (simp add: at_file_end_def count_send_def)
  have "receive_from (Suc d) E n i n w = Returns () ?u"
    using Cons.prems by (intro saver_records [OF Cons.prems(1)]) (simp_all add: at_file_end_def Let_def)
  moreover obtain v where "record_all d E n is ?u = Returns () v"
      "files v = (files ?u)(saver_path sw := files ?u (saver_path sw) @ concat (map (\<lambda>i. record_bytes (lib E) (msgs ?u i)) is))"
      "msgs v = msgs ?u" "next_msg v = next_msg ?u" "get_observers v = get_observers ?u"
      "\<forall>k. k \<noteq> n \<longrightarrow> class_part (heap v k) = class_part (heap ?u k)" "is_saver (class_part (heap v n))"
    using Cons.IH [OF sw(1) end_ trans [OF fun_cong [OF u(4)] Cons.prems(3)]] Cons.prems(4)
    unfolding u(2) by (metis list.set_intros(2))
  ultimately show ?case
    unfolding u sw(2) using other by (auto simp: record_all_def simp del: receive_from.simps)
qed

text \<open>A player that has just been made plays this way.\<close>

definition fresh_player :: "string \<Rightarrow> player_state \<Rightarrow> bool" where
  "fresh_player path p \<longleftrightarrow>
     player_path p = path \<and> input_file_stream p = \<lparr>in_pos = 0, in_eof = False, in_fail = False\<rparr> \<and>
     \<not> forever p \<and> \<not> realtime p \<and> \<not> rewrite_timestamps p"

text \<open>A saver at 0, a player at 1 that one node observes, and a library that reads the message that was sent.\<close>

definition example_player :: player_state where
  "example_player =
     \<lparr>player_path = ''rec'', input_file_stream = \<lparr>in_pos = 0, in_eof = False, in_fail = False\<rparr>,
      forever = False, realtime = False, rewrite_timestamps = False, verbose = False,
      num_messages_replayed = 0, num_bytes_replayed = 0, replay_t0 = 0, messages_t0 = 0\<rparr>"

definition example_saver :: saver_state where
  "example_saver = \<lparr>saver_path = ''rec'', saver_open = True, saver_app = False, saver_pos = 0\<rparr>"

definition recorder_env :: "unit env" where
  "recorder_env = example_env\<lparr>lib := sample_lib (root sent_message)\<rparr>"

definition recorder_world :: "byte list \<Rightarrow> unit world" where
  "recorder_world content =
     set_node 1 (\<lambda>nd. nd\<lparr>thread_part := Some \<lparr>my_thread = Some Running, stop_signal = False\<rparr>\<rparr>)
       ((example_world ((\<lambda>_. [])(1 := [2]))
          ((\<lambda>_. PlainNode)(0 := UniversalDataSaver example_saver,
                           1 := UniversalDataPlayer example_player)))
        \<lparr>msgs := (\<lambda>_. sent_message), files := (\<lambda>_. content)\<rparr>)"

lemma recorder_world_simps [simp]:
  "get_observers (recorder_world bs) = (\<lambda>_. [])(1 := [2])"
  "class_part (heap (recorder_world bs) 0) = UniversalDataSaver example_saver"
  "class_part (heap (recorder_world bs) (Suc 0)) = UniversalDataPlayer example_player"
  "class_part (heap (recorder_world bs) 2) = PlainNode"
  "msgs (recorder_world bs) = (\<lambda>_. sent_message)" "files (recorder_world bs) = (\<lambda>_. bs)"
  "lib recorder_env = sample_lib (root sent_message)" "next_msg (recorder_world bs) = 1"
  by (simp_all add: recorder_world_def recorder_env_def get_observers_def fun_eq_iff example_world_def example_node_def)

lemma sent_message_recordable: "recordable (sample_lib (root sent_message)) sent_message"
  by (simp add: recordable_def sent_message_store) (simp add: sample_lib_def)

lemma example_player_fresh: "fresh_player ''rec'' example_player"
  by (simp add: fresh_player_def example_player_def)

lemma stamped_root: "get_flex_root m = get_flex_root m' \<Longrightarrow> stamped L m' \<Longrightarrow> stamped L m"
  by (simp add: stamped_def message_counter_def source_node_guid_def get_meta_def root_val_def root_map_def)

section \<open>Properties\<close>

text \<open>C16: What a saver that was opened to append or stands at the start has written to an empty file, a player that
  repeats nothing and rewrites nothing sends out again: the same messages in the same order, each of them once to every receiver below the
  player, and then the player ends by itself.\<close>

theorem recording_is_replayed:
  assumes saver: "class_part (heap w n) = UniversalDataSaver sv" "saver_open sv" "get_observers w n = []"
      "files w (saver_path sv) = []" "saver_app sv \<or> saver_pos sv = 0"
    and player: "class_part (heap w self) = UniversalDataPlayer p" "fresh_player (saver_path sv) p"
    and plain: "self \<in> N" "\<forall>x \<in> N. passes (class_part (heap w x)) \<and> set (get_observers w x) \<subseteq> N"
    and xs: "deliveries (Suc d) (get_observers w) self = Some xs"
    and ms: "\<forall>i \<in> set is. recordable (lib E) (msgs w i) \<and> stamped (lib E) (msgs w i)" and "length is < k"
  shows "\<exists>v u. record_all d E n is w = Returns () v \<and>
    produce_loop k E (receive_from d E) self v = Returns () u \<and>
    next_msg u = next_msg w + length is \<and>
    (\<forall>j < length is. msgs u (next_msg w + j) = msgs w (is ! j)) \<and>
    (\<forall>x. message_send_counter (heap u x) = message_send_counter (heap v x) + of_nat (length is * count_list xs x))"
proof -
  obtain v where v: "record_all d E n is w = Returns () v"
      "files v (saver_path sv) = concat (map (record_bytes (lib E)) (map (msgs w) is))"
      "msgs v = msgs w" "next_msg v = next_msg w" "get_observers v = get_observers w"
      "\<forall>k. k \<noteq> n \<longrightarrow> class_part (heap v k) = class_part (heap w k)" "is_saver (class_part (heap v n))"
  proof -
    have "at_file_end w n"
      using saver by (auto simp: at_file_end_def)
    from record_all_eq [OF saver(1) this saver(3), of "is" E d] ms saver(4) that show ?thesis
      by (auto simp: comp_def)
  qed
  have "n \<notin> N" "self \<noteq> n"
    using saver(1) player(1) plain(2) by auto
  then have "ready_to_play E N (get_observers w) self (map (msgs w) is) v"
    using v player plain by (auto simp: ready_to_play_def fresh_player_def stream_good_def)
  then obtain u where "produce_loop k E (receive_from d E) self v = Returns () u" "replayed xs (map (msgs w) is) v u"
    using produce_loop_eq [OF _ xs, of E N "map (msgs w) is" v k] ms assms(12) by auto
  then show ?thesis
    using v by (auto simp: replayed_def)
qed

theorem recording_is_replayed_witness:
  "\<exists>v u. record_all 2 recorder_env 0 [0, 0, 0] (recorder_world []) = Returns () v \<and>
     produce_loop 4 recorder_env (receive_from 2 recorder_env) 1 v = Returns () u \<and>
     msgs u 2 = sent_message \<and> message_send_counter (heap u 1) = message_send_counter (heap v 1) + 3"
proof -
  have plain: "\<forall>x \<in> {1, 2}. passes (class_part (heap (recorder_world []) x)) \<and>
      set (get_observers (recorder_world []) x) \<subseteq> {1, 2}"
    by simp
  have below: "deliveries (Suc 2) (get_observers (recorder_world [])) 1 = Some [1, 2]"
    by (simp add: numeral_2_eq_2)
  have ms: "\<forall>i \<in> set [0, 0, 0]. recordable (lib recorder_env) (msgs (recorder_world []) i) \<and>
      stamped (lib recorder_env) (msgs (recorder_world []) i)"
    by (simp add: sent_message_recordable sent_message_stamped)
  let ?sv = example_saver
  have nodes: "class_part (heap (recorder_world []) 0) = UniversalDataSaver ?sv" "saver_open ?sv"
      "get_observers (recorder_world []) 0 = []" "files (recorder_world []) (saver_path ?sv) = []"
      "saver_app ?sv \<or> saver_pos ?sv = 0"
      "class_part (heap (recorder_world []) 1) = UniversalDataPlayer example_player"
      "fresh_player (saver_path ?sv) example_player" "1 \<in> {1, 2 :: nat}"
    by (simp_all add: example_player_fresh example_saver_def)
  obtain v u where "record_all 2 recorder_env 0 [0, 0, 0] (recorder_world []) = Returns () v"
     "produce_loop 4 recorder_env (receive_from 2 recorder_env) 1 v = Returns () u"
     "\<forall>j < length [0, 0, 0 :: mid]. msgs u (next_msg (recorder_world []) + j) = msgs (recorder_world []) ([0, 0, 0] ! j)"
     "\<forall>x. message_send_counter (heap u x) =
        message_send_counter (heap v x) + of_nat (length [0, 0, 0 :: mid] * count_list [1, 2] x)"
    using recording_is_replayed [OF nodes plain below ms, of 4] by auto
  note vu = this(1,2) spec [OF this(3), of 1] spec [OF this(4), of 1]
  show ?thesis
    using vu by (auto intro!: exI [of _ v] exI [of _ u] simp: numeral_2_eq_2)
qed

text \<open>C29: The bytes that the thread of a player reports are twice the bytes of the records it has sent, while
  the number of messages is right.\<close>

theorem player_counts_bytes_twice:
  assumes "ready_to_play E N G self ms w" and "deliveries (Suc d) G self = Some xs"
    and "\<forall>m \<in> set ms. recordable (lib E) m \<and> stamped (lib E) m" and "length ms < k"
    and "thread_part (heap w self) = Some \<lparr>my_thread = t, stop_signal = False\<rparr>" and "\<forall>j. \<not> stopper E j"
  shows "\<exists>v. replay_records k E (receive_from d E) self w = Returns () v \<and>
    num_bytes_replayed (player_of v self) = num_bytes_replayed (player_of w self) + 2 * (\<Sum>m\<leftarrow>ms. ucast (message_raw_size m)) \<and>
    num_messages_replayed (player_of v self) = num_messages_replayed (player_of w self) + of_nat (length ms)"
  using replay_records_eq [OF assms] by (auto simp: record_sizes_def)

theorem player_counts_bytes_twice_witness:
  "\<exists>v. replay_records 3 recorder_env (receive_from 2 recorder_env) 1
     (recorder_world (concat (map (record_bytes (lib recorder_env)) [sent_message, sent_message]))) = Returns () v \<and>
     num_bytes_replayed (player_of v 1) = 36 \<and> num_messages_replayed (player_of v 1) = 2"
proof -
  let ?ms = "[sent_message, sent_message]"
  let ?w = "recorder_world (concat (map (record_bytes (lib recorder_env)) ?ms))"
  have ready: "ready_to_play recorder_env {1, 2} (get_observers ?w) 1 ?ms ?w"
    by (simp add: ready_to_play_def) (simp add: example_player_def stream_good_def)
  have below: "deliveries (Suc 2) (get_observers ?w) 1 = Some [1, 2]"
    by (simp add: numeral_2_eq_2)
  have ms: "\<forall>m \<in> set ?ms. recordable (lib recorder_env) m \<and> stamped (lib recorder_env) m"
    by (simp add: sent_message_recordable sent_message_stamped)
  have running: "thread_part (heap ?w 1) = Some \<lparr>my_thread = Some Running, stop_signal = False\<rparr>"
      "\<forall>j. \<not> stopper recorder_env j" "length ?ms < 3"
    by (simp_all add: recorder_world_def recorder_env_def example_env_def)
  have zero: "num_bytes_replayed example_player = 0" "num_messages_replayed example_player = 0"
      "ucast (message_raw_size sent_message) = (9 :: u64)"
    by (simp_all add: example_player_def message_raw_size_def sent_message_store)
  show ?thesis
    using player_counts_bytes_twice [OF ready below ms running(3,1,2)] by (auto simp: zero simp del: deliveries.simps)
qed

text \<open>C35: A recording that is cut off inside the bytes of a record is not noticed, although the stream has
  failed: a player that plays records as they are makes a message of the bytes that are there and of whatever its buffer holds
  behind them, signals it, and counts the whole size of the record.\<close>

theorem truncated_record_is_accepted:
  assumes "class_part (heap w self) = UniversalDataPlayer p" and "stream_good (input_file_stream p)"
    and "\<not> realtime p" and "\<not> rewrite_timestamps p"
    and "drop (in_pos (input_file_stream p)) (files w (player_path p)) = u32_bytes sz @ bs"
    and "length bs < unat sz" and "8 \<le> unat sz"
  shows "\<exists>v. read_and_signal E rf self w = andthen (signal E rf self (next_msg w) v) (Returns sz) \<and>
    msgs v = (msgs w)(next_msg w :=
      message_of_bytes (lib E) (bs @ map (\<lambda>k. junk_byte E (4 + k)) [length bs..<unat sz])) \<and>
    next_msg v = next_msg w + 1 \<and> get_observers v = get_observers w \<and>
    (\<forall>n. n \<noteq> self \<longrightarrow> heap v n = heap w n) \<and>
    (\<exists>q. class_part (heap v self) = UniversalDataPlayer q \<and> in_fail (input_file_stream q) \<and>
       num_bytes_replayed q = num_bytes_replayed p + ucast sz)"
proof -
  let ?is = "input_file_stream p" and ?c = "files w (player_path p)"
  let ?js = "?is\<lparr>in_pos := in_pos ?is + 4 + length bs, in_eof := True, in_fail := True\<rparr>"
  let ?u = "update_player (\<lambda>p. p\<lparr>input_file_stream := ?js,
      num_bytes_replayed := num_bytes_replayed p + ucast sz\<rparr>) self w"
  have good: "\<not> in_eof ?is" "\<not> in_fail ?is"
    using assms(2) by (simp_all add: stream_good_def)
  have "drop (in_pos ?is + 4) ?c = bs"
    using arg_cong [OF assms(5), of "drop 4"] by (simp add: add.commute)
  then have "stream_read (junk_byte E) ?c 4 ?is = (u32_bytes sz, ?is\<lparr>in_pos := in_pos ?is + 4\<rparr>)"
      "stream_read j ?c (unat sz) (?is\<lparr>in_pos := in_pos ?is + 4\<rparr>) = (bs @ map j [length bs..<unat sz], ?js)" for j
    using assms(5,6) good by (simp_all add: stream_read_def stream_good_def Let_def)
  then have read: "read_record E self w = ((sz, bs @ map (\<lambda>k. junk_byte E (4 + k)) [length bs..<unat sz]), ?u)"
    using assms(1) by (simp add: read_record_def split_beta Let_def)
  have player: "class_part (heap ?u self) = UniversalDataPlayer (p\<lparr>input_file_stream := ?js,
      num_bytes_replayed := num_bytes_replayed p + ucast sz\<rparr>)"
    using assms(1) by (simp add: class_update_player)
  have "\<not> length (bs @ map (\<lambda>k. junk_byte E (4 + k)) [length bs..<unat sz]) < 8"
    using assms(6,7) by simp
  then show ?thesis
    using player assms(3,4) unfolding read_and_signal_def read
    by (auto simp: new_message_def Let_def update_player_def get_observers_def fun_eq_iff)
qed

theorem truncated_record_is_accepted_witness:
  "\<exists>v. read_and_signal recorder_env (receive_from 2 recorder_env) 1
       (recorder_world (u32_bytes 9 @ [82, 70, 76])) = Returns 9 v \<and>
     message_send_counter (heap v 2) = message_send_counter (heap (recorder_world []) 2) + 1"
proof -
  let ?w = "recorder_world (u32_bytes 9 @ [82, 70, 76])"
  let ?m = "message_of_bytes (lib recorder_env) ([82, 70, 76] @
      map (\<lambda>k. junk_byte recorder_env (4 + k)) [length [82, 70, 76 :: byte]..<unat (9 :: u32)])"
  obtain v where v: "read_and_signal recorder_env (receive_from 2 recorder_env) 1 ?w =
        andthen (signal recorder_env (receive_from 2 recorder_env) 1 1 v) (Returns 9)"
      "msgs v = (msgs ?w)(1 := ?m)" "get_observers v = get_observers ?w" "heap v 2 = heap ?w 2"
      "\<exists>q. class_part (heap v 1) = UniversalDataPlayer q"
    using truncated_record_is_accepted [of ?w 1 example_player 9 "[82, 70, 76]" recorder_env "receive_from 2 recorder_env"]
    by (auto simp: example_player_def stream_good_def)
  have "get_flex_root ?m = get_flex_root sent_message"
    by (simp add: message_of_bytes_def recorder_env_def sample_lib_def get_flex_root_def sent_message_store
        message_data_size_def message_raw_size_def)
  then have "stamped (lib recorder_env) ?m"
    using sent_message_stamped by (rule stamped_root)
  then have plain: "plain_part recorder_env {1, 2} (get_observers ?w) ?m 1 v"
    using v(2-5) by (auto simp: plain_part_def)
  have "send 2 recorder_env 1 1 v = counted (deliveries (Suc 2) (get_observers ?w) 1) v"
    by (rule send_counted [OF plain]) (auto intro: receive_counted)
  moreover have "deliveries (Suc 2) (get_observers ?w) 1 = Some [1, 2]"
    by (simp add: numeral_2_eq_2)
  ultimately have "send 2 recorder_env 1 1 v = Returns () (fold count_send [1, 2] v)"
    by (simp add: counted_def del: deliveries.simps)
  moreover have "message_send_counter (heap (fold count_send [1, 2] v) 2) = message_send_counter (heap (recorder_world []) 2) + 1"
    using v(4) unfolding counter_counts by (simp add: recorder_world_def)
  ultimately show ?thesis
    unfolding v(1) by simp
qed

end
