(* ===== verification/Reachable_Worlds.thy ===== *)
theory Reachable_Worlds
  imports Heap_Typing Recorder
begin

text \<open>
  The worlds that a client of the library can reach: from a world without nodes it creates and connects nodes,
  filters and instruments graphs, sends messages, records and plays them, starts and stops threads and roots, and runs
  generators. In all of them a signal finds what it needs to return: no lock is held, and every metrics
  node has its publisher. The operations are taken one after the other, and none destroys a node.
\<close>

section \<open>The thread of a generator\<close>

lemma later_stop_requested:
  assumes "well_typed w" and "allocated w n"
  shows "later w (snd (stop_requested E n w))"
proof -
  let ?w = "w\<lparr>polls := polls w + 1\<rparr>"
  have poll: "later w ?w"
    by (rule later_same_heap) (simp_all add: assms(1))
  have "later ?w (node_request_stop n ?w)"
    unfolding node_request_stop_def using later_typed [OF poll] later_allocated [OF poll assms(2)]
    by (rule later_update_runnable)
  with poll show ?thesis
    by (auto simp: stop_requested_def Let_def intro: later_trans)
qed

lemma later_set_invocation_count:
  assumes "well_typed w" and "is_generator (class_part (heap w n))"
  shows "later w (set_invocation_count k n w)"
  unfolding set_invocation_count_def using assms typed_generator [OF assms]
  by (subst set_node_class, intro later_set_class) (auto simp: is_generator_def compatible_def is_publisher_def)

lemma ends_signal_new:
  assumes "well_typed w"
  shows "ends (later w) (signal_new E (receive_from d E) n msg w)"
proof -
  have new: "later w (snd (new_message msg w))"
    using assms by (rule later_same_heap) (simp_all add: new_message_def)
  have "signal_new E (receive_from d E) n msg w = send d E n (next_msg w) (snd (new_message msg w))"
    by (simp add: signal_new_def new_message_def)
  with ends_send [OF later_typed [OF new]] new show ?thesis
    by (simp only:) (rule ends_later_after)
qed

lemma ends_on_trigger:
  assumes "well_typed w"
  shows "ends (later w) (on_trigger E (receive_from d E) n w)"
proof -
  have "on_trigger E (receive_from d E) n w =
      signal_new E (receive_from d E) n (blank_message (lib E) (clock E (ticks w)) ''FrequencyTrigger'') (snd (get_current_time E w))"
    by (simp add: on_trigger_def get_current_time_def)
  then show ?thesis
    using ends_later_after [OF later_tick [OF assms] ends_signal_new [OF later_typed [OF later_tick [OF assms]]]] by (simp only:)
qed

lemma ends_frequency_loop:
  "well_typed w \<Longrightarrow> is_generator (class_part (heap w n)) \<Longrightarrow>
   ends (later w) (frequency_loop k E (receive_from d E) st n w)"
proof (induction k arbitrary: st w)
  case 0
  then show ?case by simp
next
  case (Suc k)
  let ?R = "\<lambda>v. later w v \<and> is_generator (class_part (heap v n))"
  have R: "?R u" if "?R v" "later v u" for u v
    using that by (blast intro: later_trans later_generator)
  have typed: "well_typed v" "is_generator (class_part (heap v n))" if "?R v" for v
    using that by (auto intro: later_typed)
  have tick: "?R (snd (get_current_time E v))" if "?R v" for v
    by (rule R [OF that later_tick [OF typed(1) [OF that]]])
  have set: "?R (set_invocation_count i n v)" if "?R v" for v i
    by (rule R [OF that later_set_invocation_count [OF typed [OF that]]])
  have sleep: "?R (sleep_until_next_interval E a b v)" if "?R v" for v a b
    by (rule R [OF that later_same_heap [OF typed(1) [OF that]]])
      (simp_all add: sleep_until_next_interval_def get_current_time_def Let_def)
  have "?R w"
    using Suc.prems by (simp add: later_refl)
  then have stop: "?R (snd (stop_requested E n w))"
    by (rule R) (rule later_stop_requested [OF Suc.prems(1) typed_generator [OF Suc.prems]])
  have finish: "ends (later w) (andthen (on_trigger E (receive_from d E) n v)
      (\<lambda>w. frequency_loop k E (receive_from d E) st n (set_invocation_count (invocation_count (class_part (heap w n)) + 1) n w)))"
    if "?R v" for v st
  proof -
    have "ends (later v) (andthen (on_trigger E (receive_from d E) n v)
      (\<lambda>w. frequency_loop k E (receive_from d E) st n (set_invocation_count (invocation_count (class_part (heap w n)) + 1) n w)))"
    proof (rule ends_later_then)
      show "ends (later v) (on_trigger E (receive_from d E) n v)"
        using that by (blast intro: ends_on_trigger later_typed)
      fix u
      assume u: "later v u"
      let ?u = "set_invocation_count (invocation_count (class_part (heap u n)) + 1) n u"
      have "later u ?u"
        using u that by (blast intro: later_set_invocation_count later_typed later_generator)
      moreover from this have "ends (later ?u) (frequency_loop k E (receive_from d E) st n ?u)"
        using u that by (intro Suc.IH) (blast intro: later_typed later_generator)+
      ultimately show "ends (later u) (frequency_loop k E (receive_from d E) st n ?u)"
        by (rule ends_later_after)
    qed
    with that show ?thesis
      by (blast intro: ends_later_after)
  qed
  define v where "v = snd (stop_requested E n w)"
  show ?case
  proof (cases "fst (stop_requested E n w)")
    case True
    then show ?thesis
      using stop by (simp add: split_beta)
  next
    case False
    let ?hz = "frequency_hz (class_part (heap v n))"
    define st' u where "st' = (if ?hz \<noteq> snd st then (clock E (ticks v), ?hz) else st)"
      and "u = (if ?hz \<noteq> snd st then set_invocation_count 0 n (snd (get_current_time E v)) else v)"
    have "?R u"
      using stop set [OF tick] by (simp add: u_def v_def)
    define x where "x = (if frequency_hz (class_part (heap u n)) > 0
        then sleep_until_next_interval E (fst st') (1 / frequency_hz (class_part (heap u n))) u else u)"
    have "?R x"
      using \<open>?R u\<close> sleep by (simp add: x_def)
    then have "?R (snd (get_current_time E x))"
      by (rule tick)
    from finish [OF this, of st'] show ?thesis
      using False unfolding x_def u_def st'_def v_def
      by (cases "frequency_hz (class_part (heap (snd (stop_requested E n w)) n)) = snd st")
        (simp_all add: split_beta Let_def get_current_time_def split: if_splits)
  qed
qed

section \<open>The thread of a player\<close>

definition is_player :: "node_class \<Rightarrow> bool" where
  "is_player c \<longleftrightarrow> (\<exists>p. c = UniversalDataPlayer p)"

definition player_later :: "nid \<Rightarrow> 'u world \<Rightarrow> 'u world \<Rightarrow> bool" where
  "player_later n w v \<longleftrightarrow> later w v \<and> is_player (class_part (heap v n))"

lemma player_later_refl: "well_typed w \<Longrightarrow> is_player (class_part (heap w n)) \<Longrightarrow> player_later n w w"
  by (simp add: player_later_def later_refl)

lemma typed_player: "well_typed w \<Longrightarrow> is_player (class_part (heap w n)) \<Longrightarrow> allocated w n"
  by (auto simp: well_typed_def node_ok_def is_player_def dest: spec [of _ n])

lemma player_later_same_heap:
  assumes "player_later n w v" and "heap u = heap v" and "next_node u = next_node v"
  shows "player_later n w u"
proof -
  have "later v u"
    using assms by (intro later_same_heap) (auto simp: player_later_def later_typed)
  then show ?thesis
    using assms unfolding player_later_def by (auto intro: later_trans)
qed

lemma player_later_update:
  assumes "player_later n w v"
  shows "player_later n w (update_player f n v)"
proof -
  have v: "well_typed v" "allocated v n"
    using assms typed_player [of v n] by (auto simp: player_later_def later_typed)
  have "later v (update_player f n v)"
    unfolding update_player_def using v assms
    by (subst set_node_class, intro later_set_class)
      (auto simp: player_later_def is_player_def compatible_def is_publisher_def is_generator_def)
  then show ?thesis
    using assms unfolding player_later_def
    by (auto simp: update_player_def is_player_def intro: later_trans)
qed

lemma player_later_tick: "player_later n w v \<Longrightarrow> player_later n w (snd (get_current_time E v))"
  by (erule player_later_same_heap) (simp_all add: get_current_time_def)

lemma player_later_runnable:
  assumes "player_later n w v"
  shows "player_later n w (update_runnable f n v)"
proof -
  have "later v (update_runnable f n v)"
    using assms typed_player [of v n] by (intro later_update_runnable) (auto simp: player_later_def later_typed)
  then show ?thesis
    using assms unfolding player_later_def by (auto simp: update_runnable_def intro: later_trans)
qed

lemma player_later_stop: "player_later n w v \<Longrightarrow> player_later n w (snd (stop_requested E n v))"
  unfolding stop_requested_def node_request_stop_def
  by (auto simp: Let_def intro!: player_later_runnable elim: player_later_same_heap)

lemma player_later_reset:
  assumes "player_later n w v"
  shows "player_later n w (reset_time E n v)" and "player_later n w (reset_production E n v)"
proof -
  have "player_later n w (reset_time E n u)" if "player_later n w u" for u
    using that by (simp add: reset_time_def split_beta player_later_update player_later_tick)
  then show "player_later n w (reset_time E n v)" "player_later n w (reset_production E n v)"
    using assms by (simp_all add: reset_production_def player_later_update)
qed

lemma player_later_reads:
  assumes "player_later n w v"
  shows "player_later n w (snd (at_end n v))" and "player_later n w (rewind n v)"
    and "player_later n w (snd (read_record E n v))"
  using assms by (simp_all add: at_end_def rewind_def read_record_def split_beta Let_def player_later_update)

lemma player_later_message:
  assumes "player_later n w v"
  shows "player_later n w (snd (new_message msg v))" and "player_later n w (wait_for_message E n i v)"
    and "player_later n w (rewrite_message E n i v)"
proof -
  show "player_later n w (snd (new_message msg v))"
    using assms by (rule player_later_same_heap) (simp_all add: new_message_def)
  show "player_later n w (rewrite_message E n i v)"
    using assms by (rule player_later_same_heap) (simp_all add: rewrite_message_def get_current_time_def)
  have "player_later n w (u\<lparr>sleeps := s\<rparr>)" if "player_later n w u" for u s
    using that by (rule player_later_same_heap) simp_all
  then show "player_later n w (wait_for_message E n i v)"
    using player_later_tick [OF assms, of E] by (simp add: wait_for_message_def Let_def split_beta player_later_update)
qed

lemma ends_player_send:
  assumes "player_later n w v"
  shows "ends (player_later n w) (send d E n i v)"
proof (rule ends_mono [OF frame.dispatch_relates(2)])
  have v: "later w v" "well_typed v" "is_player (class_part (heap v n))"
    using assms by (auto simp: player_later_def later_typed)
  then show "owns_publishers v"
    by (simp add: typed_owns_publishers)
  fix u assume u: "same_structure v u"
  have "is_player (class_part (heap u n))"
    using u v(3) unfolding same_structure_def same_parts_def is_player_def by (metis keeps_part.simps)
  then show "player_later n w u"
    using later_trans [OF v(1) later_same_structure [OF v(2) u]] by (simp add: player_later_def)
qed

lemma ends_read_and_signal:
  assumes "player_later n w v"
  shows "ends (player_later n w) (read_and_signal E (receive_from d E) n v)"
proof -
  have ret: "ends (player_later n w) (andthen r (Returns size))" if "ends (player_later n w) r" for r size
    using that by (cases r) simp_all
  note steps = player_later_message [OF player_later_reads(3) [OF assms]] player_later_reads(3) [OF assms]
  show ?thesis
    unfolding read_and_signal_def Let_def split_beta
    by (auto intro!: ret ends_player_send player_later_message steps)
qed

lemma ends_replay_records:
  "player_later n w v \<Longrightarrow> ends (player_later n w) (replay_records k E (receive_from d E) n v)"
proof (induction k arbitrary: v)
  case 0
  then show ?case by simp
next
  case (Suc k)
  let ?u = "snd (stop_requested E n v)"
  have u: "player_later n w ?u" "player_later n w (snd (at_end n ?u))"
    using player_later_stop [OF Suc.prems] by (auto intro: player_later_reads)
  have "ends (player_later n w) (bnd (read_and_signal E (receive_from d E) n (snd (at_end n ?u))) (\<lambda>size w.
      replay_records k E (receive_from d E) n (update_player (\<lambda>p. p\<lparr>num_bytes_replayed := num_bytes_replayed p + ucast size,
        num_messages_replayed := num_messages_replayed p + 1\<rparr>) n w)))"
    by (rule ends_bnd [OF ends_read_and_signal [OF u(2)]]) (auto intro: Suc.IH player_later_update)
  with u show ?case
    by (simp add: split_beta Let_def)
qed

lemma ends_replay_loop:
  "player_later n w v \<Longrightarrow> ends (player_later n w) (replay_loop l k E (receive_from d E) n v)"
proof (induction l arbitrary: v)
  case 0
  then show ?case by simp
next
  case (Suc l)
  let ?u = "snd (stop_requested E n v)"
  have u: "player_later n w ?u"
    using Suc.prems by (rule player_later_stop)
  have print: "player_later n w (x\<lparr>console := out\<rparr>)" if "player_later n w x" for x out
    using that by (rule player_later_same_heap) simp_all
  have rest: "ends (player_later n w) (if forever (player_of x n)
      then replay_loop l k E (receive_from d E) n (rewind n (reset_time E n x))
      else let (t1, w) = get_current_time E x; p = player_of w n;
               w = (if verbose p
                    then w\<lparr>console := console w @ [replayed_line E ''DONE! Replayed ''
                           (ucast (num_messages_replayed p)) (num_bytes_replayed p) (t1 - replay_t0 p)]\<rparr>
                    else w)
           in replay_loop l k E (receive_from d E) n (node_request_stop n w))"
    if x: "player_later n w x" for x
    unfolding Let_def split_beta node_request_stop_def
    by (auto intro!: Suc.IH player_later_reads player_later_reset player_later_runnable print player_later_tick x)
  have "ends (player_later n w) (andthen (replay_records k E (receive_from d E) n ?u) (\<lambda>x. if forever (player_of x n)
      then replay_loop l k E (receive_from d E) n (rewind n (reset_time E n x))
      else let (t1, w) = get_current_time E x; p = player_of w n;
               w = (if verbose p
                    then w\<lparr>console := console w @ [replayed_line E ''DONE! Replayed ''
                           (ucast (num_messages_replayed p)) (num_bytes_replayed p) (t1 - replay_t0 p)]\<rparr>
                    else w)
           in replay_loop l k E (receive_from d E) n (node_request_stop n w)))"
    by (rule ends_andthen [OF ends_replay_records [OF u]]) (rule rest)
  with u show ?case
    unfolding replay_loop.simps Let_def split_beta by simp
qed

lemma ends_produce:
  assumes "player_later n w v"
  shows "ends (player_later n w) (produce E (receive_from d E) n v)"
proof -
  have "ends (player_later n w) (bnd (read_and_signal E (receive_from d E) n x) (\<lambda>_. Returns True))"
    if "player_later n w x" for x
    by (rule ends_bnd [OF ends_read_and_signal [OF that]]) simp
  then have "ends (player_later n w) (if in_fail (input_file_stream (player_of u n)) then Returns False (reset_production E n u)
      else let (eof, x) = at_end n u in
        if eof \<and> \<not> forever (player_of x n) then Returns False (reset_production E n x)
        else bnd (read_and_signal E (receive_from d E) n (if eof then rewind n x else x)) (\<lambda>_. Returns True))"
    if "player_later n w u" for u
    using player_later_reads(1) [OF that] that by (simp add: split_beta Let_def player_later_reset player_later_reads(2))
  then show ?thesis
    using assms player_later_reset(2) [OF assms] unfolding produce_def by (simp only: Let_def if_split) simp
qed

lemma ends_produce_loop: "player_later n w v \<Longrightarrow> ends (player_later n w) (produce_loop k E (receive_from d E) n v)"
proof (induction k arbitrary: v)
  case 0
  then show ?case by simp
next
  case (Suc k)
  show ?case
    unfolding produce_loop.simps by (rule ends_bnd [OF ends_produce [OF Suc.prems]]) (auto intro: Suc.IH)
qed

lemma ends_player_runs:
  assumes "well_typed w" and "is_player (class_part (heap w n))"
  shows "ends (later w) (player_thread_fn l k E (receive_from d E) n w)"
    and "ends (later w) (produce_loop k E (receive_from d E) n w)"
proof -
  have w: "player_later n w w"
    using assms by (rule player_later_refl)
  have "ends (player_later n w) (player_thread_fn l k E (receive_from d E) n w)"
    unfolding player_thread_fn_def by (rule ends_replay_loop [OF player_later_reset(2) [OF w]])
  then show "ends (later w) (player_thread_fn l k E (receive_from d E) n w)"
    by (rule ends_mono) (simp add: player_later_def)
  show "ends (later w) (produce_loop k E (receive_from d E) n w)"
    by (rule ends_mono [OF ends_produce_loop [OF w]]) (simp add: player_later_def)
qed

section \<open>What a client can do\<close>

definition leaves :: "(error, 's, 'a) outcome \<Rightarrow> 's \<Rightarrow> bool" where
  "leaves r v \<longleftrightarrow> (\<exists>a. r = Returns a v) \<or> (\<exists>e. r = Throws e v)"

lemma ends_leaves: "ends P r \<Longrightarrow> leaves r v \<Longrightarrow> P v"
  by (auto simp: leaves_def)

text \<open>The classes that are constructed without other nodes.\<close>

fun self_contained :: "node_class \<Rightarrow> bool" where
  "self_contained (MetricsPublisherNode p) = False"
| "self_contained (MetricsNode ms) = False"
| "self_contained (FrequencyGenerator hz k) = False"
| "self_contained (GraphRoot r) = False"
| "self_contained c = True"

text \<open>
  One operation, with the world it leaves when it returns or throws. Members of a self-contained class may
  be changed at any time, which covers what the threads of producers do to their nodes.
\<close>

inductive evolves :: "'u env \<Rightarrow> 'u world \<Rightarrow> 'u world \<Rightarrow> bool" for E where
  creates: "self_contained c \<Longrightarrow>
    evolves E w (snd (new_node E name (if runnable_class c then new_thread_part else None) c w))"
| creates_metrics_node: "evolves E w (snd (new_metrics_node E name hz w))"
| creates_metrics_node_to: "allocated w target \<Longrightarrow> leaves (new_metrics_node_to E target name hz w) v \<Longrightarrow> evolves E w v"
| creates_publisher: "evolves E w (snd (new_metrics_publisher_node E name w))"
| creates_generator: "leaves (new_frequency_generator E hz name w) v \<Longrightarrow> evolves E w v"
| creates_root: "(\<forall>p. publisher = Some p \<longrightarrow> allocated w p) \<Longrightarrow> evolves E w (snd (new_graph_root E publisher hz name dbg w))"
| creates_printing_root: "evolves E w (snd (new_printing_graph_root E hz name dbg w))"
| connects: "allocated w a \<Longrightarrow> allocated w b \<Longrightarrow> leaves (connect a b w) v \<Longrightarrow> evolves E w v"
| filters: "allocated w a \<Longrightarrow>
    leaves (without_visited (filter_nodes k (\<lambda>n l. on_world (\<lambda>w. Returns (keep n l w) w)) a (w, ()))) v \<Longrightarrow> evolves E w v"
| opens_file: "is_saver (class_part (heap w n)) \<Longrightarrow> evolves E w (set_file_path E path app n w)"
| plays: "is_player (class_part (heap w n)) \<Longrightarrow> leaves (player_thread_fn l k E (receive_from d E) n w) v \<Longrightarrow> evolves E w v"
| plays_here: "is_player (class_part (heap w n)) \<Longrightarrow> leaves (produce_loop k E (receive_from d E) n w) v \<Longrightarrow> evolves E w v"
| disconnects: "allocated w a \<Longrightarrow> evolves E w (disconnect a b w)"
| makes_message: "evolves E w (snd (new_message msg w))"
| sends: "leaves (send d E n m w) v \<Longrightarrow> evolves E w v"
| publishes: "is_publisher (class_part (heap w n)) \<Longrightarrow> leaves (publish_and_reset E (receive_from d E) n w) v \<Longrightarrow> evolves E w v"
| updates: "allocated w n \<Longrightarrow> self_contained (class_part (heap w n)) \<Longrightarrow> self_contained c \<Longrightarrow>
    runnable_class c = runnable_class (class_part (heap w n)) \<Longrightarrow> evolves E w (set_node n (set_class c) w)"
| starts: "allocated w n \<Longrightarrow> evolves E w (node_start n w)"
| stops: "allocated w n \<Longrightarrow> evolves E w (node_stop_and_join n w)"
| requests: "allocated w n \<Longrightarrow> evolves E w (node_request_stop n w)"
| generates: "is_generator (class_part (heap w n)) \<Longrightarrow> leaves (frequency_thread_fn k E (receive_from d E) n w) v \<Longrightarrow>
    evolves E w v"
| instruments: "is_root w n \<Longrightarrow> leaves (instrument_metrics k E n w) v \<Longrightarrow> evolves E w v"
| deinstruments: "is_root w n \<Longrightarrow> leaves (deinstrument_metrics k n w) v \<Longrightarrow> evolves E w v"
| root_starts: "is_root w n \<Longrightarrow> (\<forall>g. run = Some g \<longrightarrow> is_generator (class_part (heap w g))) \<Longrightarrow>
    leaves (start_all d k (frequency_thread_fn j E (receive_from i E)) run n w) v \<Longrightarrow> evolves E w v"
| root_stops: "is_root w n \<Longrightarrow> leaves (graph_stop d k n w) v \<Longrightarrow> evolves E w v"
| profiles: "is_root w n \<Longrightarrow> (\<forall>g. run = Some g \<longrightarrow> is_generator (class_part (heap w g))) \<Longrightarrow>
    leaves (graph_profile d k E (frequency_thread_fn j E (receive_from i E)) run n w) v \<Longrightarrow> evolves E w v"

definition no_nodes :: "'u world \<Rightarrow> bool" where
  "no_nodes w \<longleftrightarrow> (\<forall>n. get_observers w n = [] \<and> class_part (heap w n) = PlainNode \<and> thread_part (heap w n) = None)"

lemma no_nodes_typed: "no_nodes w \<Longrightarrow> well_typed w"
  by (simp add: no_nodes_def well_typed_def node_ok_def)

lemma ends_frequency_thread_fn:
  assumes "well_typed w" and "is_generator (class_part (heap w n))"
  shows "ends (later w) (frequency_thread_fn k E (receive_from d E) n w)"
proof -
  let ?w = "snd (get_current_time E w)"
  have tick: "later w ?w"
    using assms(1) by (rule later_tick)
  have "ends (later ?w) (frequency_loop k E (receive_from d E) st n ?w)" for st
    using later_typed [OF tick] later_generator [OF tick assms(2)] by (rule ends_frequency_loop)
  from ends_later_after [OF tick this] show ?thesis
    by (simp add: frequency_thread_fn_def split_beta)
qed

lemma ends_new_metrics_node_to:
  assumes "well_typed w" and "allocated w target"
  shows "ends (later w) (new_metrics_node_to E target name hz w)"
proof -
  let ?v = "snd (new_metrics_node E name hz w)" and ?n = "fst (new_metrics_node E name hz w)"
  note new = later_new_metrics_node [OF assms(1), of E name hz]
  obtain ms where ms: "class_part (heap ?v ?n) = MetricsNode ms"
    using new(3) by blast
  then have "is_publisher (class_part (heap ?v (publisher_node ms)))"
    using typed_node [OF later_typed [OF new(1)], of ?n] by (simp add: node_ok_def)
  then have "ends (later ?v) (connect (publisher_node ms) target ?v)"
    using typed_publisher [OF later_typed [OF new(1)]] later_allocated [OF new(1) assms(2)]
    by (intro ends_connect later_typed [OF new(1)])
  then have "ends (later ?v) (andthen (connect (publisher_node ms) target ?v) (Returns ?n))"
    by (cases "connect (publisher_node ms) target ?v") simp_all
  from ends_later_after [OF new(1) this] ms show ?thesis
    by (simp add: new_metrics_node_to_def split_beta)
qed

lemma later_new_graph_root:
  assumes "well_typed w" and "\<forall>p. publisher = Some p \<longrightarrow> allocated w p"
  shows "later w (snd (new_graph_root E publisher hz name dbg w))"
  unfolding new_graph_root_def using assms by (intro later_new_node) (auto simp: new_thread_part_def)

lemma later_new_printing_graph_root:
  assumes "well_typed w"
  shows "later w (snd (new_printing_graph_root E hz name dbg w))"
proof -
  let ?n = "new_node E ''MetricsPrinter'' None MetricsPrinter w"
  note new = later_new_node [OF assms, of MetricsPrinter None E "''MetricsPrinter''", simplified]
  have "later (snd ?n) (snd (new_graph_root E (Some (fst ?n)) hz name dbg (snd ?n)))"
    using new(2,4) by (intro later_new_graph_root later_typed [OF new(1)]) auto
  from later_trans [OF new(1) this] show ?thesis
    using later_new_graph_root [OF assms, of None E hz name dbg]
    by (simp add: new_printing_graph_root_def split_beta)
qed

lemma later_updates:
  assumes "well_typed w" and "allocated w n" and "self_contained (class_part (heap w n))" and "self_contained c"
    and "runnable_class c = runnable_class (class_part (heap w n))"
  shows "later w (set_node n (set_class c) w)"
  using assms
  by (intro later_set_class)
    (cases c; cases "class_part (heap w n)"; auto simp: compatible_def is_publisher_def is_generator_def)+

lemma ends_main_thread:
  assumes "well_typed w" and "\<forall>g. run = Some g \<longrightarrow> is_generator (class_part (heap w g))"
  shows "\<forall>g. run = Some g \<longrightarrow> allocated w g \<and> (\<forall>v. later w v \<longrightarrow> ends (later v) (frequency_thread_fn k E (receive_from d E) g v))"
  using assms by (blast intro: typed_generator ends_frequency_thread_fn later_typed later_generator)

lemma later_set_file_path:
  assumes "well_typed w" and "is_saver (class_part (heap w n))"
  shows "later w (set_file_path E path app n w)"
proof -
  obtain sv where sv: "class_part (heap w n) = UniversalDataSaver sv"
    using assms(2) by (auto simp: is_saver_def)
  have "allocated w n"
    using typed_node [OF assms(1), of n] sv by (simp add: node_ok_def)
  then have set: "later w (set_node n (set_class (UniversalDataSaver s)) w)" for s
    using assms(1) sv by (intro later_set_class) (auto simp: compatible_def is_publisher_def is_generator_def)
  obtain s f where "set_file_path E path app n w = (set_node n (set_class (UniversalDataSaver s)) w)\<lparr>files := f\<rparr>"
  proof -
    let ?v = "set_file_path E path app n w"
    have "?v = (set_node n (set_class (class_part (heap ?v n))) w)\<lparr>files := files ?v\<rparr>"
        "is_saver (class_part (heap ?v n))"
      using sv by (auto simp: set_file_path_def open_file_stream_def update_saver_def set_node_def Let_def)
    then show thesis
      using that unfolding is_saver_def by metis
  qed
  moreover have "later (set_node n (set_class (UniversalDataSaver s)) w) ((set_node n (set_class (UniversalDataSaver s)) w)\<lparr>files := f\<rparr>)"
    for s f
    by (rule later_same_heap [OF later_typed [OF set]]) simp_all
  ultimately show ?thesis
    using set by (auto intro: later_trans)
qed

lemma evolves_later: "evolves E w v \<Longrightarrow> well_typed w \<Longrightarrow> later w v"
proof (induction rule: evolves.induct)
  case (creates c w name)
  then have "class_ok w c"
    by (cases c) simp_all
  then show ?case
    using creates by (intro later_new_node) (auto simp: new_thread_part_def)
next
  case (publishes w n d v)
  then show ?case
    using ends_leaves [OF frame.stable_publish [OF frame.stable_receive_from typed_owns_publishers publishes(1)]]
      later_same_structure by metis
next
  case (makes_message w msg)
  then show ?case
    by (intro later_same_heap) (simp_all add: new_message_def)
next
  case (root_starts w n run d k j i v)
  note main = ends_main_thread [OF root_starts.prems root_starts.hyps(2)]
  from ends_leaves [OF ends_start_all [OF root_starts.prems root_starts.hyps(1) main] root_starts.hyps(3)] show ?case .
next
  case (profiles w n run d k j i v)
  note main = ends_main_thread [OF profiles.prems profiles.hyps(2)]
  from ends_leaves [OF ends_graph_profile [OF main profiles.prems profiles.hyps(1)] profiles.hyps(3)] show ?case .
next
  case (creates_metrics_node w name hz)
  then show ?case
    by (rule later_new_metrics_node)
next
  case (creates_metrics_node_to w target name hz v)
  then show ?case
    by (blast intro: ends_leaves [OF ends_new_metrics_node_to])
next
  case (creates_publisher w name)
  then show ?case
    by (rule later_new_metrics_publisher_node)
next
  case (creates_generator hz name w v)
  then show ?case
    by (blast intro: ends_leaves [OF ends_new_frequency_generator(1)])
next
  case (creates_root publisher w hz name dbg)
  then show ?case
    by (blast intro: later_new_graph_root)
next
  case (creates_printing_root w hz name dbg)
  then show ?case
    by (rule later_new_printing_graph_root)
next
  case (connects w a b v)
  then show ?case
    by (blast intro: ends_leaves [OF ends_connect])
next
  case (filters w a k keep v)
  have "ends (later w) (without_visited (filter_nodes k (\<lambda>n l. on_world (\<lambda>w. Returns (keep n l w) w)) a (w, ())))"
  proof (rule ends_filter_nodes [OF filters.prems filters.hyps(1)])
    show "ends (\<lambda>u. later (fst t) (fst u)) (on_world (\<lambda>w. Returns (keep n l w) w) t)" if "later w (fst t)" for n l t
      using that by (cases t) (simp add: later_refl later_typed)
  qed
  from ends_leaves [OF this filters.hyps(2)] show ?case .
next
  case (opens_file w n path app)
  then show ?case
    by (blast intro: later_set_file_path)
next
  case (plays w n l k d v)
  then show ?case
    by (blast intro: ends_leaves [OF ends_player_runs(1)])
next
  case (plays_here w n k d v)
  then show ?case
    by (blast intro: ends_leaves [OF ends_player_runs(2)])
next
  case (disconnects w a b)
  then show ?case
    by (blast intro: later_disconnect)
next
  case (sends d n m w v)
  then show ?case
    by (blast intro: ends_leaves [OF ends_send])
next
  case (updates w n c)
  then show ?case
    by (blast intro: later_updates)
next
  case (starts w n)
  then show ?case
    by (simp add: node_start_def later_update_runnable)
next
  case (stops w n)
  then show ?case
    by (simp add: node_stop_and_join_def later_update_runnable)
next
  case (requests w n)
  then show ?case
    by (simp add: node_request_stop_def later_update_runnable)
next
  case (generates w n k d v)
  then show ?case
    by (blast intro: ends_leaves [OF ends_frequency_thread_fn])
next
  case (instruments w n k v)
  then show ?case
    by (blast intro: ends_leaves [OF ends_instrument_metrics])
next
  case (deinstruments w n k v)
  then show ?case
    by (blast intro: ends_leaves [OF ends_deinstrument_metrics])
next
  case (root_stops w n d k v)
  then show ?case
    by (blast intro: ends_leaves [OF ends_graph_stop])
qed

lemma reachable_typed: "(evolves E)\<^sup>*\<^sup>* w0 w \<Longrightarrow> well_typed w0 \<Longrightarrow> well_typed w"
  by (induction rule: rtranclp_induct) (auto intro: evolves_later later_typed)

text \<open>What a well-typed world says about signals: the calls they make, and no lock that is held.\<close>

lemma typed_unlocked: "well_typed w \<Longrightarrow> unlocked w"
  unfolding unlocked_def well_typed_def node_ok_def by (metis class_ok.simps(2))

lemma typed_calls:
  assumes "well_typed w"
  shows "calls w \<subseteq> {..<next_node w} \<times> {..<next_node w}"
proof -
  have "allocated w a \<and> allocated w c" if "c \<in> set (get_observers w a)" for a c
    using typed_node [OF assms, of a] that by (auto simp: node_ok_def)
  moreover have "allocated w a \<and> allocated w (publisher_node ms)" if "class_part (heap w a) = MetricsNode ms" for a ms
    using typed_node [OF assms, of a] that typed_publisher [OF assms] by (auto simp: node_ok_def)
  ultimately show ?thesis
    by (auto simp: calls_def allocated_def)
qed

lemma card_callees:
  assumes "well_typed w"
  shows "card ((calls w)\<^sup>+ `` {n}) \<le> next_node w"
proof -
  have "(calls w)\<^sup>+ \<subseteq> {..<next_node w} \<times> {..<next_node w}"
    using typed_calls [OF assms] by (rule trancl_subset_Sigma)
  then have "(calls w)\<^sup>+ `` {n} \<subseteq> {..<next_node w}"
    by blast
  then show ?thesis
    using card_mono [of "{..<next_node w}"] by simp
qed

section \<open>Properties\<close>

text \<open>C2: Whatever operations a client carries out from a world without nodes, one after the other and whether
  each returns or throws, no mutex of a publisher stays locked and every metrics node has its
  publisher. So as long as connections and publishers form no cycle and the client's functions
  return, every signal returns or throws: it never waits for a lock. The number of nodes is a
  sufficient depth.\<close>

theorem reachable_worlds_deliver:
  assumes "no_nodes w0" and "(evolves E)\<^sup>*\<^sup>* w0 w"
  shows "unlocked w \<and> owns_publishers w \<and>
    (acyclic (calls w) \<and> returning E \<longrightarrow>
       (\<forall>n m. \<exists>r. r \<noteq> NoReturn \<and> (\<forall>d \<ge> next_node w. send d E n m w = r)))"
proof (intro conjI impI allI)
  have typed: "well_typed w"
    using reachable_typed [OF assms(2) no_nodes_typed [OF assms(1)]] .
  then show unlocked: "unlocked w" and owns: "owns_publishers w"
    by (simp_all add: typed_unlocked typed_owns_publishers)
  fix n m assume safe: "acyclic (calls w) \<and> returning E"
  have "finite (calls w)"
    using typed_calls [OF typed] by (rule finite_subset) simp
  then have "send (next_node w) E n m w \<noteq> NoReturn"
    using safe owns unlocked card_callees [OF typed] by (intro acyclic_send_returns) simp_all
  then show "\<exists>r. r \<noteq> NoReturn \<and> (\<forall>d \<ge> next_node w. send d E n m w = r)"
    using send_depth_irrelevant by blast
qed

definition blank_world :: "unit world" where
  "blank_world = (example_world (\<lambda>_. []) (\<lambda>_. PlainNode))\<lparr>next_node := 0\<rparr>"

text \<open>The world of a metrics node and its publisher.\<close>

theorem reachable_worlds_deliver_witness:
  "\<exists>w ms. (evolves example_env)\<^sup>*\<^sup>* blank_world w \<and> class_part (heap w 0) = MetricsNode ms \<and>
    unlocked w \<and> (\<exists>d. send d example_env 0 0 w \<noteq> NoReturn)"
proof -
  have none: "no_nodes blank_world"
    by (simp add: no_nodes_def blank_world_def example_world_def example_node_def get_observers_def)
  let ?w = "snd (new_metrics_node example_env ''m'' 0 blank_world)"
  have reach: "(evolves example_env)\<^sup>*\<^sup>* blank_world ?w"
    by (intro r_into_rtranclp evolves.creates_metrics_node)
  have "class_part (heap ?w 0) = MetricsNode (metrics_part (class_part (heap ?w 0)))"
      "publisher_node (metrics_part (class_part (heap ?w 0))) = 1"
      "\<And>n. get_observers ?w n = []" "\<And>n ms. class_part (heap ?w n) = MetricsNode ms \<Longrightarrow> n = 0"
    by (auto simp: new_metrics_node_def new_metrics_publisher_node_def new_node_def get_current_time_def split_beta
        Let_def blank_world_def example_world_def example_node_def get_observers_def split: if_splits)
  note w = this
  have "a = 0 \<and> publisher_node ms = 1" if "class_part (heap ?w a) = MetricsNode ms" for a ms
  proof -
    have "a = 0"
      by (rule w(4) [OF that])
    with that have "metrics_part (class_part (heap ?w 0)) = ms"
      by simp
    with \<open>a = 0\<close> w(2) show ?thesis by simp
  qed
  then have "calls ?w \<subseteq> {(0, 1)}"
    using w(3) by (auto simp: calls_def)
  moreover have "acyclic {(0 :: nat, 1)}"
    by (simp add: acyclic_insert wf_acyclic)
  ultimately have "acyclic (calls ?w)"
    by (rule acyclic_subset [rotated])
  moreover have "returning example_env"
    by (simp add: returning_def example_env_def)
  ultimately have "unlocked ?w \<and> (\<exists>d. send d example_env 0 0 ?w \<noteq> NoReturn)"
    using reachable_worlds_deliver [OF none reach] by blast
  with reach w(1) show ?thesis by blast
qed

end
