(* ===== verification/Profiling.thy ===== *)
theory Profiling
  imports Root_Control
begin

text \<open>
  Profiling a graph puts the parts together: instrument it, start it, run one node on the calling
  thread, stop everything, and take the metrics nodes out again. The running node may change
  whatever signals change, but not how the nodes are wired.
\<close>

section \<open>Wiring\<close>

text \<open>The pointers of a node that instrumenting relies on.\<close>

fun link_of :: "node_class \<Rightarrow> nid + graph_root_state option option" where
  "link_of (MetricsNode ms) = Inl (publisher_node ms)"
| "link_of (MetricsPublisherNode p) = Inr None"
| "link_of (GraphRoot r) = Inr (Some (Some (r\<lparr>node_to_run := None\<rparr>)))"
| "link_of c = Inr (Some None)"

definition wiring :: "'u world \<Rightarrow> 'u world \<Rightarrow> bool" where
  "wiring w v \<longleftrightarrow> get_observers v = get_observers w \<and> next_node v = next_node w \<and>
     (\<forall>n. link_of (class_part (heap v n)) = link_of (class_part (heap w n)))"

lemma wiring_refl [simp]: "wiring w w"
  by (simp add: wiring_def)

lemma wiring_trans: "wiring u v \<Longrightarrow> wiring v w \<Longrightarrow> wiring u w"
  by (simp add: wiring_def)

lemma link_metrics: "link_of c = Inl n \<longleftrightarrow> (\<exists>ms. c = MetricsNode ms \<and> publisher_node ms = n)"
  by (cases c) auto

lemma link_publisher: "link_of c = Inr None \<longleftrightarrow> (\<exists>p. c = MetricsPublisherNode p)"
  by (cases c) auto

lemma link_root: "link_of c = Inr (Some (Some r)) \<longleftrightarrow> (\<exists>r'. c = GraphRoot r' \<and> r'\<lparr>node_to_run := None\<rparr> = r)"
  by (cases c) auto

lemma is_metrics_node_link: "is_metrics_node w n \<longleftrightarrow> (\<exists>m. link_of (class_part (heap w n)) = Inl m)"
  unfolding link_metrics by (auto simp: is_metrics_node_def split: node_class.splits)

lemma meter_link: "meter lo w m \<longleftrightarrow> (\<exists>k. link_of (class_part (heap w m)) = Inl k \<and> lo \<le> k \<and> k < next_node w \<and>
    link_of (class_part (heap w k)) = Inr None)"
  unfolding meter_def link_metrics link_publisher by auto

lemma is_root_link: "is_root w n \<longleftrightarrow> (\<exists>r. link_of (class_part (heap w n)) = Inr (Some (Some r)))"
  unfolding link_root is_root_def by auto

lemma metered_link:
  "metered w self t ag \<longleftrightarrow>
    (\<exists>r. link_of (class_part (heap w self)) = Inr (Some (Some r)) \<and> metrics_trigger r = t \<and> metrics_aggregator r = Some ag) \<and>
    \<not> is_metrics_node w ag \<and> (\<forall>tr. t = Some tr \<longrightarrow> \<not> is_metrics_node w tr)"
  unfolding link_root metered_def by auto

lemma wiring_instrumented:
  assumes "wiring w v"
  shows "instrumented lo R self t ag G v = instrumented lo R self t ag G w"
proof -
  have eq: "get_observers v = get_observers w" "next_node v = next_node w"
      "link_of (class_part (heap v n)) = link_of (class_part (heap w n))" for n
    using assms by (simp_all add: wiring_def)
  then show ?thesis
    by (simp only: instrumented_def instrumentable_def tapped_def metered_node_def metered_link meter_link is_metrics_node_link)
qed

lemma wiring_root:
  assumes "wiring w v" and "is_root w n"
  shows "is_root v n" and "(root_of v n)\<lparr>node_to_run := None\<rparr> = (root_of w n)\<lparr>node_to_run := None\<rparr>"
proof -
  obtain r where r: "class_part (heap w n) = GraphRoot r"
    using assms(2) by (auto simp: is_root_def)
  then have "link_of (class_part (heap v n)) = Inr (Some (Some (r\<lparr>node_to_run := None\<rparr>)))"
    using assms(1) by (simp add: wiring_def)
  then show "is_root v n" "(root_of v n)\<lparr>node_to_run := None\<rparr> = (root_of w n)\<lparr>node_to_run := None\<rparr>"
    using r by (auto simp: link_root is_root_def)
qed

lemma wiring_root_members:
  assumes "wiring w v" and "is_root w n"
  shows "metrics_instrumented (root_of v n) = metrics_instrumented (root_of w n)"
    and "metrics_trigger (root_of v n) = metrics_trigger (root_of w n)"
  using wiring_root(2) [OF assms] by (metis graph_root_state.select_convs graph_root_state.surjective graph_root_state.update_convs(7))+

lemma wiring_is_root: "wiring w v \<Longrightarrow> is_root v n = is_root w n"
  by (simp add: wiring_def is_root_link)

lemma wiring_update_runnable: "wiring w (update_runnable f n w)"
  by (simp add: wiring_def update_runnable_def get_observers_def fun_eq_iff)

lemma wiring_log_line: "wiring w (log_line b msg w)"
  by (simp add: wiring_def log_line_def get_observers_def fun_eq_iff)

lemma wiring_threads: "wiring w (announced dbg doing ns (on_threads g A w))"
  by (simp add: wiring_def announced_def on_threads_def get_observers_def fun_eq_iff)

lemma wiring_node_to_run: "is_root w n \<Longrightarrow> wiring w (update_root (\<lambda>r. r\<lparr>node_to_run := run\<rparr>) n w)"
  by (auto simp: wiring_def update_root_def is_root_def get_observers_def fun_eq_iff)

lemma below_wiring: "wiring w v \<Longrightarrow> below v self = below w self"
  by (simp add: wiring_def below_def)

text \<open>The walks of a root over threads, in a world wired like one whose graph is known.\<close>

definition walkable :: "nat \<Rightarrow> nid \<Rightarrow> 'u world \<Rightarrow> bool" where
  "walkable k self w \<longleftrightarrow> is_root w self \<and> (\<forall>n \<in> below w self. \<not> is_root w n) \<and>
     (\<exists>N. finite N \<and> (\<forall>x \<in> N. set (get_observers w x) \<subseteq> N) \<and> self \<in> N \<and> card N < k)"

lemma walkable_wiring: "wiring w v \<Longrightarrow> walkable k self w \<Longrightarrow> walkable k self v"
  unfolding walkable_def using below_wiring [of w v self] wiring_is_root [of w v] by (simp add: wiring_def)

lemma walk_wiring:
  assumes "walkable k self w"
  shows "\<exists>v. walk_world k (visit_runnable doing rc (update_runnable g) dbg run) fwd self w = Returns () v \<and> wiring w v"
proof -
  obtain N where N: "finite N" "\<forall>x \<in> N. set (get_observers w x) \<subseteq> N" "self \<in> N" "card N < k"
    using assms by (auto simp: walkable_def)
  have "\<forall>n \<in> below w self. \<not> is_root w n"
    using assms by (simp add: walkable_def)
  from walk_threads [OF this N] show ?thesis
    using wiring_threads by metis
qed

lemma start_wiring:
  assumes "walkable k self w" and "\<And>v. \<exists>u. thread_fn n v = Returns () u \<and> wiring v u"
  shows "\<exists>v. start_all (Suc d) k thread_fn (Some n) self w = Returns () v \<and> wiring w v"
proof -
  let ?w = "update_root (\<lambda>r. r\<lparr>node_to_run := Some n\<rparr>) self w"
  have w: "wiring w ?w"
    using assms(1) by (simp add: wiring_node_to_run walkable_def)
  obtain v where v: "walk_world k (visit_runnable ''starting'' (start_all d k thread_fn None) (update_runnable start_thread)
      (debug (root_of w self)) (Some n)) False self ?w = Returns () v" "wiring ?w v"
    using walk_wiring [OF walkable_wiring [OF w assms(1)]] by blast
  let ?v = "log_line (debug (root_of w self)) (''GraphRoot running '' @ node_name (heap v n)) v"
  obtain u where u: "node_run thread_fn n ?v = Returns () u" "wiring (update_runnable clear_stop_signal n ?v) u"
    using assms(2) unfolding node_run_def by blast
  have "wiring w u"
    by (rule wiring_trans [OF w wiring_trans [OF v(2) wiring_trans [OF wiring_log_line wiring_trans [OF wiring_update_runnable u(2)]]]])
  with v(1) u(1) show ?thesis
    by (simp add: Let_def node_start_def)
qed

section \<open>The instrumented graph\<close>

lemma instrumented_walkable:
  assumes I: "instrumented lo (below w self) self t ag (get_observers w) v" and "fresh_root w self"
    and "is_root v self" and "\<forall>a \<in> below w self. \<not> is_root v a"
    and "get_observers v self = get_observers w self"
    and "card (below w self) + (\<Sum>a \<in> below w self. length (get_observers w a)) + 1 < k"
  shows "walkable k self v"
proof -
  let ?R = "below w self" and ?G = "get_observers w" and ?O = "get_observers v"
  note facts = instrumented_facts [OF I]
  define M where "M = (\<Union>a \<in> ?R. set (?O a))"
  have finR: "finite ?R"
    using assms(2) by (intro finite_subset [of ?R "{..<next_node w}"]) (auto simp: fresh_root_def)
  have children: "set (?O self) \<subseteq> ?R"
    using assms(5) by (auto simp: below_def graph_edges_def)
  have taps: "set (?O m) \<subseteq> ?R" if m: "m \<in> M" for m
  proof -
    obtain a where a: "a \<in> ?R" "m \<in> set (?O a)"
      using m by (auto simp: M_def)
    then have "?O m \<in> set (map ?O (?O a))"
      by simp
    then have "?O m \<in> set (map (\<lambda>c. [c]) (?G a))"
      using facts(4) [OF a(1)] by simp
    then show ?thesis
      using facts(4) [OF a(1)] by auto
  qed
  have "below v self \<subseteq> ?R \<union> M"
    unfolding below_def [of v] by (rule reach_least) (use children taps in \<open>auto simp: M_def\<close>)
  moreover have "\<not> is_root v m" if "m \<in> M" for m
    using that facts(1) by (auto simp: M_def meter_def is_root_def) (metis node_class.distinct)+
  ultimately have "\<forall>n \<in> below v self. \<not> is_root v n"
    using assms(4) by blast
  moreover have "finite (insert self (?R \<union> M))"
    using finR by (simp add: M_def)
  moreover have "\<forall>x \<in> insert self (?R \<union> M). set (?O x) \<subseteq> insert self (?R \<union> M)"
    using children taps by (auto simp: M_def)
  moreover have "card (insert self (?R \<union> M)) < k"
  proof -
    have "length (?O a) = length (?G a)" if "a \<in> ?R" for a
      using facts(4) [OF that] by (metis length_map)
    then have "card M \<le> (\<Sum>a \<in> ?R. length (?G a))"
      unfolding M_def by (intro order_trans [OF card_UN_le [OF finR]] sum_mono) (metis card_length)
    then have "card (?R \<union> M) \<le> card ?R + (\<Sum>a \<in> ?R. length (?G a))"
      using card_Un_le [of ?R M] by linarith
    moreover have "card (insert self (?R \<union> M)) \<le> Suc (card (?R \<union> M))"
      using finR by (simp add: card_insert_if M_def)
    ultimately show ?thesis
      using assms(6) by linarith
  qed
  ultimately show ?thesis
    unfolding walkable_def using assms(3) by blast
qed

section \<open>Properties\<close>

text \<open>C4: Profiling a graph with a node that runs on the calling thread returns when that node does, and
  leaves every connection of the graph as it was before, whatever the node and the other threads have done to messages, members
  and statistics in between. The root is not instrumented any more.\<close>

theorem profile_restores_the_graph:
  assumes "fresh_root w self" and "\<forall>a \<in> below w self. \<not> is_root w a"
    and "\<forall>v. \<exists>u. thread_fn n v = Returns () u \<and> wiring v u"
    and "2 * card (below w self) + (\<Sum>a \<in> below w self. length (get_observers w a)) + 1 < k"
  shows "\<exists>u. graph_profile (Suc d) k E thread_fn (Some n) self w = Returns () u \<and>
    (\<forall>a < next_node w. get_observers u a = get_observers w a) \<and> \<not> metrics_instrumented (root_of u self)"
proof -
  let ?R = "below w self"
  have k: "card ?R < k" "2 * card ?R < k" "card ?R + (\<Sum>a \<in> ?R. length (get_observers w a)) + 1 < k"
    using assms(4) by simp_all
  obtain v lo t ag where v: "instrument_metrics k E self w = Returns () v" "next_node w \<le> lo"
      "instrumented lo ?R self t ag (get_observers w) v" "class_part (heap v self) = GraphRoot (root_of v self)"
      "metrics_instrumented (root_of v self)" "\<forall>tr. t = Some tr \<longrightarrow> next_node w \<le> tr"
      "\<forall>a < next_node w. a \<in> ?R \<or> get_observers v a = get_observers w a"
      "\<forall>a < next_node w. a \<noteq> self \<longrightarrow> class_part (heap v a) = class_part (heap w a)"
    using instrument_eq [OF assms(1) k(1)] by metis
  have R: "self < next_node w" "self \<notin> ?R" "\<forall>a \<in> ?R. a < next_node w"
    using assms(1) by (auto simp: fresh_root_def)
  have root: "is_root v self"
    using v(4) unfolding is_root_def by blast
  have "\<forall>a \<in> ?R. \<not> is_root v a"
    using v(8) R assms(2) unfolding is_root_def by (metis R(2))
  then have walkable: "walkable k self v"
    using v(7) R by (intro instrumented_walkable [OF v(3) assms(1) root _ _ k(3)]) auto
  define v1 where "v1 = (case metrics_trigger (root_of v self) of None \<Rightarrow> v | Some trigger \<Rightarrow> node_start trigger v)"
  have v1: "wiring v v1"
    by (simp add: v1_def node_start_def wiring_update_runnable split: option.split)
  obtain v2 where v2: "start_all (Suc d) k thread_fn (Some n) self v1 = Returns () v2" "wiring v1 v2"
    using start_wiring [OF walkable_wiring [OF v1 walkable]] assms(3) by blast
  have w2: "wiring v v2"
    by (rule wiring_trans [OF v1 v2(2)])
  obtain v3 where v3: "walk_world k (visit_runnable ''stopping'' (graph_stop d k) node_stop_and_join (debug (root_of v2 self))
      (node_to_run (root_of v2 self))) True self v2 = Returns () v3" "wiring v2 v3"
    using walk_wiring [OF walkable_wiring [OF w2 walkable]] unfolding node_stop_and_join_def by blast
  define v4 where "v4 = (case metrics_trigger (root_of v3 self) of None \<Rightarrow> v3 | Some trigger \<Rightarrow> node_stop_and_join trigger v3)"
  have v4: "wiring v3 v4"
    by (simp add: v4_def node_stop_and_join_def wiring_update_runnable split: option.split)
  have w3: "wiring v v3" "wiring v v4"
    by (rule wiring_trans [OF w2 v3(2)], rule wiring_trans [OF w2 wiring_trans [OF v3(2) v4]])
  then have flags: "metrics_instrumented (root_of v3 self)" "metrics_instrumented (root_of v4 self)"
    using v(5) wiring_root_members(1) [OF w3(1) root] wiring_root_members(1) [OF w3(2) root] by blast+
  have "get_observers v4 = get_observers v"
    using w3(2) by (simp add: wiring_def)
  then obtain u where u: "deinstrument_metrics k self v4 = Returns () u" "\<forall>a < next_node w. get_observers u a = get_observers w a"
    using deinstrument_eq [OF _ assms(1) flags(2) v(2,6) _ k(2)] v(3,7) wiring_instrumented [OF w3(2)] by metis
  have "graph_stop (Suc d) k self v2 = Returns () u"
    using v3(1) flags(1) u(1) by (simp add: Let_def v4_def)
  then have "graph_profile (Suc d) k E thread_fn (Some n) self w = Returns () u"
    using v(1) v2(1) by (simp add: graph_profile_def Let_def v1_def del: start_all.simps graph_stop.simps)
  moreover have "\<not> metrics_instrumented (root_of u self)"
    using u(1) flags(2) by (auto simp: deinstrument_metrics_def andthen_Returns_iff set_instrumented_def update_root_def)
  ultimately show ?thesis
    using u(2) by blast
qed

theorem profile_restores_the_graph_witness:
  "\<exists>u. graph_profile 1 9 example_env (\<lambda>_. Returns ()) (Some 0) 9 rooted_world = Returns () u \<and> get_observers u 0 = [1, 1]"
proof -
  have obs: "get_observers rooted_world = (\<lambda>_. [])(9 := [0], 0 := [1, 1], 1 := [0])"
    by (simp add: rooted_world_def)
  have "(9, 0) \<in> graph_edges (get_observers rooted_world)" "(0, 1) \<in> graph_edges (get_observers rooted_world)"
    by (simp_all add: obs graph_edges_def)
  then have "{0, 1} \<subseteq> below rooted_world 9"
    by (auto simp: below_def)
  moreover have "below rooted_world 9 \<subseteq> {0, 1}"
    unfolding below_def obs by (rule reach_least) auto
  ultimately have below: "below rooted_world 9 = {0, 1}"
    by blast
  have "fresh_root rooted_world 9" "\<forall>a \<in> below rooted_world 9. \<not> is_root rooted_world a"
    unfolding fresh_root_def below
    by (auto simp: rooted_world_def is_metrics_node_def is_root_def example_world_def example_node_def)
  moreover have "\<forall>v :: unit world. \<exists>u. Returns () v = (Returns () u :: (error, unit world, unit) outcome) \<and> wiring v u"
    by simp
  moreover have "2 * card (below rooted_world 9) + (\<Sum>a \<in> below rooted_world 9. length (get_observers rooted_world a)) + 1 < 9"
    by (simp add: below obs)
  moreover have "0 < next_node rooted_world"
    by (simp add: rooted_world_def example_world_def)
  ultimately obtain u where "graph_profile 1 9 example_env (\<lambda>_. Returns ()) (Some 0) 9 rooted_world = Returns () u"
      "get_observers u 0 = get_observers rooted_world 0"
    using profile_restores_the_graph [of rooted_world 9 "\<lambda>_. Returns ()" 0 9 0 example_env] by fastforce
  then show ?thesis
    by (auto simp: obs)
qed

end
