(* ===== verification/Graph_Filter.thy ===== *)
theory Graph_Filter
  imports Graph_Walk
begin

text \<open>
  What \<open>filter_nodes\<close> does not remove. A node that the predicate refuses is bypassed at the
  first parent from which the walk reaches it. If it has another parent, or if its own parent was
  removed just before, it stays in the graph.
\<close>

lemma keep_step:
  assumes "child \<notin> visited" and "keep child" and "get_observers (fst s) child = cs"
  shows "filter_step (Suc k) (\<lambda>n l. Returns (keep n)) level parent child (s, visited) =
    for_each (filter_step k (\<lambda>n l. Returns (keep n)) (Suc level) child) cs (s, insert child visited)"
  using assms by simp

text \<open>A node without metrics is cut out: its observers become observers of its parent.\<close>

lemma cut_step:
  assumes "child \<notin> visited" and "\<not> keep child" and "get_observers w child = [c]"
    and "\<not> is_metrics_node w parent" and "\<not> is_metrics_node w c"
    and "parent \<noteq> child"
  shows "filter_step (Suc k) (\<lambda>n l. Returns (keep n)) level parent child ((w, s), visited) =
    filter_step k (\<lambda>n l. Returns (keep n)) (Suc level) child c
      ((push_observer parent c (disconnect parent child w), s), insert child visited)"
proof -
  have "connect parent c (disconnect parent child w) = Returns () (push_observer parent c (disconnect parent child w))"
    using assms(4,5) by (intro connect_plain) (simp_all add: is_metrics_node_def)
  moreover have "andthen r (for_each f []) = r" for r and f :: "nid \<Rightarrow> 'x \<Rightarrow> (error, 'x, unit) outcome"
    by (cases r) simp_all
  ultimately show ?thesis
    using assms(1-3) by simp
qed

lemma cut_leaf_step:
  assumes "child \<notin> visited" and "\<not> keep child" and "get_observers w child = []"
  shows "filter_step (Suc k) (\<lambda>n l. Returns (keep n)) level parent child ((w, s), visited) =
    Returns () ((disconnect parent child w, s), insert child visited)"
  using assms by simp

section \<open>Properties\<close>

text \<open>C15: Filtering does not prune every refused node. Of two refused nodes in a row, the second
  is disconnected from the first, which has left the graph, and not from the parent it was just connected
  to. And a refused node with two parents is disconnected from the first only, since the
  walk comes to it once.\<close>

theorem filter_leaves_refused_nodes:
  assumes "get_observers w self = [a]" and "get_observers w a = [b]" and "get_observers w b = []"
    and "distinct [self, a, b]" and "\<not> is_metrics_node w self" and "\<not> is_metrics_node w b"
    and "get_observers u source = [x, y]" and "get_observers u x = [d]" and "get_observers u y = [d]"
    and "get_observers u d = []" and "distinct [x, y, d]"
  shows "(\<exists>v. filter_nodes (Suc (Suc k)) (\<lambda>n l. Returns (n \<notin> {a, b})) self (w, s) = Returns () (v, s) \<and>
      get_observers v self = [b]) \<and>
    (\<exists>v. filter_nodes (Suc (Suc k)) (\<lambda>n l. Returns (n \<notin> {d})) source (u, t) = Returns () (v, t) \<and>
      get_observers v x = [] \<and> get_observers v y = [d])"
proof -
  let ?w = "push_observer self b (disconnect self a w)"
  have "filter_step (Suc (Suc k)) (\<lambda>n l. Returns (n \<notin> {a, b})) 0 self a ((w, s), {}) =
      filter_step (Suc k) (\<lambda>n l. Returns (n \<notin> {a, b})) 1 a b ((?w, s), {a})"
    using cut_step [of a "{}" "\<lambda>n. n \<notin> {a, b}" w b self "Suc k" 0 s] assms(2,4-6) by simp
  also have "\<dots> = Returns () ((disconnect a b ?w, s), {a, b})"
    using assms(3,4) by (subst cut_leaf_step)
      (auto simp: observer_lists.obs_link observer_lists.obs_unlink insert_commute)
  finally have "filter_nodes (Suc (Suc k)) (\<lambda>n l. Returns (n \<notin> {a, b})) self (w, s) = Returns () (disconnect a b ?w, s)"
    using assms(1) by (simp add: filter_nodes_def del: filter_step.simps)
  moreover have "get_observers (disconnect a b ?w) self = [b]"
    using assms(1,4) by (simp add: observer_lists.obs_link observer_lists.obs_unlink)
  moreover have "filter_nodes (Suc (Suc k)) (\<lambda>n l. Returns (n \<notin> {d})) source (u, t) = Returns () (disconnect x d u, t)"
    using assms(7-11) by (simp add: filter_nodes_def observer_lists.obs_unlink)
  moreover have "get_observers (disconnect x d u) x = []" "get_observers (disconnect x d u) y = [d]"
    using assms(8,9,11) by (simp_all add: observer_lists.obs_unlink)
  ultimately show ?thesis
    by blast
qed

theorem filter_leaves_refused_nodes_witness:
  "\<exists>v. filter_nodes 2 (\<lambda>n l. Returns (n \<notin> {1, 2})) 0
      (example_world ((\<lambda>_. [])(0 := [1], 1 := [2])) (\<lambda>_. PlainNode), ()) = Returns () (v, ()) \<and> get_observers v 0 = [2]"
proof -
  let ?w = "example_world ((\<lambda>_. [])(0 := [1], 1 := [2])) (\<lambda>_. PlainNode)"
  have "\<not> is_metrics_node ?w n" for n
    by (simp add: is_metrics_node_def example_world_def example_node_def)
  with filter_leaves_refused_nodes [of ?w 0 1 2 "example_world diamond (\<lambda>_. PlainNode)" 0 1 2 3 0 "()" "()"]
  show ?thesis
    by (simp add: diamond_def numeral_2_eq_2)
qed

end
