(* ===== verification/Metrics_Reports.thy ===== *)
theory Metrics_Reports
  imports Dispatch Core_Messages
begin

text \<open>
  What metrics nodes count and print: the number of messages missed from a sender, and the texts of
  trackers, metrics messages and publishers (\<open>metrics.cpp\<close>). The default format of a double
  in a stream is the parameter \<open>format_double\<close>; once a report has switched to fixed notation the numbers after it
  use that.
\<close>

section \<open>Texts\<close>

definition tracker_to_string :: "(real \<Rightarrow> string) \<Rightarrow> metric_tracker \<Rightarrow> string" where
  "tracker_to_string fmt t =
     ''<MetricTracker'' @ '' count:'' @ dec_str (unat (count t)) @ '' total:'' @ fmt (total t) @
     '' mean:'' @ fmt (mean_value t) @ '' variance:'' @ fmt (m2_value t) @
     '' min:'' @ fmt (min_value t) @ '' max:'' @ fmt (max_value t) @ ''>''"

text \<open>The Greek letters of the compact report, in UTF-8.\<close>

definition mu_text :: string where
  "mu_text = [CHR 0xCE, CHR 0xBC]"

definition sigma2_text :: string where
  "sigma2_text = [CHR 0xCF, CHR 0x83, CHR 0xC2, CHR 0xB2]"

definition tracker_report :: "string \<Rightarrow> bool \<Rightarrow> metric_tracker \<Rightarrow> string" where
  "tracker_report title brief t =
     (if brief
      then title @ '' '' @ '' '' @ mu_text @ '':'' @ fixed 6 (mean_value t) @
           '' '' @ sigma2_text @ '':'' @ fixed 6 (variance_value t) @ '' N:'' @ dec_str (unat (count t)) @
           (if count t > 0 then '' ['' @ fixed 6 (min_value t) @ '','' @ fixed 6 (max_value t) @ '']'' else [])
      else (if length title > 0 then title @ ''\<newline>'' else []) @
           line ''    sample count: '' (dec_str (unat (count t))) @
           line ''        mean: '' (fixed 6 (mean_value t)) @
           line ''    variance: '' (fixed 6 (variance_value t)) @
           (if count t > 0
            then line ''         min: '' (fixed 6 (min_value t)) @
                 line ''         max: '' (fixed 6 (max_value t)) @
                 line ''   sum total: '' (fixed 6 (total t))
            else []))"

definition metrics_print_on :: "(real \<Rightarrow> string) \<Rightarrow> flexlib \<Rightarrow> message \<Rightarrow> string \<Rightarrow> (error, string, unit) outcome" where
  "metrics_print_on fmt L m os =
     andthen (put ''<MetricsMessage '' os) (\<lambda>os.
     andthen (case deserialize_uuid (as_blob L (root_val L m ''parent_node_guid'')) of
                None \<Rightarrow> Throws OutOfBounds os
              | Some g \<Rightarrow> put ('' parent: '' @ str g @ '' \"'' @ as_string L (root_val L m ''parent_node_name'') @ ''\"'') os) (\<lambda>os.
     andthen (case deserialize_uuid (as_blob L (root_val L m ''child_node_guid'')) of
                None \<Rightarrow> Throws OutOfBounds os
              | Some g \<Rightarrow> put ('' child: '' @ str g @ '' \"'' @ as_string L (root_val L m ''child_node_name'') @ ''\"'') os) (\<lambda>os.
     andthen (put ('' elapsed_time:'' @ fmt (as_double L (root_val L m ''elapsed_time'')) @
                   '' current_mem_usage:'' @ dec_str (unat (as_uint64 L (root_val L m ''current_mem_usage'')))) os) (\<lambda>os.
     andthen (for_each (\<lambda>(name, t). put ('' '' @ name @ '': '' @ tracker_to_string fmt t)) (message_metrics L m) os) (\<lambda>os.
     case message_to_string L m of
       None \<Rightarrow> Throws OutOfBounds os
     | Some text \<Rightarrow> put (text @ ''>'') os)))))"

definition publisher_report :: "'u env \<Rightarrow> string \<Rightarrow> bool \<Rightarrow> nid \<Rightarrow> 'u world \<Rightarrow> 'u world" where
  "publisher_report E title brief self w =
     (let p = publisher_part (class_part (heap w self));
          n = real (unat (count (tracked_receive_time p)));
          (now, w) = get_current_time E w;
          elapsed_time = now - last_reset_time p;
          text = title @ '': Metrics\<newline>'' @
            line ''  sample count: '' (dec_str (unat (count (tracked_receive_time p)))) @
            line ''  elapsed time, seconds: '' (fixed 6 elapsed_time) @
            line ''  current mem usage, bytes: '' (dec_str (unat (current_rss E (ticks w)))) @
            line ''  frequency, hz: '' (fixed_quotient 6 1 (mean_value (tracked_dt p))) @
            line ''  time fraction: '' (fixed_quotient 6 (n * mean_value (tracked_receive_time p)) elapsed_time) @
            tracker_report ''  receive time, seconds'' brief (tracked_receive_time p) @
            tracker_report ''  bytes'' brief (tracked_bytes p) @
            tracker_report ''  dt, seconds'' brief (tracked_dt p) @
            tracker_report ''  latency, seconds'' brief (tracked_latency p) @
            tracker_report ''  missed messages'' brief (tracked_missed_messages p)
      in w\<lparr>console := console w @ [text]\<rparr>)"

definition metrics_node_report :: "'u env \<Rightarrow> bool \<Rightarrow> nid \<Rightarrow> 'u world \<Rightarrow> 'u world" where
  "metrics_node_report E brief self w =
     publisher_report E (node_name (heap w self)) brief (publisher_node (metrics_part (class_part (heap w self)))) w"

text \<open>A report changes no node, and reads the clock once.\<close>

lemma metrics_node_report_frame:
  "heap (metrics_node_report E brief self w) = heap w"
  "ticks (metrics_node_report E brief self w) = ticks w + 1"
  "\<exists>text. console (metrics_node_report E brief self w) = console w @ [text]"
  by (simp_all add: metrics_node_report_def publisher_report_def get_current_time_def Let_def)

section \<open>Reading a metrics message\<close>

definition elapsed_time :: "flexlib \<Rightarrow> message \<Rightarrow> real" where
  "elapsed_time L m = as_double L (root_val L m ''elapsed_time'')"

definition current_mem_usage :: "flexlib \<Rightarrow> message \<Rightarrow> u64" where
  "current_mem_usage L m = as_uint64 L (root_val L m ''current_mem_usage'')"

definition name_field :: "string \<Rightarrow> flexlib \<Rightarrow> message \<Rightarrow> string" where
  "name_field key L m = as_string L (root_val L m key)"

definition guid_field :: "string \<Rightarrow> flexlib \<Rightarrow> message \<Rightarrow> uuid option" where
  "guid_field key L m = deserialize_uuid (as_blob L (root_val L m key))"

lemma metrics_message_fields:
  assumes "has_data L (FMap ((''_meta'', fresh_meta L now (- 1) ''core'' ''MetricsMessage'') #
      metrics_payload hst pname cname pguid cguid elapsed rss metrics))"
  defines "m \<equiv> metrics_message L now elapsed metrics pguid pname cguid cname hst rss"
  shows "elapsed_time L m = elapsed" and "current_mem_usage L m = rss"
    and "name_field ''parent_node_name'' L m = pname" and "name_field ''child_node_name'' L m = cname"
    and "name_field ''host_name'' L m = hst"
    and "guid_field ''parent_node_guid'' L m = Some pguid" and "guid_field ''child_node_guid'' L m = Some cguid"
proof -
  have root: "root_val L m key = map_at (metrics_payload hst pname cname pguid cguid elapsed rss metrics) key"
    if "key \<noteq> ''_meta''" for key
    using root_val_payload [OF assms(1) that] unfolding m_def metrics_message_def .
  show "elapsed_time L m = elapsed" "current_mem_usage L m = rss"
    "name_field ''parent_node_name'' L m = pname" "name_field ''child_node_name'' L m = cname"
    "name_field ''host_name'' L m = hst"
    "guid_field ''parent_node_guid'' L m = Some pguid" "guid_field ''child_node_guid'' L m = Some cguid"
    by (simp_all add: elapsed_time_def current_mem_usage_def name_field_def guid_field_def root metrics_payload_def
        map_at_def serialize_uuid_def)
qed

section \<open>Missed messages\<close>

text \<open>The subtraction happens in 64 bits and the result is cut to 32, so only the lower halves matter.\<close>

lemma low_half: "(x :: int) mod 18446744073709551616 mod 4294967296 = x mod 4294967296"
  by (simp add: mod_mod_cancel)

lemma ucast_diff_down: "(ucast (a - b :: u64) :: u32) = ucast a - ucast b"
  by transfer (simp add: take_bit_eq_mod low_half, metis low_half mod_diff_eq)

lemma ucast_scast_down: "(ucast (scast (x :: u32) :: u64) :: u32) = x"
  by transfer (simp add: take_bit_signed_take_bit)

lemma ucast_add_down: "(ucast (a + word_of_nat n :: u64) :: u32) = ucast a + word_of_nat n"
  by transfer (simp add: take_bit_eq_mod low_half, metis low_half mod_add_left_eq)

lemma skipped_word:
  "(ucast (lst + word_of_nat gap - scast (ucast lst :: u32) - 1 :: u64) :: u32) = word_of_nat gap - 1"
  by (simp add: ucast_diff_down ucast_scast_down ucast_add_down)

lemma max_sint_mod: "max 0 (sint (word_of_int k :: u32)) = (let r = k mod 2 ^ 32 in if r < 2 ^ 31 then r else 0)"
proof -
  have "sint (word_of_int k :: u32) = (k + 2 ^ 31) mod 2 ^ 32 - 2 ^ 31"
    by (simp add: signed_of_int signed_take_bit_eq_take_bit_shift take_bit_eq_mod)
  also have "(k + 2 ^ 31) mod 2 ^ 32 = (k mod 2 ^ 32 + 2 ^ 31) mod 2 ^ 32"
    by (simp add: mod_add_left_eq)
  also have "\<dots> = (if k mod 2 ^ 32 < 2 ^ 31 then k mod 2 ^ 32 + 2 ^ 31 else k mod 2 ^ 32 - 2 ^ 31)"
  proof -
    have "(r + 2 ^ 31) mod 2 ^ 32 = (if r < 2 ^ 31 then r + 2 ^ 31 else r - 2 ^ 31)"
      if "0 \<le> r" "r < 2 ^ 32" for r :: int
    proof (cases "r < 2 ^ 31")
      case False
      then have "(r + 2 ^ 31) mod 2 ^ 32 = (r - 2 ^ 31 + 1 * 2 ^ 32) mod 2 ^ 32"
        by (simp add: add.commute)
      also have "\<dots> = r - 2 ^ 31"
        using False that by (simp only: mod_mult_self1) simp
      finally show ?thesis
        using False by simp
    qed (use that in simp)
    then show ?thesis by simp
  qed
  finally have sint: "sint (word_of_int k :: u32) =
      (if k mod 2 ^ 32 < 2 ^ 31 then k mod 2 ^ 32 + 2 ^ 31 else k mod 2 ^ 32 - 2 ^ 31) - 2 ^ 31" .
  have "0 \<le> k mod 2 ^ 32" "k mod 2 ^ 32 < 2 ^ 32"
    by simp_all
  then show ?thesis
    unfolding sint Let_def by (auto simp: max_def)
qed

lemma missed_messages_eq:
  "missed_messages (Some lst) (lst + word_of_nat gap) = max 0 (sint (word_of_nat gap - 1 :: u32))"
  by (simp add: missed_messages_def skipped_word Let_def)

section \<open>Properties\<close>

text \<open>C30: The number of missed messages is the gap between the 64-bit counters of two messages from a sender,
  less one, modulo \<open>2 ^ 32\<close>, as it is computed in 32 bits; and where that is
  \<open>2 ^ 31\<close> or more, none are counted. A message missed before the first one that arrives with counter
  one is not noticed, since an unknown sender counts as one whose message zero has arrived.\<close>

theorem missed_messages_are_gaps:
  "missed_messages (Some lst) (lst + word_of_nat gap) =
     (let missed = (int gap - 1) mod 2 ^ 32 in if missed < 2 ^ 31 then missed else 0) \<and>
   missed_messages None 1 = 0"
proof
  have "word_of_nat gap - 1 = (word_of_int (int gap - 1) :: u32)"
    by simp
  then show "missed_messages (Some lst) (lst + word_of_nat gap) =
     (let missed = (int gap - 1) mod 2 ^ 32 in if missed < 2 ^ 31 then missed else 0)"
    by (simp only: missed_messages_eq max_sint_mod)
  show "missed_messages None 1 = 0"
    by (simp add: missed_messages_def Let_def)
qed

text \<open>A gap that fits is counted as it is; a gap of \<open>2 ^ 32 + 5\<close> like a gap of five.\<close>

lemma missed_messages_examples:
  "missed_messages (Some (2 ^ 40)) (2 ^ 40 + 5) = 4"
  "missed_messages (Some 7) (7 + (2 ^ 32 + 5)) = 4"
  "missed_messages (Some 7) (7 + (2 ^ 31 + 1)) = 0"
  by (simp_all add: missed_messages_def Let_def)

end
