(* ===== verification/Tensor_Format.thy ===== *)
theory Tensor_Format
  imports Core_Messages
begin

text \<open>
  Tensors in FlexBuffers (\<open>flex_tensor_format.h\<close>, \<open>flex_tensor_format.cpp\<close>, \<open>flex_xtensor.h\<close>,
  \<open>flex_eigen.h\<close>): a map of a shape, the raw bytes of the elements in row-major order, and the
  code of the element type. A tensor is its shape and its elements. The element type, a template argument in the
  code, is a record of its type code and how a value lies in memory; the
  adaptor of xtensor over foreign memory is the parameter \<open>adapt\<close>.
\<close>

section \<open>Element types\<close>

datatype dtype =
    Int8 | Int16 | Int32 | Int64 | UInt8 | UInt16 | UInt32 | UInt64 | Float32 | Float64 | Float16
  | OtherType nat

fun dtype_index :: "dtype \<Rightarrow> int" where
  "dtype_index Int8 = 0"
| "dtype_index Int16 = 1"
| "dtype_index Int32 = 2"
| "dtype_index Int64 = 3"
| "dtype_index UInt8 = 4"
| "dtype_index UInt16 = 5"
| "dtype_index UInt32 = 6"
| "dtype_index UInt64 = 7"
| "dtype_index Float32 = 10"
| "dtype_index Float64 = 11"
| "dtype_index Float16 = 14"
| "dtype_index (OtherType n) = - 1"

fun dtype_name :: "dtype \<Rightarrow> string" where
  "dtype_name Int8 = ''int8_t''"
| "dtype_name Int16 = ''int16_t''"
| "dtype_name Int32 = ''int32_t''"
| "dtype_name Int64 = ''int64_t''"
| "dtype_name UInt8 = ''uint8_t''"
| "dtype_name UInt16 = ''uint16_t''"
| "dtype_name UInt32 = ''uint32_t''"
| "dtype_name UInt64 = ''uint64_t''"
| "dtype_name Float32 = ''float''"
| "dtype_name Float64 = ''double''"
| "dtype_name Float16 = ''float16''"
| "dtype_name (OtherType n) = ''wat''"

fun size_of :: "dtype \<Rightarrow> nat" where
  "size_of Int8 = 1"
| "size_of Int16 = 2"
| "size_of Int32 = 4"
| "size_of Int64 = 8"
| "size_of UInt8 = 1"
| "size_of UInt16 = 2"
| "size_of UInt32 = 4"
| "size_of UInt64 = 8"
| "size_of Float32 = 4"
| "size_of Float64 = 8"
| "size_of Float16 = 2"
| "size_of (OtherType n) = n"

definition type_name_from_code :: "int \<Rightarrow> string" where
  "type_name_from_code c =
     (if c = 0 then ''int8_t'' else if c = 1 then ''int16_t'' else if c = 2 then ''int32_t''
      else if c = 3 then ''int64_t'' else if c = 4 then ''uint8_t'' else if c = 5 then ''uint16_t''
      else if c = 6 then ''uint32_t'' else if c = 7 then ''uint64_t'' else if c = 10 then ''float''
      else if c = 11 then ''double'' else if c = 14 then ''float16'' else ''wat'')"

definition type_names_to_codes :: "string \<Rightarrow> int option" where
  "type_names_to_codes =
     [''int8_t'' \<mapsto> 0, ''int16_t'' \<mapsto> 1, ''int32_t'' \<mapsto> 2, ''int64_t'' \<mapsto> 3,
      ''uint8_t'' \<mapsto> 4, ''uint16_t'' \<mapsto> 5, ''uint32_t'' \<mapsto> 6, ''uint64_t'' \<mapsto> 7,
      ''float'' \<mapsto> 10, ''double'' \<mapsto> 11, ''float16'' \<mapsto> 14, ''wat'' \<mapsto> - 1]"

text \<open>\<open>operator[]\<close> enters an unknown name into the map, with the code 0.\<close>

definition type_code_from_name :: "string \<Rightarrow> (string \<Rightarrow> int option) \<Rightarrow> int \<times> (string \<Rightarrow> int option)" where
  "type_code_from_name name codes =
     (case codes name of Some c \<Rightarrow> (c, codes) | None \<Rightarrow> (0, codes(name \<mapsto> 0)))"

text \<open>A type of elements, and how its values lie in memory.\<close>

record 'a element =
  dtype_of :: dtype
  elem_bytes :: "'a \<Rightarrow> byte list"
  elem_value :: "byte list \<Rightarrow> 'a"

definition bytes_of :: "'a element \<Rightarrow> 'a list \<Rightarrow> byte list" where
  "bytes_of e xs = concat (map (elem_bytes e) xs)"

definition elements_of :: "'a element \<Rightarrow> byte list \<Rightarrow> 'a list" where
  "elements_of e bs =
     (let s = size_of (dtype_of e) in map (\<lambda>i. elem_value e (take s (drop (s * i) bs))) [0..<length bs div s])"

locale element_type = fixed_codec "size_of (dtype_of e)" "elem_bytes e" "elem_value e" for e :: "'a element" +
  assumes size_pos: "0 < size_of (dtype_of e)"
begin

lemma length_bytes_of: "length (bytes_of e xs) = size_of (dtype_of e) * length xs"
  by (induction xs) (simp_all add: bytes_of_def length_enc)

lemma drop_bytes_of: "drop (size_of (dtype_of e) * i) (bytes_of e xs) = bytes_of e (drop i xs)"
proof (induction i arbitrary: xs)
  case (Suc i)
  then show ?case
    by (cases xs) (simp_all add: bytes_of_def length_enc)
qed simp

lemma elements_bytes: "elements_of e (bytes_of e xs) = xs"
proof (rule nth_equalityI)
  show "length (elements_of e (bytes_of e xs)) = length xs"
    using size_pos by (simp add: elements_of_def length_bytes_of Let_def)
  show "elements_of e (bytes_of e xs) ! i = xs ! i" if "i < length (elements_of e (bytes_of e xs))" for i
  proof -
    have "i < length xs"
      using that size_pos by (simp add: elements_of_def length_bytes_of Let_def)
    then have "bytes_of e (drop i xs) = elem_bytes e (xs ! i) @ bytes_of e (drop (Suc i) xs)"
      by (simp add: bytes_of_def flip: Cons_nth_drop_Suc)
    with \<open>i < length xs\<close> size_pos show ?thesis
      by (simp add: elements_of_def length_bytes_of Let_def drop_bytes_of length_enc dec_enc)
  qed
qed

end

definition uint8_element :: "byte element" where
  "uint8_element = \<lparr>dtype_of = UInt8, elem_bytes = (\<lambda>b. [b]), elem_value = hd\<rparr>"

definition uint32_element :: "u32 element" where
  "uint32_element = \<lparr>dtype_of = UInt32, elem_bytes = u32_bytes, elem_value = u32_value\<rparr>"

definition uint64_element :: "u64 element" where
  "uint64_element = \<lparr>dtype_of = UInt64, elem_bytes = u64_bytes, elem_value = u64_value\<rparr>"

definition int64_element :: "u64 element" where
  "int64_element = \<lparr>dtype_of = Int64, elem_bytes = u64_bytes, elem_value = u64_value\<rparr>"

interpretation uint8: element_type uint8_element
  by unfold_locales (simp_all add: uint8_element_def)

interpretation uint32: element_type uint32_element
  by unfold_locales (simp_all add: uint32_element_def)

interpretation uint64: element_type uint64_element
  by unfold_locales (simp_all add: uint64_element_def)

interpretation int64: element_type int64_element
  by unfold_locales (simp_all add: int64_element_def)

end
