(* ===== verification/Tensor_Serialization.thy ===== *)
theory Tensor_Serialization
  imports Tensor_Format
begin

text \<open>
  Writing tensors and matrices into a FlexBuffers map and reading them from one, with all checks that
  the readers make (\<open>flex_tensor_format.cpp\<close>, \<open>flex_xtensor.h\<close>, \<open>flex_eigen.h\<close>). Readers
  return the error they throw or the value.
\<close>

section \<open>Looking at a reference\<close>

fun is_null :: "flex \<Rightarrow> bool" where
  "is_null FNull = True"
| "is_null v = False"

fun is_blob :: "flex \<Rightarrow> bool" where
  "is_blob (FBlob b) = True"
| "is_blob v = False"

fun is_int :: "flex \<Rightarrow> bool" where
  "is_int (FInt i) = True"
| "is_int (FIndirectInt i) = True"
| "is_int v = False"

fun is_vector :: "flex \<Rightarrow> bool" where
  "is_vector (FVector w xs) = True"
| "is_vector (FMap kvs) = True"
| "is_vector v = False"

fun is_typed_vector :: "flex \<Rightarrow> bool" where
  "is_typed_vector (FVecInt xs) = True"
| "is_typed_vector (FVecUInt xs) = True"
| "is_typed_vector (FVecFloat xs) = True"
| "is_typed_vector (FVecBool xs) = True"
| "is_typed_vector (FVecKey xs) = True"
| "is_typed_vector (FVecStringDeprecated xs) = True"
| "is_typed_vector v = False"

fun as_typed_vector :: "flexlib \<Rightarrow> flex \<Rightarrow> flex list" where
  "as_typed_vector L (FVecInt xs) = map FInt xs"
| "as_typed_vector L (FVecUInt xs) = map FUInt xs"
| "as_typed_vector L (FVecFloat xs) = map FFloat xs"
| "as_typed_vector L (FVecBool xs) = map FBool xs"
| "as_typed_vector L (FVecKey xs) = map FKey xs"
| "as_typed_vector L (FVecStringDeprecated xs) = map FString xs"
| "as_typed_vector L v = fl_typed L v"

definition is_tensor :: "flexlib \<Rightarrow> flex \<Rightarrow> bool" where
  "is_tensor L r \<longleftrightarrow>
     is_map r \<and> is_blob (map_at (as_map L r) ''data'') \<and> is_int (map_at (as_map L r) ''dtype'') \<and>
     (is_vector (map_at (as_map L r) ''shape'') \<or> is_typed_vector (map_at (as_map L r) ''shape''))"

definition as_int8 :: "flexlib \<Rightarrow> flex \<Rightarrow> int" where
  "as_int8 L v = sint (ucast (as_int64 L v) :: 8 word)"

definition tensor_type_code :: "flexlib \<Rightarrow> flex \<Rightarrow> int" where
  "tensor_type_code L r =
     (if is_map r \<and> is_int (map_at (as_map L r) ''dtype'') then as_int8 L (map_at (as_map L r) ''dtype'') else - 1)"

definition tensor_type_name :: "flexlib \<Rightarrow> flex \<Rightarrow> string" where
  "tensor_type_name L r = type_name_from_code (tensor_type_code L r)"

definition tensor_rank :: "flexlib \<Rightarrow> flex \<Rightarrow> int" where
  "tensor_rank L r =
     (if \<not> is_map r then - 1
      else let s = map_at (as_map L r) ''shape'' in
        if is_vector s then int (length (as_vector L s))
        else if is_typed_vector s then int (length (as_typed_vector L s)) else - 1)"

definition tensor_shape :: "flexlib \<Rightarrow> flex \<Rightarrow> u64 list" where
  "tensor_shape L r =
     (if \<not> is_map r \<or> \<not> (is_vector (map_at (as_map L r) ''shape'') \<or> is_typed_vector (map_at (as_map L r) ''shape''))
      then []
      else map (as_uint64 L) (as_typed_vector L (map_at (as_map L r) ''shape'')))"

text \<open>An array that is read as another kind of vector gives an empty typed vector.\<close>

definition typed_laws :: "flexlib \<Rightarrow> bool" where
  "typed_laws L \<longleftrightarrow> (\<forall>w xs. fl_typed L (FVector w xs) = [])"

section \<open>Errors\<close>

datatype tensor_error =
    NullTensor string
  | NotTensor string
  | WrongRank string string nat "u64 list"
  | WrongType string string dtype int
  | WrongRows int u64
  | WrongCols int u64
  | Unadaptable
  | Overrun

definition int_str :: "int \<Rightarrow> string" where
  "int_str i = (if i < 0 then ''-'' else []) @ dec_str (nat \<bar>i\<bar>)"

definition vec_to_string :: "u64 list \<Rightarrow> string" where
  "vec_to_string v = ''['' @ join_keys (map (\<lambda>x. dec_str (unat x)) v) @ '']''"

text \<open>The texts of the exceptions; \<open>Unadaptable\<close> is thrown in xtensor and \<open>Overrun\<close> is no exception.\<close>

fun tensor_error_text :: "tensor_error \<Rightarrow> string" where
  "tensor_error_text (NullTensor f) = ''flex_tensor::'' @ f @ '' was handed a null reference''"
| "tensor_error_text (NotTensor f) = ''flex_tensor::'' @ f @ '' was not handed a tensor''"
| "tensor_error_text (WrongRank f kind n shape) =
     f @ '' attempted to deserialize a '' @ kind @ '' of rank '' @ dec_str n @ '', but found a '' @ kind @
     '' of rank '' @ dec_str (length shape) @ '' (read shape as '' @ vec_to_string shape @ '').''"
| "tensor_error_text (WrongType f kind d c) =
     f @ '' attempted to deserialize '' @ kind @ '' of type '' @ dtype_name d @
     '' (type code: '' @ int_str (dtype_index d) @ ''), but found a '' @ kind @ '' of type '' @ type_name_from_code c @
     '' (type code: '' @ int_str c @ '').''"
| "tensor_error_text (WrongRows n k) =
     ''flex_eigen::deserialize_eigen_matrix expected '' @ int_str n @ '' rows, but found '' @ dec_str (unat k) @ ''.''"
| "tensor_error_text (WrongCols n k) =
     ''flex_eigen::deserialize_eigen_matrix expected '' @ int_str n @ '' cols, but found '' @ dec_str (unat k) @ ''.''"
| "tensor_error_text Unadaptable = []"
| "tensor_error_text Overrun = []"

section \<open>Tensors\<close>

record 'a tensor =
  shape :: "u64 list"
  elems :: "'a list"

definition volume :: "u64 list \<Rightarrow> nat" where
  "volume s = prod_list (map unat s)"

definition wf_tensor :: "'a tensor \<Rightarrow> bool" where
  "wf_tensor t \<longleftrightarrow> length (elems t) = volume (shape t)"

text \<open>
  \<open>xt::adapt\<close> on memory and a shape. Theorems assume only that it succeeds on as many elements as the
  shape asks for.
\<close>

type_synonym 'a adapt = "'a list \<Rightarrow> u64 list \<Rightarrow> tensor_error + 'a tensor"

definition adapts :: "'a adapt \<Rightarrow> bool" where
  "adapts adapt \<longleftrightarrow> (\<forall>xs s. length xs = volume s \<longrightarrow> adapt xs s = Inr \<lparr>shape = s, elems = xs\<rparr>)"

definition sample_adapt :: "'a adapt" where
  "sample_adapt xs s = (if length xs = volume s then Inr \<lparr>shape = s, elems = xs\<rparr> else Inl Unadaptable)"

lemma sample_adapts: "adapts sample_adapt"
  by (simp add: adapts_def sample_adapt_def)

section \<open>Writing\<close>

text \<open>
  The map that is written, behind its key unless that is empty. Memory that the builder reserves
  without filling it holds \<open>blank\<close>.
\<close>

definition tensor_map :: "u64 list \<Rightarrow> byte list \<Rightarrow> dtype \<Rightarrow> flex" where
  "tensor_map sh bs d = FMap [(''shape'', FVecUInt sh), (''data'', FBlob bs), (''dtype'', FInt (word_of_int (dtype_index d)))]"

definition keyed :: "string \<Rightarrow> flex \<Rightarrow> string option \<times> flex" where
  "keyed name v = (if name \<noteq> [] then Some name else None, v)"

definition serialize_flex_tensor :: "'a element \<Rightarrow> 'a tensor \<Rightarrow> string \<Rightarrow> string option \<times> flex" where
  "serialize_flex_tensor e t name = keyed name (tensor_map (shape t) (bytes_of e (elems t)) (dtype_of e))"

definition serialize_flex_array :: "'a element \<Rightarrow> 'a tensor \<Rightarrow> string \<Rightarrow> string option \<times> flex" where
  "serialize_flex_array e t name = keyed name (tensor_map (shape t) (bytes_of e (elems t)) (dtype_of e))"

definition shape_bytes :: "'a element \<Rightarrow> u64 list \<Rightarrow> u64" where
  "shape_bytes e sh = foldl (\<lambda>total v. total * v) 1 sh * of_nat (size_of (dtype_of e))"

definition serialize_flex_tensor_shape ::
  "(nat \<Rightarrow> byte list) \<Rightarrow> 'a element \<Rightarrow> u64 list \<Rightarrow> string \<Rightarrow> string option \<times> flex" where
  "serialize_flex_tensor_shape blank e sh name = keyed name (tensor_map sh (blank (unat (shape_bytes e sh))) (dtype_of e))"

definition serialize_flex_array_shape ::
  "(nat \<Rightarrow> byte list) \<Rightarrow> 'a element \<Rightarrow> u64 list \<Rightarrow> string \<Rightarrow> string option \<times> flex" where
  "serialize_flex_array_shape blank e sh name = keyed name (tensor_map sh (blank (unat (shape_bytes e sh))) (dtype_of e))"

text \<open>A matrix has its elements in the order of its storage.\<close>

record 'a eigen_matrix =
  rows :: u64
  cols :: u64
  coeffs :: "'a list"

definition serialize_eigen_matrix :: "'a element \<Rightarrow> 'a eigen_matrix \<Rightarrow> string \<Rightarrow> string option \<times> flex" where
  "serialize_eigen_matrix e mx name =
     keyed name (tensor_map [rows mx, cols mx] (bytes_of e (coeffs mx)) (dtype_of e))"

section \<open>Reading\<close>

definition data_elements :: "flexlib \<Rightarrow> 'a element \<Rightarrow> flex \<Rightarrow> 'a list" where
  "data_elements L e r = elements_of e (as_blob L (map_at (as_map L r) ''data''))"

definition deserialize_flex_array :: "flexlib \<Rightarrow> 'a adapt \<Rightarrow> 'a element \<Rightarrow> flex \<Rightarrow> tensor_error + 'a tensor" where
  "deserialize_flex_array L adapt e r =
     (if is_null r then Inl (NullTensor ''deserialize_flex_array'')
      else if \<not> is_tensor L r then Inl (NotTensor ''deserialize_flex_array'')
      else let vshape = tensor_shape L r; dtype = tensor_type_code L r in
        if dtype \<noteq> dtype_index (dtype_of e)
        then Inl (WrongType ''flex_tensor::deserialize_flex_array'' ''tensor'' (dtype_of e) dtype)
        else adapt (data_elements L e r) vshape)"

definition deserialize_flex_tensor ::
  "flexlib \<Rightarrow> 'a adapt \<Rightarrow> 'a element \<Rightarrow> nat \<Rightarrow> flex \<Rightarrow> tensor_error + 'a tensor" where
  "deserialize_flex_tensor L adapt e NDimensions r =
     (if is_null r then Inl (NullTensor ''deserialize_flex_tensor'')
      else if \<not> is_tensor L r then Inl (NotTensor ''deserialize_flex_tensor'')
      else let vshape = tensor_shape L r in
        if length vshape \<noteq> NDimensions
        then Inl (WrongRank ''flex_tensor::deserialize_flex_tensor'' ''tensor'' NDimensions vshape)
        else let dtype = tensor_type_code L r in
          if dtype \<noteq> dtype_index (dtype_of e)
          then Inl (WrongType ''flex_tensor::deserialize_flex_tensor'' ''tensor'' (dtype_of e) dtype)
          else adapt (data_elements L e r) vshape)"

definition deserialize_flex_tensor_no_dim_check ::
  "flexlib \<Rightarrow> 'a adapt \<Rightarrow> 'a element \<Rightarrow> flex \<Rightarrow> tensor_error + 'a tensor" where
  "deserialize_flex_tensor_no_dim_check L adapt e r =
     (if is_null r then Inl (NullTensor ''deserialize_flex_tensor_no_dim_check'')
      else if \<not> is_tensor L r then Inl (NotTensor ''deserialize_flex_tensor_no_dim_check'')
      else let vshape = tensor_shape L r; dtype = tensor_type_code L r in
        if dtype \<noteq> dtype_index (dtype_of e)
        then Inl (WrongType ''flex_tensor::deserialize_flex_tensor'' ''tensor'' (dtype_of e) dtype)
        else adapt (data_elements L e r) vshape)"

text \<open>
  \<open>None\<close> as a number of rows or columns is \<open>Eigen::Dynamic\<close>. The map over the data does not look at
  how many elements there are.
\<close>

definition deserialize_eigen_matrix ::
  "flexlib \<Rightarrow> 'a element \<Rightarrow> nat option \<Rightarrow> nat option \<Rightarrow> flex \<Rightarrow> tensor_error + 'a eigen_matrix" where
  "deserialize_eigen_matrix L e NRows NCols r =
     (if is_null r then Inl (NullTensor ''deserialize_eigen_matrix'')
      else if \<not> is_tensor L r then Inl (NotTensor ''deserialize_eigen_matrix'')
      else let vshape = tensor_shape L r in
        if length vshape \<noteq> 2 then Inl (WrongRank ''flex_eigen::deserialize_eigen_matrix'' ''matrix'' 2 vshape)
        else if NRows \<noteq> None \<and> NRows \<noteq> Some (unat (vshape ! 0)) then Inl (WrongRows (int (the NRows)) (vshape ! 0))
        else if NCols \<noteq> None \<and> NCols \<noteq> Some (unat (vshape ! 1)) then Inl (WrongCols (int (the NCols)) (vshape ! 1))
        else let dtype = tensor_type_code L r in
          if dtype \<noteq> dtype_index (dtype_of e)
          then Inl (WrongType ''flex_eigen::deserialize_eigen_matrix'' ''matrix'' (dtype_of e) dtype)
          else Inr \<lparr>rows = vshape ! 0, cols = vshape ! 1, coeffs = data_elements L e r\<rparr>)"

definition shape_to_string :: "u64 list \<Rightarrow> string" where
  "shape_to_string sh = ''('' @ join_keys (map (\<lambda>x. dec_str (unat x)) sh) @ '')''"

section \<open>What is written\<close>

lemma as_int8_index: "as_int8 L (FInt (word_of_int (dtype_index d))) = dtype_index d"
proof -
  have "ucast (- 1 :: u64) = (- 1 :: 8 word)"
    by (rule bit_word_eqI) (simp add: bit_ucast_iff)
  then show ?thesis
    by (cases d) (simp_all add: as_int8_def)
qed

lemma written_map [simp]:
  "is_map (tensor_map sh bs d)" "\<not> is_null (tensor_map sh bs d)" "is_tensor L (tensor_map sh bs d)"
  "tensor_rank L (tensor_map sh bs d) = int (length sh)" "tensor_shape L (tensor_map sh bs d) = sh"
  "tensor_type_code L (tensor_map sh bs d) = dtype_index d"
  "data_elements L e (tensor_map sh bs d) = elements_of e bs"
  by (simp_all add: tensor_map_def is_tensor_def tensor_rank_def tensor_shape_def tensor_type_code_def
      as_int8_index data_elements_def comp_def)

lemma type_name_index [simp]: "type_name_from_code (dtype_index d) = dtype_name d"
  by (cases d) (simp_all add: type_name_from_code_def)

lemma foldl_times: "foldl (\<lambda>total v. total * v) a sh = a * (\<Prod>v\<leftarrow>sh. v)" for a :: u64
  by (induction sh arbitrary: a) (simp_all add: mult.assoc)

lemma of_nat_volume: "of_nat (volume sh) = (\<Prod>v\<leftarrow>sh. v :: u64)"
  by (induction sh) (simp_all add: volume_def)

section \<open>Properties\<close>

text \<open>C19: A tensor that was written is recognised, has its rank and the name of its element type, and is read
  back, by the reader that knows the rank and by those that do not; a reader of another rank says so.\<close>

theorem written_tensor_is_read_back:
  assumes "element_type e" and "adapts adapt" and "wf_tensor t"
  shows "let r = snd (serialize_flex_tensor e t name) in
    is_tensor L r \<and> tensor_rank L r = int (length (shape t)) \<and> tensor_type_name L r = dtype_name (dtype_of e) \<and>
    deserialize_flex_tensor L adapt e (length (shape t)) r = Inr t \<and>
    deserialize_flex_array L adapt e r = Inr t \<and> deserialize_flex_tensor_no_dim_check L adapt e r = Inr t \<and>
    (\<forall>n. n = length (shape t) \<or> deserialize_flex_tensor L adapt e n r =
       Inl (WrongRank ''flex_tensor::deserialize_flex_tensor'' ''tensor'' n (shape t)))"
  using assms(2,3) element_type.elements_bytes [OF assms(1)]
  by (simp add: serialize_flex_tensor_def keyed_def deserialize_flex_tensor_def deserialize_flex_array_def
      deserialize_flex_tensor_no_dim_check_def tensor_type_name_def adapts_def wf_tensor_def Let_def)

theorem written_tensor_is_read_back_witness:
  "deserialize_flex_tensor (sample_lib FNull) sample_adapt uint32_element 2
     (snd (serialize_flex_tensor uint32_element \<lparr>shape = [2, 2], elems = [5, 6, 7, 8]\<rparr> ''t'')) =
   Inr \<lparr>shape = [2, 2], elems = [5, 6, 7, 8]\<rparr>"
proof -
  have "wf_tensor \<lparr>shape = [2, 2], elems = [5, 6, 7, 8 :: u32]\<rparr>"
    by (simp add: wf_tensor_def volume_def)
  from written_tensor_is_read_back [OF uint32.element_type_axioms sample_adapts this] show ?thesis
    by (simp add: Let_def numeral_2_eq_2)
qed

text \<open>C39: Every reader of another element type refuses a written tensor or matrix whose rank and dimensions it
  accepts, and names both types. The codes and the names of the supported types belong to each other.\<close>

theorem element_types_are_told_apart:
  assumes "dtype_index (dtype_of e') \<noteq> dtype_index (dtype_of e)"
    and "n \<in> {None, Some (unat (rows mx))}" and "k \<in> {None, Some (unat (cols mx))}"
  shows "let r = snd (serialize_flex_tensor e t name); code = dtype_index (dtype_of e) in
    deserialize_flex_array L adapt e' r =
      Inl (WrongType ''flex_tensor::deserialize_flex_array'' ''tensor'' (dtype_of e') code) \<and>
    deserialize_flex_tensor L adapt e' (length (shape t)) r =
      Inl (WrongType ''flex_tensor::deserialize_flex_tensor'' ''tensor'' (dtype_of e') code) \<and>
    deserialize_flex_tensor_no_dim_check L adapt e' r =
      Inl (WrongType ''flex_tensor::deserialize_flex_tensor'' ''tensor'' (dtype_of e') code) \<and>
    deserialize_eigen_matrix L e' n k (snd (serialize_eigen_matrix e mx name)) =
      Inl (WrongType ''flex_eigen::deserialize_eigen_matrix'' ''matrix'' (dtype_of e') code) \<and>
    fst (type_code_from_name (type_name_from_code (dtype_index d)) type_names_to_codes) = dtype_index d"
proof -
  have "fst (type_code_from_name (dtype_name d) type_names_to_codes) = dtype_index d"
    by (cases d) (simp_all add: type_code_from_name_def type_names_to_codes_def)
  then show ?thesis
    using assms not_sym [OF assms(1)]
    by (auto simp: deserialize_flex_array_def deserialize_flex_tensor_def deserialize_flex_tensor_no_dim_check_def
        deserialize_eigen_matrix_def serialize_flex_tensor_def serialize_eigen_matrix_def keyed_def Let_def)
qed

theorem element_types_are_told_apart_witness:
  "deserialize_flex_tensor (sample_lib FNull) sample_adapt uint8_element 1
      (snd (serialize_flex_tensor uint32_element \<lparr>shape = [1], elems = [5]\<rparr> ''t'')) =
    Inl (WrongType ''flex_tensor::deserialize_flex_tensor'' ''tensor'' UInt8 6) \<and>
   deserialize_eigen_matrix (sample_lib FNull) uint8_element None (Some 2)
      (snd (serialize_eigen_matrix uint32_element \<lparr>rows = 1, cols = 2, coeffs = [5, 6]\<rparr> ''t'')) =
    Inl (WrongType ''flex_eigen::deserialize_eigen_matrix'' ''matrix'' UInt8 6)"
  using element_types_are_told_apart [of uint8_element uint32_element None "\<lparr>rows = 1, cols = 2, coeffs = [5, 6]\<rparr>"
      "Some 2" "\<lparr>shape = [1], elems = [5]\<rparr>" "''t''" "sample_lib FNull" sample_adapt]
  by (simp add: uint8_element_def uint32_element_def Let_def)

text \<open>A name that is not known gets the code of \<open>int8_t\<close>, and is known from then on.\<close>

lemma unknown_type_name: "codes name = None \<Longrightarrow> type_code_from_name name codes = (dtype_index Int8, codes(name \<mapsto> 0))"
  by (simp add: type_code_from_name_def)

text \<open>A tensor with its shape in a vector without a type is recognised as a tensor of the right rank, but its shape is
  read as empty: every reader that knows the rank refuses it.\<close>

theorem untyped_shape_is_lost:
  assumes "typed_laws L" and "r = FMap [(''shape'', FVector w sh), (''data'', FBlob bs), (''dtype'', FInt i)]"
    and "sh \<noteq> []"
  shows "is_tensor L r \<and> tensor_rank L r = int (length sh) \<and> tensor_shape L r = [] \<and>
    deserialize_flex_tensor L adapt e (length sh) r =
      Inl (WrongRank ''flex_tensor::deserialize_flex_tensor'' ''tensor'' (length sh) [])"
  using assms by (simp add: is_tensor_def tensor_rank_def tensor_shape_def typed_laws_def deserialize_flex_tensor_def)

theorem untyped_shape_is_lost_witness:
  "tensor_shape (sample_lib FNull) (FMap [(''shape'', FVector 8 [FUInt 1]), (''data'', FBlob [7]), (''dtype'', FInt 4)]) = []"
proof -
  have "typed_laws (sample_lib FNull)"
    by (simp add: typed_laws_def sample_lib_def)
  from untyped_shape_is_lost [OF this refl, where w = 8 and sh = "[FUInt 1]" and bs = "[7]" and i = 4
      and adapt = sample_adapt and e = uint8_element] show ?thesis
    by simp
qed

text \<open>C40: A matrix that was written is read back by readers of its dimensions, fixed or dynamic. But the
  reader does not compare the dimensions with the size of the data: whatever elements the data hold, too few or too
  many, it gives a matrix of these dimensions over them.\<close>

theorem eigen_matrix_size_is_not_checked:
  assumes "element_type e" and "n \<in> {None, Some (unat (rows mx))}" and "k \<in> {None, Some (unat (cols mx))}"
  shows "deserialize_eigen_matrix L e n k (snd (serialize_eigen_matrix e mx name)) = Inr mx \<and>
    (\<forall>xs. deserialize_eigen_matrix L e n k (tensor_map [rows mx, cols mx] (bytes_of e xs) (dtype_of e)) =
      Inr (mx\<lparr>coeffs := xs\<rparr>))"
  using assms(2,3) element_type.elements_bytes [OF assms(1)]
  by (auto simp: deserialize_eigen_matrix_def serialize_eigen_matrix_def keyed_def Let_def)

theorem eigen_matrix_size_is_not_checked_witness:
  "deserialize_eigen_matrix (sample_lib FNull) uint32_element None (Some 2)
     (tensor_map [2, 2] (bytes_of uint32_element [5]) UInt32) = Inr \<lparr>rows = 2, cols = 2, coeffs = [5]\<rparr>"
  using eigen_matrix_size_is_not_checked [OF uint32.element_type_axioms, of None
      "\<lparr>rows = 2, cols = 2, coeffs = []\<rparr>" "Some 2" "sample_lib FNull" "[]"]
  by (simp add: uint32_element_def)

text \<open>The memory that is reserved for a tensor given by its shape has the size of its elements modulo \<open>2 ^ 64\<close>: the
  product of the dimensions is not checked.\<close>

theorem reserved_size_wraps:
  "unat (shape_bytes e sh) = volume sh * size_of (dtype_of e) mod 2 ^ 64"
proof -
  have "shape_bytes e sh = of_nat (volume sh * size_of (dtype_of e))"
    by (simp add: shape_bytes_def foldl_times of_nat_volume)
  then show ?thesis
    by (simp only: unat_of_nat) simp
qed

end
