(* ===== verification/Tensor_Messages.thy ===== *)
theory Tensor_Messages
  imports Tensor_Serialization
begin

text \<open>
  The messages that carry tensors and matrices (\<open>core_messages.h\<close>), with the operations that
  overwrite the tensor of a message in place. A message is \<open>None\<close> where its key is empty: a value
  is then written into the map without a key, which the builder does not accept.
\<close>

section \<open>Tensor messages\<close>

fun entry :: "string option \<times> flex \<Rightarrow> (string \<times> flex) option" where
  "entry (Some k, v) = Some (k, v)"
| "entry (None, v) = None"

definition tensor_message ::
  "flexlib \<Rightarrow> real \<Rightarrow> 'a element \<Rightarrow> 'a tensor \<Rightarrow> string \<Rightarrow> string \<Rightarrow> message option" where
  "tensor_message L now e t name key =
     map_option (\<lambda>kv. write_map_root L now ''core'' name [kv]) (entry (serialize_flex_tensor e t key))"

text \<open>
  The constructor from a shape passes the name of the message as that of the module, and a null pointer as the name of
  the message. A \<open>std::string\<close> made from a null pointer throws.
\<close>

definition string_of_pointer :: "string option \<Rightarrow> error + string" where
  "string_of_pointer p = (case p of None \<Rightarrow> Inl LogicError | Some s \<Rightarrow> Inr s)"

definition tensor_message_of_shape ::
  "flexlib \<Rightarrow> (nat \<Rightarrow> byte list) \<Rightarrow> real \<Rightarrow> 'a element \<Rightarrow> u64 list \<Rightarrow> string \<Rightarrow> string \<Rightarrow> error + message option" where
  "tensor_message_of_shape L blank now e sh name key =
     (case string_of_pointer None of
        Inl err \<Rightarrow> Inl err
      | Inr s \<Rightarrow> Inr (map_option (\<lambda>kv. write_map_root L now name s [kv])
                  (entry (serialize_flex_tensor_shape blank e sh key))))"

definition tensor_message_value ::
  "flexlib \<Rightarrow> 'a adapt \<Rightarrow> 'a element \<Rightarrow> nat \<Rightarrow> string \<Rightarrow> message \<Rightarrow> tensor_error + 'a tensor" where
  "tensor_message_value L adapt e rank key m = deserialize_flex_tensor L adapt e rank (map_at (root_map L m) key)"

definition tensor_data :: "flexlib \<Rightarrow> string \<Rightarrow> message \<Rightarrow> byte list" where
  "tensor_data L key m = as_blob L (map_at (as_map L (map_at (root_map L m) key)) ''data'')"

text \<open>\<open>f\<close> is applied to the data of the map at a key.\<close>

definition change_data :: "string \<Rightarrow> (flex \<Rightarrow> flex) \<Rightarrow> message \<Rightarrow> message" where
  "change_data key f m =
     (case get_flex_root m of
        FMap kvs \<Rightarrow>
          (case map_of kvs key of
             Some (FMap tvs) \<Rightarrow>
               (case map_of tvs ''data'' of
                  Some v \<Rightarrow> m\<lparr>root := FMap (AList.update key (FMap (AList.update ''data'' (f v) tvs)) kvs)\<rparr>
                | None \<Rightarrow> m)
           | _ \<Rightarrow> m)
      | _ \<Rightarrow> m)"

text \<open>
  \<open>memcpy\<close> of all bytes of the new tensor: its shape is not compared with that of the message. More bytes than there are
  overwrite what lies behind them.
\<close>

definition tensor_message_set_value ::
  "flexlib \<Rightarrow> 'a element \<Rightarrow> 'a tensor \<Rightarrow> string \<Rightarrow> message \<Rightarrow> (tensor_error, message, unit) outcome" where
  "tensor_message_set_value L e x key m =
     (let byte_data = bytes_of e (elems x) in
      if length byte_data > length (tensor_data L key m) then Throws Overrun m
      else Returns () (change_data key (blit_blob L byte_data 0) m))"

text \<open>A lazy expression, here its shape and elements, is evaluated into an adaptor of its own shape.\<close>

definition tensor_message_set_function ::
  "flexlib \<Rightarrow> 'a adapt \<Rightarrow> 'a element \<Rightarrow> 'a tensor \<Rightarrow> string \<Rightarrow> message \<Rightarrow> (tensor_error, message, unit) outcome" where
  "tensor_message_set_function L adapt e f key m =
     (case adapt (elements_of e (tensor_data L key m)) (shape f) of
        Inl err \<Rightarrow> Throws err m
      | Inr z \<Rightarrow> Returns () (change_data key (blit_blob L (bytes_of e (elems f)) 0) m))"

text \<open>\<open>Ptr\<close> of a lazy expression.\<close>

definition tensor_message_of_function ::
  "flexlib \<Rightarrow> (nat \<Rightarrow> byte list) \<Rightarrow> 'a adapt \<Rightarrow> real \<Rightarrow> 'a element \<Rightarrow> 'a tensor \<Rightarrow> string \<Rightarrow> string \<Rightarrow>
   error + (tensor_error, message, unit) outcome option" where
  "tensor_message_of_function L blank adapt now e f name key =
     (case tensor_message_of_shape L blank now e (shape f) name key of
        Inl err \<Rightarrow> Inl err
      | Inr t \<Rightarrow> Inr (map_option (tensor_message_set_function L adapt e f key) t))"

text \<open>\<open>fmt_shape\<close> is how xtensor prints a shape; \<open>None\<close> where printing throws.\<close>

definition tensor_message_to_string ::
  "flexlib \<Rightarrow> 'a adapt \<Rightarrow> (u64 list \<Rightarrow> string) \<Rightarrow> 'a element \<Rightarrow> nat \<Rightarrow> string \<Rightarrow> message \<Rightarrow> string option" where
  "tensor_message_to_string L adapt fmt_shape e rank key m =
     (let dtype = as_int8 L (map_at (as_map L (map_at (root_map L m) key)) ''dtype'') in
      case tensor_message_value L adapt e rank key m of
        Inl err \<Rightarrow> None
      | Inr t \<Rightarrow>
          (case message_to_string L m of
             None \<Rightarrow> None
           | Some base \<Rightarrow>
               Some (''<TensorMessage key:'' @ key @ '' shape:'' @ fmt_shape (shape t) @ '' dtype:'' @
                     type_name_from_code dtype @ '' '' @ base @ ''>'')))"

section \<open>Matrix messages\<close>

definition eigen_message ::
  "flexlib \<Rightarrow> real \<Rightarrow> 'a element \<Rightarrow> 'a eigen_matrix \<Rightarrow> string \<Rightarrow> string \<Rightarrow> message option" where
  "eigen_message L now e mx name key =
     map_option (\<lambda>kv. write_map_root L now ''core'' name [kv]) (entry (serialize_eigen_matrix e mx key))"

definition eigen_message_value ::
  "flexlib \<Rightarrow> 'a element \<Rightarrow> nat option \<Rightarrow> nat option \<Rightarrow> string \<Rightarrow> message \<Rightarrow> tensor_error + 'a eigen_matrix" where
  "eigen_message_value L e NRows NCols key m = deserialize_eigen_matrix L e NRows NCols (root_val L m key)"

text \<open>A dynamic number of rows or columns is printed as \<open>-1\<close>.\<close>

definition eigen_message_to_string ::
  "flexlib \<Rightarrow> nat option \<Rightarrow> nat option \<Rightarrow> string \<Rightarrow> message \<Rightarrow> string option" where
  "eigen_message_to_string L NRows NCols key m =
     (let dtype = as_int8 L (map_at (as_map L (map_at (root_map L m) key)) ''dtype'');
          dim = (\<lambda>n. case n of None \<Rightarrow> ''-1'' | Some k \<Rightarrow> dec_str k)
      in map_option (\<lambda>base.
           ''<EigenMessage key:'' @ key @ '' shape: ()'' @ dim NRows @ '', '' @ dim NCols @ '')'' @ '' dtype:'' @
           type_name_from_code dtype @ '' '' @ base @ ''>'') (message_to_string L m))"

section \<open>Tensor buffer messages\<close>

definition tensor_buffer_message ::
  "flexlib \<Rightarrow> real \<Rightarrow> 'a element \<Rightarrow> 'a tensor \<Rightarrow> u64 \<Rightarrow> string \<Rightarrow> string \<Rightarrow> message option" where
  "tensor_buffer_message L now e t n buffer_key count_key =
     map_option (\<lambda>kv. write_map_root L now ''core'' ''TensorBuffer'' [(count_key, FUInt n), kv])
       (entry (serialize_flex_array e t buffer_key))"

definition tensor_buffer_message_buffer ::
  "flexlib \<Rightarrow> 'a adapt \<Rightarrow> 'a element \<Rightarrow> string \<Rightarrow> message \<Rightarrow> tensor_error + 'a tensor" where
  "tensor_buffer_message_buffer L adapt e buffer_key m =
     deserialize_flex_array L adapt e (map_at (root_map L m) buffer_key)"

definition tensor_buffer_message_count :: "flexlib \<Rightarrow> string \<Rightarrow> message \<Rightarrow> u64" where
  "tensor_buffer_message_count L count_key m = as_uint64 L (map_at (root_map L m) count_key)"

section \<open>Overwriting in place\<close>

lemma root_map_payload:
  assumes "has_data L (FMap ((''_meta'', fresh_meta L now (- 1) md nm) # payload))" and "k \<noteq> ''_meta''"
  shows "map_at (root_map L (write_map_root L now md nm payload)) k = map_at payload k"
  using root_val_payload [OF assms] by (simp add: root_val_def)

lemma map_at_update: "map_at (AList.update k v kvs) k' = (if k' = k then v else map_at kvs k')"
  by (simp add: map_at_def map_of_update_assoc)

text \<open>A message with a tensor map at a key, and the same message with other bytes in it.\<close>

lemma change_data_eq:
  assumes "map_at (root_map L m) key = tensor_map sh bs d" and "is_map (get_flex_root m)"
  shows "map_at (root_map L (change_data key f m)) k =
      (if k = key then (case f (FBlob bs) of v \<Rightarrow>
         FMap [(''shape'', FVecUInt sh), (''data'', v), (''dtype'', FInt (word_of_int (dtype_index d)))])
       else map_at (root_map L m) k)"
    and "header (change_data key f m) = header m" and "data_len (change_data key f m) = data_len m"
proof -
  obtain kvs where kvs: "get_flex_root m = FMap kvs"
    using assms(2) by (cases "get_flex_root m") auto
  then have "map_of kvs key = Some (tensor_map sh bs d)"
    using assms(1) by (auto simp: root_map_def map_at_def tensor_map_def split: option.splits)
  moreover have "message_data_size m \<noteq> 0"
    using kvs by (auto simp: get_flex_root_def split: if_splits)
  ultimately have c: "change_data key f m = m\<lparr>root := FMap (AList.update key (FMap [(''shape'', FVecUInt sh),
      (''data'', f (FBlob bs)), (''dtype'', FInt (word_of_int (dtype_index d)))]) kvs)\<rparr>" and d: "message_data_size m \<noteq> 0"
    using kvs by (simp_all add: change_data_def tensor_map_def)
  from kvs d show "map_at (root_map L (change_data key f m)) k =
      (if k = key then (case f (FBlob bs) of v \<Rightarrow>
         FMap [(''shape'', FVecUInt sh), (''data'', v), (''dtype'', FInt (word_of_int (dtype_index d)))])
       else map_at (root_map L m) k)"
    unfolding c root_map_def by (simp add: get_flex_root_def map_at_update)
  show "header (change_data key f m) = header m" "data_len (change_data key f m) = data_len m"
    by (simp_all add: c)
qed

lemma change_data_blob:
  assumes "map_at (root_map L m) key = tensor_map sh bs d" and "is_map (get_flex_root m)"
  shows "map_at (root_map L (change_data key (blit_blob L bs' w) m)) key =
    tensor_map sh (bs' @ drop (length bs') bs) d"
  unfolding change_data_eq(1) [OF assms] by (simp add: tensor_map_def)

lemma tensor_message_map:
  assumes "has_data L (FMap [(''_meta'', fresh_meta L now (- 1) ''core'' name), (key, tensor_map (shape t) (bytes_of e (elems t)) (dtype_of e))])"
    and "key \<noteq> []" and "key \<noteq> ''_meta''"
  shows "\<exists>m. tensor_message L now e t name key = Some m \<and>
    map_at (root_map L m) key = tensor_map (shape t) (bytes_of e (elems t)) (dtype_of e) \<and> is_map (get_flex_root m)"
proof -
  let ?m = "write_map_root L now ''core'' name [(key, tensor_map (shape t) (bytes_of e (elems t)) (dtype_of e))]"
  have at: "map_at (root_map L ?m) key = tensor_map (shape t) (bytes_of e (elems t)) (dtype_of e)"
    using root_map_payload [OF assms(1,3)] by simp
  have "message_data_size ?m \<noteq> 0"
    using assms(1) unfolding write_map_root_def data_size_finish
    by (auto simp: has_data_def word_of_nat_eq_0_iff dvd_def)
  then have "is_map (get_flex_root ?m)"
    by (simp add: get_flex_root_def write_map_root_def)
  with at show ?thesis
    using assms(2) by (simp add: tensor_message_def serialize_flex_tensor_def keyed_def)
qed

lemma tensor_value_map:
  assumes "element_type e" and "adapts adapt" and "wf_tensor t" and "length xs = length (elems t)"
    and "map_at (root_map L m) key = tensor_map (shape t) (bytes_of e xs) (dtype_of e)"
  shows "tensor_message_value L adapt e (length (shape t)) key m = Inr (t\<lparr>elems := xs\<rparr>)"
  using assms(2-5) element_type.elements_bytes [OF assms(1)]
  by (simp add: tensor_message_value_def deserialize_flex_tensor_def adapts_def wf_tensor_def Let_def)

lemma tensor_data_map: "map_at (root_map L m) key = tensor_map sh bs d \<Longrightarrow> tensor_data L key m = bs"
  by (simp add: tensor_data_def tensor_map_def)

section \<open>Properties\<close>

text \<open>C20: A tensor message gives back its tensor. Overwriting it in place with a tensor of as many elements
  gives back the new elements in the old shape, and leaves the header, the size and every other entry alone;
  the shapes are not compared, and a tensor with more elements is written past the end of the data.\<close>

theorem tensor_message_is_overwritten:
  assumes "element_type e" and "adapts adapt" and "wf_tensor t" and "key \<noteq> []" and "key \<noteq> ''_meta''"
    and "has_data L (FMap [(''_meta'', fresh_meta L now (- 1) ''core'' name),
           (key, tensor_map (shape t) (bytes_of e (elems t)) (dtype_of e))])"
  shows "\<exists>m. tensor_message L now e t name key = Some m \<and>
    tensor_message_value L adapt e (length (shape t)) key m = Inr t \<and>
    (if length (elems x) = length (elems t)
     then \<exists>m'. tensor_message_set_value L e x key m = Returns () m' \<and>
       tensor_message_value L adapt e (length (shape t)) key m' = Inr (t\<lparr>elems := elems x\<rparr>) \<and>
       header m' = header m \<and> message_raw_size m' = message_raw_size m \<and>
       (\<forall>k. k = key \<or> root_val L m' k = root_val L m k)
     else length (elems x) < length (elems t) \<or> tensor_message_set_value L e x key m = Throws Overrun m)"
proof -
  let ?v = "\<lambda>xs. tensor_map (shape t) (bytes_of e xs) (dtype_of e)"
  obtain m where m: "tensor_message L now e t name key = Some m"
      "map_at (root_map L m) key = ?v (elems t)" "is_map (get_flex_root m)"
    using tensor_message_map [OF assms(6,4,5)] by blast
  have read_back: "tensor_message_value L adapt e (length (shape t)) key m' = Inr (t\<lparr>elems := xs\<rparr>)"
    if "map_at (root_map L m') key = ?v xs" "length xs = length (elems t)" for m' xs
    by (rule tensor_value_map [OF assms(1-3) that(2,1)])
  note len = element_type.length_bytes_of [OF assms(1)] and pos = element_type.size_pos [OF assms(1)]
  note changed = change_data_eq [OF m(2,3)]
  show ?thesis
  proof (cases "length (elems x) = length (elems t)")
    case True
    let ?m' = "change_data key (blit_blob L (bytes_of e (elems x)) 0) m"
    have "tensor_message_set_value L e x key m = Returns () ?m'"
      using True by (simp add: tensor_message_set_value_def tensor_data_map [OF m(2)] len)
    moreover have "map_at (root_map L ?m') key = ?v (elems x)"
      using True by (simp add: change_data_blob [OF m(2,3)] len)
    moreover have "k = key \<or> root_val L ?m' k = root_val L m k" for k
      by (simp add: changed(1) root_val_def)
    ultimately show ?thesis
      using m(1) True read_back [OF m(2)] read_back changed(2,3) by (simp add: message_raw_size_def)
  next
    case False
    then show ?thesis
      using m(1) read_back [OF m(2)] pos
      by (auto simp: tensor_message_set_value_def tensor_data_map [OF m(2)] len)
  qed
qed

theorem tensor_message_is_overwritten_witness:
  "\<exists>m m'. tensor_message (sample_lib FNull) 0 uint32_element \<lparr>shape = [2], elems = [5, 6]\<rparr> ''x'' ''t'' = Some m \<and>
     tensor_message_set_value (sample_lib FNull) uint32_element \<lparr>shape = [1, 2], elems = [7, 8]\<rparr> ''t'' m = Returns () m' \<and>
     tensor_message_value (sample_lib FNull) sample_adapt uint32_element 1 ''t'' m' = Inr \<lparr>shape = [2], elems = [7, 8]\<rparr>"
proof -
  have "wf_tensor \<lparr>shape = [2], elems = [5, 6 :: u32]\<rparr>"
    by (simp add: wf_tensor_def volume_def)
  moreover have "has_data (sample_lib FNull) v" for v
    by (simp add: has_data_def sample_lib_def)
  ultimately show ?thesis
    using tensor_message_is_overwritten [OF uint32.element_type_axioms sample_adapts, of "\<lparr>shape = [2], elems = [5, 6]\<rparr>"
        "''t''" "sample_lib FNull" 0 "''x''" "\<lparr>shape = [1, 2], elems = [7, 8]\<rparr>"]
    by auto
qed

text \<open>No tensor message can be made from a shape, and so none from a lazy expression: the constructor throws.\<close>

theorem tensor_message_of_shape_throws:
  "tensor_message_of_shape L blank now e sh name key = Inl LogicError \<and>
   tensor_message_of_function L blank adapt now e f name key = Inl LogicError"
  by (simp add: tensor_message_of_shape_def tensor_message_of_function_def string_of_pointer_def)

end
