(* ===== verification/Tensor_Buffer.thy ===== *)
theory Tensor_Buffer
  imports Tensor_Messages
begin

text \<open>
  The buffers that new tensors are shifted into from the right (\<open>tensor_buffer.h\<close>): \<open>shift_left_add\<close>,
  \<open>chop\<close> and the node \<open>TensorRightBuffer\<close>. The views of xtensor are slices of the rows along the last
  axis, in row-major order. An assignment between views of different shapes is \<open>None\<close>; what xtensor
  does with it (it may broadcast) is not modelled.
\<close>

section \<open>Views along the last axis\<close>

definition row_width :: "'a tensor \<Rightarrow> nat" where
  "row_width t = unat (last (shape t))"

definition rows_of :: "'a tensor \<Rightarrow> 'a list list" where
  "rows_of t = map (\<lambda>i. take (row_width t) (drop (row_width t * i) (elems t))) [0..<volume (butlast (shape t))]"

text \<open>\<open>range(_, i)\<close> and \<open>range(i, _)\<close>: a negative index counts from the end.\<close>

definition range_index :: "int \<Rightarrow> 'a list \<Rightarrow> nat" where
  "range_index i row = nat (if i < 0 then int (length row) + i else i)"

definition range_to :: "int \<Rightarrow> 'a list \<Rightarrow> 'a list" where
  "range_to i row = take (range_index i row) row"

definition range_from :: "int \<Rightarrow> 'a list \<Rightarrow> 'a list" where
  "range_from i row = drop (range_index i row) row"

text \<open>One row of the buffer, and the row of the new tensor for it.\<close>

definition shift_row :: "int \<Rightarrow> 'a list \<Rightarrow> 'a list \<Rightarrow> 'a list option" where
  "shift_row last_t_size row new_row =
     (let start_slice = range_to (- last_t_size) row; assign_slice = range_from last_t_size row in
      if length start_slice \<noteq> length assign_slice then None
      else let row = assign_slice @ drop (length start_slice) row; end_slice = range_from (- last_t_size) row in
        if length end_slice \<noteq> length new_row then None
        else Some (take (length row - length end_slice) row @ new_row))"

definition shift_left_add :: "'a tensor \<Rightarrow> 'a tensor \<Rightarrow> 'a tensor option" where
  "shift_left_add buffer new_tensor =
     (if shape new_tensor = [] \<or> shape buffer = [] \<or> butlast (shape new_tensor) \<noteq> butlast (shape buffer) then None
      else let last_t_size = sint (ucast (last (shape new_tensor)) :: u32) in
        map_option (\<lambda>rs. buffer\<lparr>elems := concat rs\<rparr>)
          (those (map2 (shift_row last_t_size) (rows_of buffer) (rows_of new_tensor))))"

definition chop :: "'a tensor \<Rightarrow> nat \<Rightarrow> 'a \<Rightarrow> 'a tensor" where
  "chop buffer len v =
     (if shape buffer = [] then buffer
      else buffer\<lparr>elems := concat (map (\<lambda>row. replicate (min len (length row)) v @ drop len row) (rows_of buffer))\<rparr>)"

section \<open>The node\<close>

record 'a tensor_right_buffer =
  tensor_key_in :: string
  tensor_key_out :: string
  count_key_out :: string
  buf :: "'a tensor"
  seen :: u64

text \<open>The elements of a new buffer are not initialised.\<close>

definition new_tensor_right_buffer ::
  "(nat \<Rightarrow> 'a list) \<Rightarrow> u64 list \<Rightarrow> string \<Rightarrow> string \<Rightarrow> string \<Rightarrow> 'a tensor_right_buffer" where
  "new_tensor_right_buffer junk sh key_in key_out count_key =
     \<lparr>tensor_key_in = key_in, tensor_key_out = key_out, count_key_out = count_key,
      buf = \<lparr>shape = sh, elems = junk (volume sh)\<rparr>, seen = 0\<rparr>"

definition buffer_add :: "'a tensor \<Rightarrow> 'a tensor_right_buffer \<Rightarrow> 'a tensor_right_buffer option" where
  "buffer_add t self = map_option (\<lambda>b. self\<lparr>buf := b\<rparr>) (shift_left_add (buf self) t)"

definition buffer_chop :: "nat \<Rightarrow> 'a \<Rightarrow> 'a tensor_right_buffer \<Rightarrow> 'a tensor_right_buffer" where
  "buffer_chop len v self = self\<lparr>buf := chop (buf self) len v\<rparr>"

text \<open>
  \<open>receive\<close> up to the signal: the message that is then signalled. The count has changed when the
  addition fails. \<open>back()\<close> of an empty shape reads outside it.
\<close>

definition tensor_buffer_receive ::
  "flexlib \<Rightarrow> 'a adapt \<Rightarrow> real \<Rightarrow> 'a element \<Rightarrow> message \<Rightarrow> 'a tensor_right_buffer \<Rightarrow>
   (tensor_error, 'a tensor_right_buffer, message) outcome" where
  "tensor_buffer_receive L adapt now e m self =
     (case deserialize_flex_array L adapt e (root_val L m (tensor_key_in self)) of
        Inl err \<Rightarrow> Throws err self
      | Inr t \<Rightarrow>
          if shape t = [] then Throws Overrun self
          else let self = self\<lparr>seen := seen self + last (shape t)\<rparr> in
            case buffer_add t self of
              None \<Rightarrow> Throws Unadaptable self
            | Some self \<Rightarrow>
                (case tensor_buffer_message L now e (buf self) (seen self) (tensor_key_out self) (count_key_out self) of
                   None \<Rightarrow> Throws Unadaptable self
                 | Some msg \<Rightarrow> Returns msg self))"

definition tensor_right_buffer_to_string :: "(u64 list \<Rightarrow> string) \<Rightarrow> string \<Rightarrow> 'a tensor_right_buffer \<Rightarrow> string" where
  "tensor_right_buffer_to_string fmt_shape base self =
     ''<TensorRightBuffer ('' @ dec_str (unat (seen self)) @ '') bufshape='' @ fmt_shape (shape (buf self)) @ '' '' @
     base @ ''>''"

section \<open>Rows\<close>

lemma volume_snoc: "volume (sh @ [n]) = volume sh * unat n"
  by (simp add: volume_def)

lemma length_rows [simp]: "length (rows_of t) = volume (butlast (shape t))"
  by (simp add: rows_of_def)

lemma concat_chunks: "concat (map (\<lambda>i. take k (drop (k * i) xs)) [0..<n]) = take (k * n) xs"
proof (induction n)
  case (Suc n)
  have "take (k * Suc n) xs = take (k * n) xs @ take k (drop (k * n) xs)"
    by (metis add.commute mult_Suc_right take_add)
  then show ?case
    using Suc by simp
qed simp

lemma length_wf: "wf_tensor t \<Longrightarrow> shape t \<noteq> [] \<Longrightarrow> length (elems t) = row_width t * volume (butlast (shape t))"
  using volume_snoc [of "butlast (shape t)" "last (shape t)"]
  by (simp add: wf_tensor_def row_width_def mult.commute)

lemma concat_rows: "wf_tensor t \<Longrightarrow> shape t \<noteq> [] \<Longrightarrow> concat (rows_of t) = elems t"
  unfolding rows_of_def concat_chunks by (simp add: length_wf)

lemma wf_row_length:
  assumes "wf_tensor t" and "shape t \<noteq> []" and "row \<in> set (rows_of t)"
  shows "length row = row_width t"
proof -
  obtain i where i: "i < volume (butlast (shape t))" "row = take (row_width t) (drop (row_width t * i) (elems t))"
    using assms(3) by (auto simp: rows_of_def)
  have "length (elems t) = row_width t * volume (butlast (shape t))"
    using assms(1,2) by (rule length_wf)
  moreover have "row_width t * Suc i \<le> row_width t * volume (butlast (shape t))"
    using i(1) by (intro mult_le_mono2) simp
  ultimately show ?thesis
    by (simp add: i(2))
qed

lemma length_concat_const: "\<forall>r \<in> set rs. length r = k \<Longrightarrow> length (concat rs) = length rs * k"
  by (induction rs) simp_all

lemma chunks_concat:
  assumes "\<forall>r \<in> set rs. length r = k"
  shows "map (\<lambda>i. take k (drop (k * i) (concat rs))) [0..<length rs] = rs"
  using assms
proof (induction rs rule: rev_induct)
  case (snoc r rs)
  then have len: "length (concat rs) = k * length rs"
    using length_concat_const [of rs k] by (simp add: mult.commute)
  have "take k (drop (k * i) (concat rs @ r)) = take k (drop (k * i) (concat rs))" if "i < length rs" for i
    using mult_le_mono2 [of "Suc i" "length rs" k] that len by simp
  then have "map (\<lambda>i. take k (drop (k * i) (concat rs @ r))) [0..<length rs] =
      map (\<lambda>i. take k (drop (k * i) (concat rs))) [0..<length rs]"
    by (intro map_cong refl) simp
  also have "\<dots> = rs"
    using snoc by simp
  finally have "map (\<lambda>i. take k (drop (k * i) (concat rs @ r))) [0..<length rs] = rs" .
  then show ?case
    using snoc.prems len by simp
qed simp

lemma rows_of_concat:
  assumes "\<forall>r \<in> set rs. length r = row_width t" and "length rs = volume (butlast (shape t))" and "shape t \<noteq> []"
  shows "rows_of (t\<lparr>elems := concat rs\<rparr>) = rs" and "wf_tensor (t\<lparr>elems := concat rs\<rparr>)"
proof -
  show "rows_of (t\<lparr>elems := concat rs\<rparr>) = rs"
    using chunks_concat [OF assms(1)] assms(2) by (simp add: rows_of_def row_width_def)
  show "wf_tensor (t\<lparr>elems := concat rs\<rparr>)"
    using volume_snoc [of "butlast (shape t)" "last (shape t)"] assms(2,3) length_concat_const [OF assms(1)]
    by (simp add: wf_tensor_def row_width_def del: length_concat)
qed

section \<open>Shifting\<close>

text \<open>The specification: a window on the last \<open>k\<close> entries of everything that ever came.\<close>

definition window :: "nat \<Rightarrow> 'a list \<Rightarrow> 'a list" where
  "window k xs = drop (length xs - k) xs"

lemma window_window: "window k (window k xs @ ys) = window k (xs @ ys)"
  by (cases "length xs \<le> k") (simp_all add: window_def add.commute)

lemma length_window: "k \<le> length xs \<Longrightarrow> length (window k xs) = k"
  by (simp add: window_def)

lemma shift_row_eq:
  assumes "0 < length new" and "length new \<le> length row"
  shows "shift_row (int (length new)) row new = Some (window (length row) (row @ new))"
  using assms by (simp add: shift_row_def range_to_def range_from_def range_index_def window_def Let_def nat_diff_distrib)

lemma those_rows: "(\<And>x. x \<in> set xs \<Longrightarrow> f x = Some (g x)) \<Longrightarrow> those (map f xs) = Some (map g xs)"
  by (induction xs) simp_all

definition fits :: "'a tensor \<Rightarrow> 'a tensor \<Rightarrow> bool" where
  "fits b t \<longleftrightarrow> wf_tensor t \<and> shape t \<noteq> [] \<and> butlast (shape t) = butlast (shape b) \<and>
     0 < row_width t \<and> row_width t \<le> row_width b"

lemma shift_left_add_eq:
  assumes "wf_tensor b" and "shape b \<noteq> []" and "fits b t" and "row_width b < 2 ^ 31"
  shows "\<exists>b'. shift_left_add b t = Some b' \<and> wf_tensor b' \<and> shape b' = shape b \<and>
    rows_of b' = map2 (\<lambda>r x. window (row_width b) (r @ x)) (rows_of b) (rows_of t)"
proof -
  let ?rs = "map2 (\<lambda>r x. window (row_width b) (r @ x)) (rows_of b) (rows_of t)"
  have t: "wf_tensor t" "shape t \<noteq> []" "butlast (shape t) = butlast (shape b)" "0 < row_width t" "row_width t \<le> row_width b"
    using assms(3) by (simp_all add: fits_def)
  have "last (shape t) = word_of_nat (row_width t)" "row_width t < 2 ^ 31"
    using assms(4) t(5) by (simp_all add: row_width_def)
  moreover from this(2) have "take_bit 64 (row_width t) = row_width t"
    by (intro take_bit_nat_eq_self) simp
  ultimately have "sint (ucast (last (shape t)) :: u32) = int (row_width t)"
    by (simp add: unsigned_of_nat signed_of_nat signed_take_bit_int_eq_self)
  moreover have "shift_row (int (row_width t)) r x = Some (window (row_width b) (r @ x))"
    if "(r, x) \<in> set (zip (rows_of b) (rows_of t))" for r x
    using that wf_row_length [OF assms(1,2)] wf_row_length [OF t(1,2)] shift_row_eq [of x r] t(4,5)
    by (metis set_zip_leftD set_zip_rightD)
  moreover from this have "those (map2 (shift_row (int (row_width t))) (rows_of b) (rows_of t)) = Some ?rs"
    by (intro those_rows) auto
  ultimately have "shift_left_add b t = Some (b\<lparr>elems := concat ?rs\<rparr>)"
    using t(2,3) assms(2) by (simp add: shift_left_add_def)
  moreover have "\<forall>r \<in> set ?rs. length r = row_width b"
    using wf_row_length [OF assms(1,2)] by (auto dest!: set_zip_leftD intro!: length_window)
  moreover have "length ?rs = volume (butlast (shape b))"
    using t(3) by simp
  ultimately show ?thesis
    using rows_of_concat [of ?rs b] assms(2) by auto
qed

primrec add_all :: "'a tensor \<Rightarrow> 'a tensor list \<Rightarrow> 'a tensor option" where
  "add_all b [] = Some b"
| "add_all b (t # ts) = Option.bind (shift_left_add b t) (\<lambda>b. add_all b ts)"

lemma fits_shape: "shape b' = shape b \<Longrightarrow> fits b' t = fits b t"
  by (simp add: fits_def row_width_def)

lemma add_all_eq:
  assumes "wf_tensor b" and "shape b \<noteq> []" and "\<forall>t \<in> set ts. fits b t" and "row_width b < 2 ^ 31"
  shows "\<exists>b'. add_all b ts = Some b' \<and> wf_tensor b' \<and> shape b' = shape b \<and>
    (\<forall>i < volume (butlast (shape b)).
       rows_of b' ! i = window (row_width b) (rows_of b ! i @ concat (map (\<lambda>t. rows_of t ! i) ts)))"
  using assms(1-3) assms(4)
proof (induction ts arbitrary: b)
  case Nil
  then show ?case
    using wf_row_length [OF Nil(1,2)] by (auto simp: window_def)
next
  case (Cons t ts)
  obtain c where c: "shift_left_add b t = Some c" "wf_tensor c" "shape c = shape b"
      "rows_of c = map2 (\<lambda>r x. window (row_width b) (r @ x)) (rows_of b) (rows_of t)"
    using shift_left_add_eq [OF Cons.prems(1,2) _ Cons.prems(4)] Cons.prems(3) by auto
  have width: "row_width c = row_width b"
    using c(3) by (simp add: row_width_def)
  have shapes: "shape c \<noteq> []" "\<forall>t \<in> set ts. fits c t" "row_width c < 2 ^ 31"
    using Cons.prems(2-4) c(3) width fits_shape [OF c(3)] by simp_all
  obtain b' where b': "add_all c ts = Some b'" "wf_tensor b'" "shape b' = shape c"
      "\<forall>i < volume (butlast (shape c)).
         rows_of b' ! i = window (row_width c) (rows_of c ! i @ concat (map (\<lambda>t. rows_of t ! i) ts))"
    using Cons.IH [OF c(2) shapes] by blast
  have "volume (butlast (shape t)) = volume (butlast (shape b))"
    using Cons.prems(3) by (simp add: fits_def)
  then have "rows_of b' ! i = window (row_width b) (rows_of b ! i @ concat (map (\<lambda>t. rows_of t ! i) (t # ts)))"
    if "i < volume (butlast (shape b))" for i
    using b'(4) that c(3,4) width window_window [of "row_width b" "rows_of b ! i @ rows_of t ! i"] by simp
  with b' c(1,3) show ?case
    by auto
qed

lemma volume_rows: "fits b t \<Longrightarrow> volume (butlast (shape t)) = volume (butlast (shape b))"
  by (simp add: fits_def)

section \<open>Properties\<close>

text \<open>C17: After any sequence of tensors, each row of the buffer holds the last entries of its first
  contents followed by the rows of the tensors in their order: the buffer implements a window on all that
  ever came. The tensors agree with the buffer in all dimensions but the last, and are not wider than it.\<close>

theorem right_buffer_is_a_window:
  assumes "wf_tensor b" and "shape b \<noteq> []" and "\<forall>t \<in> set ts. fits b t" and "row_width b < 2 ^ 31"
  shows "\<exists>b'. add_all b ts = Some b' \<and> wf_tensor b' \<and> shape b' = shape b \<and>
    (\<forall>i < length (rows_of b).
       rows_of b' ! i = window (row_width b) (rows_of b ! i @ concat (map (\<lambda>t. rows_of t ! i) ts)))"
  using add_all_eq [OF assms] by simp

theorem right_buffer_is_a_window_witness:
  "\<exists>b'. add_all \<lparr>shape = [1, 4], elems = [1, 2, 3, 4 :: nat]\<rparr>
      [\<lparr>shape = [1, 3], elems = [5, 6, 7]\<rparr>, \<lparr>shape = [1, 2], elems = [8, 9]\<rparr>] = Some b' \<and>
    rows_of b' ! 0 = [6, 7, 8, 9]"
proof -
  let ?b = "\<lparr>shape = [1, 4], elems = [1, 2, 3, 4 :: nat]\<rparr>"
  let ?ts = "[\<lparr>shape = [1, 3], elems = [5, 6, 7 :: nat]\<rparr>, \<lparr>shape = [1, 2], elems = [8, 9]\<rparr>]"
  have "wf_tensor ?b" "shape ?b \<noteq> []" "\<forall>t \<in> set ?ts. fits ?b t" "row_width ?b < 2 ^ 31"
    by (simp_all add: wf_tensor_def volume_def fits_def row_width_def)
  from right_buffer_is_a_window [OF this] show ?thesis
    by (auto simp: rows_of_def row_width_def volume_def window_def)
qed

text \<open>C38: The node adds each tensor it receives to its buffer and to its count, and the message it signals has
  the new buffer and the count of all entries so far, if it encodes to less than \<open>2 ^ 32\<close> bytes. A message without the key changes
  neither.\<close>

theorem right_buffer_signals_its_buffer:
  assumes "element_type e" and "adapts adapt" and "wf_tensor (buf self)" and "shape (buf self) \<noteq> []"
    and "row_width (buf self) < 2 ^ 31" and "fits (buf self) t"
    and "tensor_key_out self \<notin> {[], ''_meta'', count_key_out self}" and "count_key_out self \<noteq> ''_meta''"
    and "\<And>b. shift_left_add (buf self) t = Some b \<Longrightarrow> has_data L (core_data L now ''TensorBuffer''
      [(count_key_out self, FUInt (seen self + last (shape t))),
       (tensor_key_out self, tensor_map (shape b) (bytes_of e (elems b)) (dtype_of e))])"
    and "root_val L m (tensor_key_in self) = tensor_map (shape t) (bytes_of e (elems t)) (dtype_of e)"
  shows "\<exists>msg self'. tensor_buffer_receive L adapt now e m self = Returns msg self' \<and>
    shift_left_add (buf self) t = Some (buf self') \<and> seen self' = seen self + last (shape t) \<and>
    tensor_buffer_message_buffer L adapt e (tensor_key_out self) msg = Inr (buf self') \<and>
    tensor_buffer_message_count L (count_key_out self) msg = seen self' \<and>
    (is_null (root_val L m' (tensor_key_in self)) \<longrightarrow>
       tensor_buffer_receive L adapt now e m' self = Throws (NullTensor ''deserialize_flex_array'') self)"
proof -
  note elements = element_type.elements_bytes [OF assms(1)]
  obtain b where b: "shift_left_add (buf self) t = Some b" "wf_tensor b" "shape b = shape (buf self)"
    using shift_left_add_eq [OF assms(3,4,6,5)] by blast
  have read: "deserialize_flex_array L adapt e (tensor_map (shape t) (bytes_of e (elems t)) (dtype_of e)) = Inr t"
    if "wf_tensor t" for t
    using that assms(2) elements by (simp add: deserialize_flex_array_def adapts_def wf_tensor_def Let_def)
  let ?msg = "write_map_root L now ''core'' ''TensorBuffer'' [(count_key_out self, FUInt (seen self + last (shape t))),
      (tensor_key_out self, tensor_map (shape b) (bytes_of e (elems b)) (dtype_of e))]"
  have at: "map_at (root_map L ?msg) (tensor_key_out self) = tensor_map (shape b) (bytes_of e (elems b)) (dtype_of e)"
      "map_at (root_map L ?msg) (count_key_out self) = FUInt (seen self + last (shape t))"
    using root_map_payload [OF assms(9) [OF b(1), unfolded core_data_def]] assms(7,8) by simp_all
  have "tensor_buffer_receive L adapt now e m self =
      Returns ?msg (self\<lparr>seen := seen self + last (shape t), buf := b\<rparr>)"
    using assms(6,7,10) read [of t] b(1)
    by (simp add: tensor_buffer_receive_def fits_def buffer_add_def tensor_buffer_message_def
        serialize_flex_array_def keyed_def Let_def)
  moreover have "is_null (root_val L m' (tensor_key_in self)) \<longrightarrow>
      tensor_buffer_receive L adapt now e m' self = Throws (NullTensor ''deserialize_flex_array'') self"
    by (simp add: tensor_buffer_receive_def deserialize_flex_array_def)
  ultimately show ?thesis
    using b(1) at read [OF b(2)]
    by (auto simp: tensor_buffer_message_buffer_def tensor_buffer_message_count_def)
qed

theorem right_buffer_signals_its_buffer_witness:
  "\<exists>msg self'. tensor_buffer_receive (sample_lib FNull) sample_adapt 0 uint32_element
      (write_map_root (sample_lib FNull) 0 ''core'' ''x'' [(''t'', tensor_map [1] (u32_bytes 7) UInt32)])
      \<lparr>tensor_key_in = ''t'', tensor_key_out = ''buffer'', count_key_out = ''count'',
        buf = \<lparr>shape = [2], elems = [5, 6]\<rparr>, seen = 0\<rparr> = Returns msg self' \<and>
    tensor_buffer_message_count (sample_lib FNull) ''count'' msg = 1"
proof -
  let ?self = "\<lparr>tensor_key_in = ''t'', tensor_key_out = ''buffer'', count_key_out = ''count'',
        buf = \<lparr>shape = [2], elems = [5, 6 :: u32]\<rparr>, seen = 0\<rparr>"
  let ?t = "\<lparr>shape = [1], elems = [7 :: u32]\<rparr>"
  let ?m = "write_map_root (sample_lib FNull) 0 ''core'' ''x'' [(''t'', tensor_map [1] (u32_bytes 7) UInt32)]"
  have data: "has_data (sample_lib FNull) v" for v
    by (simp add: has_data_def sample_lib_def)
  have "wf_tensor (buf ?self)" "shape (buf ?self) \<noteq> []" "row_width (buf ?self) < 2 ^ 31" "fits (buf ?self) ?t"
      "tensor_key_out ?self \<notin> {[], ''_meta'', count_key_out ?self}" "count_key_out ?self \<noteq> ''_meta''"
      "root_val (sample_lib FNull) ?m (tensor_key_in ?self) =
       tensor_map (shape ?t) (bytes_of uint32_element (elems ?t)) (dtype_of uint32_element)"
    using root_val_payload [OF data]
    by (simp_all add: wf_tensor_def volume_def fits_def row_width_def bytes_of_def uint32_element_def)
  from right_buffer_signals_its_buffer [OF uint32.element_type_axioms sample_adapts this(1-6) data this(7)]
  obtain msg self' where "tensor_buffer_receive (sample_lib FNull) sample_adapt 0 uint32_element ?m ?self = Returns msg self'"
      "seen self' = seen ?self + last (shape ?t)" "tensor_buffer_message_count (sample_lib FNull) (count_key_out ?self) msg = seen self'"
    by blast
  then show ?thesis
    by auto
qed

end
