(* ===== verification/Events.thy ===== *)
theory Events
  imports Dispatch "HOL-Library.Sublist"
begin

text \<open>
  Threads that wait for messages: the event of \<open>util/event.h\<close>, the thread of a \<open>Producer\<close>
  (\<open>core_nodes/producer.h\<close>) beside the thread that sends to it, and \<open>take\<close> (\<open>take.h\<close>, \<open>take.cpp\<close>), which
  waits for the first messages of a node. A step of a relation is what a thread does while it holds a mutex.
  A thread that sleeps on a condition variable may wake at any time, as the standard allows, in particular
  when it was notified or when the timeout has passed.
\<close>

section \<open>The event\<close>

text \<open>
  An event is its flag. A wait ends with a value or goes to sleep. Whenever the sleeper wakes, \<open>wait_once\<close>
  returns the flag, and \<open>wait\<close> tests the flag again.
\<close>

datatype 'a waiting = Ended 'a | Sleep

definition new_event :: bool where
  "new_event = False"

definition event_isSet :: "bool \<Rightarrow> bool" where
  "event_isSet e = e"

definition event_set :: "bool \<Rightarrow> bool" where
  "event_set e = True"

definition event_clear :: "bool \<Rightarrow> bool" where
  "event_clear e = False"

definition event_wait :: "bool \<Rightarrow> unit waiting" where
  "event_wait e = (if e then Ended () else Sleep)"

definition event_wait_once :: "bool \<Rightarrow> bool waiting" where
  "event_wait_once e = (if e then Ended True else Sleep)"

definition event_wake_once :: "bool \<Rightarrow> bool" where
  "event_wake_once e = e"

lemmas event_defs [simp] = new_event_def event_isSet_def event_set_def event_clear_def
  event_wait_def event_wait_once_def event_wake_once_def

section \<open>A producer and its sender\<close>

text \<open>
  Where the thread of the producer is in the loop of \<open>child_thread_fn\<close>, and whether a sender is in the middle of
  \<open>receive\<close>, with the mutex of the last message. The lists keep what was received and what was given to
  \<open>produce\<close>.
\<close>

datatype producer_pc = Polling | Waiting | Asleep | Fetching | Clearing "mid option" | Producing "mid option" | Gone

record producer_life =
  pc :: producer_pc
  part :: producer_state
  storing :: bool
  stopping :: bool
  received :: "mid list"
  produced :: "mid option list"

definition new_producer :: "int \<Rightarrow> producer_state" where
  "new_producer timeout = \<lparr>timeout_milliseconds = timeout, last_message = None, has_new_message = new_event\<rparr>"

text \<open>The two halves of \<open>receive\<close>.\<close>

definition store_message :: "mid \<Rightarrow> producer_state \<Rightarrow> producer_state" where
  "store_message m p = p\<lparr>last_message := Some m\<rparr>"

definition announce_message :: "producer_state \<Rightarrow> producer_state" where
  "announce_message p = p\<lparr>has_new_message := event_set (has_new_message p)\<rparr>"

definition get_latest_message :: "producer_state \<Rightarrow> mid option" where
  "get_latest_message p = last_message p"

definition clear_new_message :: "producer_state \<Rightarrow> producer_state" where
  "clear_new_message p = p\<lparr>has_new_message := event_clear (has_new_message p)\<rparr>"

lemma producer_receive_halves:
  "producer_receive self m = (\<lambda>w. Returns () (set_node self (\<lambda>nd.
     set_class (Producer (announce_message (store_message m (producer_part (class_part nd))))) nd) w))"
  by (rule ext) (simp add: producer_receive_def store_message_def announce_message_def)

inductive producer_step :: "producer_life \<Rightarrow> producer_life \<Rightarrow> bool" where
  store: "\<not> storing s \<Longrightarrow>
    producer_step s (s\<lparr>part := store_message m (part s), storing := True, received := received s @ [m]\<rparr>)"
| announce: "storing s \<Longrightarrow> producer_step s (s\<lparr>part := announce_message (part s), storing := False\<rparr>)"
| ask_to_stop: "producer_step s (s\<lparr>stopping := True\<rparr>)"
| poll: "pc s = Polling \<Longrightarrow> producer_step s (s\<lparr>pc := (if stopping s then Gone else Waiting)\<rparr>)"
| wait: "pc s = Waiting \<Longrightarrow>
    producer_step s (s\<lparr>pc := (case event_wait_once (has_new_message (part s)) of
       Ended b \<Rightarrow> if b then Fetching else Polling | Sleep \<Rightarrow> Asleep)\<rparr>)"
| wake: "pc s = Asleep \<Longrightarrow>
    producer_step s (s\<lparr>pc := (if event_wake_once (has_new_message (part s)) then Fetching else Polling)\<rparr>)"
| fetch: "pc s = Fetching \<Longrightarrow> \<not> storing s \<Longrightarrow> producer_step s (s\<lparr>pc := Clearing (get_latest_message (part s))\<rparr>)"
| clear: "pc s = Clearing m \<Longrightarrow> producer_step s (s\<lparr>pc := Producing m, part := clear_new_message (part s)\<rparr>)"
| produce: "pc s = Producing m \<Longrightarrow> producer_step s (s\<lparr>pc := Polling, produced := produced s @ [m]\<rparr>)"

inductive_cases producer_stepE: "producer_step s t"

definition started_producer :: "int \<Rightarrow> producer_life" where
  "started_producer timeout =
     \<lparr>pc = Polling, part = new_producer timeout, storing = False, stopping = False, received = [], produced = []\<rparr>"

text \<open>The messages fetched so far, and whether there is one that will be fetched.\<close>

definition fetched :: "producer_life \<Rightarrow> mid option list" where
  "fetched s = produced s @ (case pc s of Clearing m \<Rightarrow> [m] | Producing m \<Rightarrow> [m] | _ \<Rightarrow> [])"

definition unfetched :: "producer_life \<Rightarrow> bool" where
  "unfetched s \<longleftrightarrow> storing s \<or> pc s = Fetching \<or> has_new_message (part s) \<and> (\<forall>m. pc s \<noteq> Clearing m)"

definition producer_inv :: "producer_life \<Rightarrow> bool" where
  "producer_inv s \<longleftrightarrow>
     last_message (part s) = (if received s = [] then None else Some (last (received s))) \<and>
     (\<exists>old new. received s = old @ new \<and> subseq (fetched s) (map Some old) \<and> (unfetched s \<longrightarrow> new \<noteq> []))"

lemma producer_invI:
  "last_message (part s) = (if received s = [] then None else Some (last (received s))) \<Longrightarrow>
   received s = old @ new \<Longrightarrow> subseq (fetched s) (map Some old) \<Longrightarrow> (unfetched s \<Longrightarrow> new \<noteq> []) \<Longrightarrow> producer_inv s"
  unfolding producer_inv_def by blast

lemmas producer_defs = store_message_def announce_message_def get_latest_message_def clear_new_message_def

lemma producer_inv_mono:
  assumes "producer_inv s" and "received t = received s" and "fetched t = fetched s"
    and "last_message (part t) = last_message (part s)" and "unfetched t \<Longrightarrow> unfetched s"
  shows "producer_inv t"
  using assms unfolding producer_inv_def by metis

lemma producer_inv_step:
  assumes "producer_step s t" and "producer_inv s"
  shows "producer_inv t"
  using assms
proof (induction rule: producer_step.induct)
  case (store s m)
  then obtain old new where "received s = old @ new" "subseq (fetched s) (map Some old)"
    unfolding producer_inv_def by blast
  then show ?case
    by (intro producer_invI [where old = old and new = "new @ [m]"]) (simp_all add: fetched_def producer_defs)
next
  case (fetch s)
  then have "unfetched s"
    by (simp add: unfetched_def)
  with fetch.prems obtain old new where s: "last_message (part s) = Some (last (old @ new))" "received s = old @ new"
      "subseq (fetched s) (map Some old)" "new \<noteq> []"
    unfolding producer_inv_def by (metis append_is_Nil_conv)
  let ?t = "s\<lparr>pc := Clearing (get_latest_message (part s))\<rparr>"
  have "fetched ?t = fetched s @ [Some (last new)]" "\<not> unfetched ?t"
    using fetch.hyps s(1,4) by (simp_all add: fetched_def unfetched_def producer_defs)
  moreover have "subseq [Some (last new)] (map Some new)"
    using s(4) by (simp add: subseq_singleton_left)
  ultimately show ?case
    using s by (intro producer_invI [where old = "old @ new" and new = "[]"]) (simp_all add: list_emb_append_mono)
next
  case (announce s)
  then show ?case
    by (elim producer_inv_mono) (simp_all add: fetched_def unfetched_def producer_defs)
next
  case (ask_to_stop s)
  then show ?case
    by (elim producer_inv_mono) (simp_all add: fetched_def unfetched_def)
next
  case (poll s)
  then show ?case
    by (elim producer_inv_mono) (auto simp: fetched_def unfetched_def split: if_splits)
next
  case (wait s)
  then show ?case
    by (elim producer_inv_mono) (auto simp: fetched_def unfetched_def split: if_splits)
next
  case (wake s)
  then show ?case
    by (elim producer_inv_mono) (auto simp: fetched_def unfetched_def split: if_splits)
next
  case (clear s m)
  then show ?case
    by (elim producer_inv_mono) (auto simp: fetched_def unfetched_def producer_defs)
next
  case (produce s m)
  then show ?case
    by (elim producer_inv_mono) (auto simp: fetched_def unfetched_def)
qed

lemma producer_inv_reachable: "producer_step\<^sup>*\<^sup>* (started_producer timeout) s \<Longrightarrow> producer_inv s"
proof (induction rule: rtranclp_induct)
  case base
  show ?case
    by (rule producer_invI [where old = "[]" and new = "[]"])
      (simp_all add: started_producer_def new_producer_def fetched_def unfetched_def)
qed (rule producer_inv_step)

section \<open>A lost message\<close>

text \<open>Steps in which no new message is received.\<close>

definition no_sender_step :: "producer_life \<Rightarrow> producer_life \<Rightarrow> bool" where
  "no_sender_step s t \<longleftrightarrow> producer_step s t \<and> received t = received s"

definition idle :: "producer_life \<Rightarrow> bool" where
  "idle s \<longleftrightarrow> \<not> storing s \<and> \<not> has_new_message (part s) \<and> pc s \<in> {Polling, Waiting, Asleep, Gone}"

lemma idle_step: "producer_step s t \<Longrightarrow> received t = received s \<Longrightarrow> idle s \<Longrightarrow> idle t \<and> produced t = produced s"
  by (induction rule: producer_step.induct) (auto simp: idle_def)

lemma idle_steps: "no_sender_step\<^sup>*\<^sup>* s t \<Longrightarrow> idle s \<Longrightarrow> produced t = produced s"
proof (induction rule: rtranclp_induct)
  case (step t u)
  have "idle t \<and> produced t = produced s"
    using step(1,4)
    by (induction rule: rtranclp_induct) (auto simp: no_sender_step_def dest: idle_step)
  with step(2) show ?case
    using idle_step [of t u] by (auto simp: no_sender_step_def)
qed simp

text \<open>A producer fetches a message; before it clears the event, the next one arrives.\<close>

definition sample_life :: "int \<Rightarrow> producer_pc \<Rightarrow> mid option \<Rightarrow> bool \<Rightarrow> bool \<Rightarrow> mid list \<Rightarrow> mid option list \<Rightarrow> producer_life" where
  "sample_life timeout p latest flag half ms os =
     \<lparr>pc = p, part = \<lparr>timeout_milliseconds = timeout, last_message = latest, has_new_message = flag\<rparr>,
      storing = half, stopping = False, received = ms, produced = os\<rparr>"

lemma lost_message_reachable:
  "producer_step\<^sup>*\<^sup>* (started_producer timeout) (sample_life timeout Polling (Some m2) False False [m1, m2] [Some m1])"
proof -
  let ?L = "sample_life timeout" and ?reach = "producer_step\<^sup>*\<^sup>* (started_producer timeout)"
  note go = rtranclp.rtrancl_into_rtrancl [of producer_step "started_producer timeout"] and defs = sample_life_def producer_defs
  have "?reach (?L Polling None False False [] [])"
    by (simp add: started_producer_def new_producer_def sample_life_def)
  from go [OF this producer_step.store [of "?L Polling None False False [] []" m1]]
  have "?reach (?L Polling (Some m1) False True [m1] [])" by (simp add: defs)
  from go [OF this producer_step.announce [of "?L Polling (Some m1) False True [m1] []"]]
  have "?reach (?L Polling (Some m1) True False [m1] [])" by (simp add: defs)
  from go [OF this producer_step.poll [of "?L Polling (Some m1) True False [m1] []"]]
  have "?reach (?L Waiting (Some m1) True False [m1] [])" by (simp add: defs)
  from go [OF this producer_step.wait [of "?L Waiting (Some m1) True False [m1] []"]]
  have "?reach (?L Fetching (Some m1) True False [m1] [])" by (simp add: defs)
  from go [OF this producer_step.fetch [of "?L Fetching (Some m1) True False [m1] []"]]
  have "?reach (?L (Clearing (Some m1)) (Some m1) True False [m1] [])" by (simp add: defs)
  from go [OF this producer_step.store [of "?L (Clearing (Some m1)) (Some m1) True False [m1] []" m2]]
  have "?reach (?L (Clearing (Some m1)) (Some m2) True True [m1, m2] [])" by (simp add: defs)
  from go [OF this producer_step.announce [of "?L (Clearing (Some m1)) (Some m2) True True [m1, m2] []"]]
  have "?reach (?L (Clearing (Some m1)) (Some m2) True False [m1, m2] [])" by (simp add: defs)
  from go [OF this producer_step.clear [of "?L (Clearing (Some m1)) (Some m2) True False [m1, m2] []" "Some m1"]]
  have "?reach (?L (Producing (Some m1)) (Some m2) False False [m1, m2] [])" by (simp add: defs)
  from go [OF this producer_step.produce [of "?L (Producing (Some m1)) (Some m2) False False [m1, m2] []" "Some m1"]]
  show ?thesis by (simp add: defs)
qed

section \<open>Taking messages\<close>

text \<open>
  The caller of \<open>take\<close> connects a callback to the node, waits for an event, and disconnects. Signals of the node
  exclude connecting and disconnecting, by the mutex of its observers. The relation also keeps what the
  node has signalled in between.
\<close>

datatype take_pc = Connecting | Awaiting | Sleeping | Disconnecting | Taken

record taking =
  take_pc :: take_pc
  messages :: "mid list"
  enough :: bool
  hooked :: bool
  signalled :: "mid list"

definition take_callback :: "nat \<Rightarrow> mid \<Rightarrow> taking \<Rightarrow> taking" where
  "take_callback n m s =
     (if length (messages s) < n
      then let s = s\<lparr>messages := messages s @ [m]\<rparr>
           in if length (messages s) = n then s\<lparr>enough := event_set (enough s)\<rparr> else s
      else s)"

definition take_begins :: "nat \<Rightarrow> taking" where
  "take_begins n = \<lparr>take_pc = (if n = 0 then Taken else Connecting), messages = [], enough = new_event,
     hooked = False, signalled = []\<rparr>"

inductive take_step :: "nat \<Rightarrow> int \<Rightarrow> taking \<Rightarrow> taking \<Rightarrow> bool" for n timeout where
  signals: "hooked s \<Longrightarrow> take_step n timeout s ((take_callback n m s)\<lparr>signalled := signalled s @ [m]\<rparr>)"
| connects: "take_pc s = Connecting \<Longrightarrow> take_step n timeout s (s\<lparr>take_pc := Awaiting, hooked := True\<rparr>)"
| waits: "take_pc s = Awaiting \<Longrightarrow>
    take_step n timeout s (s\<lparr>take_pc := (case event_wait (enough s) of Ended u \<Rightarrow> Disconnecting | Sleep \<Rightarrow> Sleeping)\<rparr>)"
| wakes: "take_pc s = Sleeping \<Longrightarrow> take_step n timeout s (s\<lparr>take_pc := Awaiting\<rparr>)"
| times_out: "take_pc s = Sleeping \<Longrightarrow> timeout > 0 \<Longrightarrow> take_step n timeout s (s\<lparr>take_pc := Awaiting\<rparr>)"
| disconnects: "take_pc s = Disconnecting \<Longrightarrow> take_step n timeout s (s\<lparr>take_pc := Taken, hooked := False\<rparr>)"

definition take1_result :: "mid list \<Rightarrow> mid option" where
  "take1_result res = (if length res > 0 then Some (res ! 0) else None)"

definition take_inv :: "nat \<Rightarrow> taking \<Rightarrow> bool" where
  "take_inv n s \<longleftrightarrow> messages s = take n (signalled s) \<and>
     (take_pc s = Connecting \<longrightarrow> n > 0 \<and> signalled s = [] \<and> \<not> hooked s) \<and>
     (enough s \<longleftrightarrow> 0 < n \<and> n \<le> length (signalled s)) \<and>
     (take_pc s \<in> {Disconnecting, Taken} \<longrightarrow> n \<le> length (signalled s))"

lemma take_inv_step: "take_step n timeout s t \<Longrightarrow> take_inv n s \<Longrightarrow> take_inv n t"
proof (induction rule: take_step.induct)
  case (signals s m)
  then have "length (messages s) < n \<longleftrightarrow> length (signalled s) < n"
    by (auto simp: take_inv_def)
  with signals show ?case
    by (cases "length (signalled s) < n") (auto simp: take_inv_def take_callback_def Let_def)
qed (auto simp: take_inv_def)

lemma take_inv_reachable: "(take_step n timeout)\<^sup>*\<^sup>* (take_begins n) s \<Longrightarrow> take_inv n s"
proof (induction rule: rtranclp_induct)
  case base
  show ?case
    by (simp add: take_inv_def take_begins_def)
qed (rule take_inv_step)

section \<open>Properties\<close>

text \<open>C10: The thread of a producer gives \<open>produce\<close> each received message at most once, in the order in which they came,
  and never a null pointer, however the two threads interleave. A message may be skipped, and not only when
  the producer is busy: one that arrives between fetching the last message and clearing the event is not produced
  until another one comes, although it is the latest and the producer waits.\<close>

theorem producer_keeps_the_order:
  assumes "producer_step\<^sup>*\<^sup>* (started_producer timeout) s"
  shows "subseq (produced s) (map Some (received s)) \<and>
    (\<exists>t. producer_step\<^sup>*\<^sup>* (started_producer timeout) t \<and> received t = [m1, m2] \<and>
       produced ` {u. no_sender_step\<^sup>*\<^sup>* t u} = {[Some m1]})"
proof -
  obtain old new where old: "received s = old @ new" "subseq (fetched s) (map Some old)"
    using producer_inv_reachable [OF assms] unfolding producer_inv_def by blast
  have "subseq (produced s) (fetched s)"
    unfolding fetched_def by (rule subseq_rev_drop_many) simp
  then have "subseq (produced s) (map Some old)"
    using old(2) by (rule subseq_order.trans)
  then have "subseq (produced s) (map Some (received s))"
    using old(1) by (simp add: subseq_rev_drop_many)
  moreover define t where "t = sample_life timeout Polling (Some m2) False False [m1, m2] [Some m1]"
  have t: "idle t" "received t = [m1, m2]" "produced t = [Some m1]"
    by (simp_all add: t_def sample_life_def idle_def)
  have "produced u = [Some m1]" if "no_sender_step\<^sup>*\<^sup>* t u" for u
    using idle_steps [OF that t(1)] t(3) by simp
  then have "produced ` {u. no_sender_step\<^sup>*\<^sup>* t u} = {[Some m1]}"
    using t(3) by (auto simp: image_iff)
  ultimately show ?thesis
    using lost_message_reachable [of timeout m2 m1] t(2) unfolding t_def by blast
qed

theorem producer_keeps_the_order_witness:
  "subseq [Some 4] (map Some [4 :: mid, 5])"
proof -
  from producer_keeps_the_order [OF lost_message_reachable [of 1000 5 4]] show ?thesis
    by (simp add: sample_life_def)
qed

text \<open>C34: When \<open>take\<close> returns, it returns exactly the first \<open>n\<close> messages that the node signalled while the caller was
  connected, in order: the timeout never ends the wait, so \<open>take1\<close> never returns a null pointer.\<close>

theorem take_returns_first_messages:
  assumes "(take_step n timeout)\<^sup>*\<^sup>* (take_begins n) s" and "take_pc s = Taken"
  shows "messages s = take n (signalled s) \<and> length (messages s) = n \<and> (n = 1 \<longrightarrow> take1_result (messages s) \<noteq> None)"
  using take_inv_reachable [OF assms(1)] assms(2) by (simp add: take_inv_def take1_result_def)

theorem take_returns_first_messages_witness:
  "\<exists>s. (take_step 1 50)\<^sup>*\<^sup>* (take_begins 1) s \<and> take_pc s = Taken \<and> messages s = [7] \<and> take1_result (messages s) = Some 7"
proof -
  let ?s = "\<lambda>p ms e c. \<lparr>take_pc = p, messages = ms, enough = e, hooked = c, signalled = ms\<rparr>"
  note go = rtranclp.rtrancl_into_rtrancl [of "take_step 1 50" "take_begins 1"]
  have "(take_step 1 50)\<^sup>*\<^sup>* (take_begins 1) (?s Connecting [] False False)"
    by (simp add: take_begins_def)
  from go [OF this take_step.connects]
  have "(take_step 1 50)\<^sup>*\<^sup>* (take_begins 1) (?s Awaiting [] False True)"
    by simp
  from go [OF this take_step.waits]
  have "(take_step 1 50)\<^sup>*\<^sup>* (take_begins 1) (?s Sleeping [] False True)"
    by simp
  from go [OF this take_step.times_out]
  have "(take_step 1 50)\<^sup>*\<^sup>* (take_begins 1) (?s Awaiting [] False True)"
    by simp
  from go [OF this take_step.signals [of _ _ _ 7]]
  have "(take_step 1 50)\<^sup>*\<^sup>* (take_begins 1) (?s Awaiting [7] True True)"
    by (simp add: take_callback_def)
  from go [OF this take_step.waits]
  have "(take_step 1 50)\<^sup>*\<^sup>* (take_begins 1) (?s Disconnecting [7] True True)"
    by simp
  from go [OF this take_step.disconnects]
  have reach: "(take_step 1 50)\<^sup>*\<^sup>* (take_begins 1) (?s Taken [7] True False)"
    by simp
  from reach take_returns_first_messages [OF reach] show ?thesis
    by (intro exI [of _ "?s Taken [7] True False"]) (simp add: take1_result_def)
qed

end
