(* ===== verification/Interrupts.thy ===== *)
theory Interrupts
  imports Runnable
begin

text \<open>
  \<open>RunnableNode::run\<close> and the handler of the interrupt signal (\<open>node.cpp\<close>): while a node runs on the calling
  thread, an interrupt is a request to stop that node. The handler is installed and taken back by the constructor and the
  destructor of a local object, the \<open>SignalStacker\<close>, around the call of \<open>child_thread_fn\<close>, which may itself
  run another node. An interrupt may arrive between any two of these operations.
\<close>

section \<open>Operations\<close>

text \<open>
  The handler of SIGINT is the one of the client, whatever it does, or \<open>interrupt_signal_handler\<close>. A call of \<open>run\<close> knows
  its node and where it is: \<open>previous_interrupt_signal_handler\<close> is a member of the stacker once the constructor has set it. The
  calls of \<open>run\<close> that have not returned are a stack, the innermost first. A call through the null pointer ends the process.
\<close>

datatype handler = ClientHandler | InterruptSignalHandler

datatype run_phase = Installing | Clearing handler | Inside handler | Restoring handler

record process =
  running_node :: "nid option"
  sigint_handler :: handler
  stop_signals :: "nid \<Rightarrow> bool"
  runs :: "(nid \<times> run_phase) list"
  client_interrupts :: nat
  crashed :: bool

definition new_process :: "(nid \<Rightarrow> bool) \<Rightarrow> process" where
  "new_process stops = \<lparr>running_node = None, sigint_handler = ClientHandler, stop_signals = stops, runs = [],
     client_interrupts = 0, crashed = False\<rparr>"

definition raise_stop :: "nid \<Rightarrow> process \<Rightarrow> process" where
  "raise_stop n p = p\<lparr>stop_signals := (stop_signals p)(n := True)\<rparr>"

definition interrupt_signal_handler :: "process \<Rightarrow> process" where
  "interrupt_signal_handler p =
     (case running_node p of None \<Rightarrow> p\<lparr>crashed := True\<rparr> | Some rn \<Rightarrow> raise_stop rn p)"

definition interrupt :: "process \<Rightarrow> process" where
  "interrupt p =
     (case sigint_handler p of
        ClientHandler \<Rightarrow> p\<lparr>client_interrupts := client_interrupts p + 1\<rparr>
      | InterruptSignalHandler \<Rightarrow> interrupt_signal_handler p)"

text \<open>
  The two statements of the constructor, clearing the stop signal, and the destructor's two statements once
  \<open>child_thread_fn\<close> has returned or thrown.
\<close>

definition enter_run :: "nid \<Rightarrow> process \<Rightarrow> process" where
  "enter_run n p = p\<lparr>running_node := Some n, runs := (n, Installing) # runs p\<rparr>"

definition install_handler :: "nid \<Rightarrow> (nid \<times> run_phase) list \<Rightarrow> process \<Rightarrow> process" where
  "install_handler n outer p =
     p\<lparr>sigint_handler := InterruptSignalHandler, runs := (n, Clearing (sigint_handler p)) # outer\<rparr>"

definition clear_stop :: "nid \<Rightarrow> handler \<Rightarrow> (nid \<times> run_phase) list \<Rightarrow> process \<Rightarrow> process" where
  "clear_stop n prev outer p = p\<lparr>stop_signals := (stop_signals p)(n := False), runs := (n, Inside prev) # outer\<rparr>"

definition forget_node :: "nid \<Rightarrow> handler \<Rightarrow> (nid \<times> run_phase) list \<Rightarrow> process \<Rightarrow> process" where
  "forget_node n prev outer p = p\<lparr>running_node := None, runs := (n, Restoring prev) # outer\<rparr>"

definition restore_handler :: "handler \<Rightarrow> (nid \<times> run_phase) list \<Rightarrow> process \<Rightarrow> process" where
  "restore_handler prev outer p = p\<lparr>sigint_handler := prev, runs := outer\<rparr>"

lemmas run_defs = raise_stop_def interrupt_signal_handler_def interrupt_def enter_run_def install_handler_def
  clear_stop_def forget_node_def restore_handler_def

text \<open>
  The steps of the main thread, of other threads that ask a node to stop, and interrupts. Whether the
  \<open>child_thread_fn\<close> of a node may call \<open>run\<close> is the first argument.
\<close>

inductive run_step :: "bool \<Rightarrow> process \<Rightarrow> process \<Rightarrow> bool" for nested where
  enter: "\<not> crashed p \<Longrightarrow> runs p = [] \<Longrightarrow> run_step nested p (enter_run n p)"
| enter_inside: "\<not> crashed p \<Longrightarrow> nested \<Longrightarrow> runs p = (m, Inside prev) # outer \<Longrightarrow> run_step nested p (enter_run n p)"
| install: "\<not> crashed p \<Longrightarrow> runs p = (n, Installing) # outer \<Longrightarrow> run_step nested p (install_handler n outer p)"
| clear: "\<not> crashed p \<Longrightarrow> runs p = (n, Clearing prev) # outer \<Longrightarrow> run_step nested p (clear_stop n prev outer p)"
| leave: "\<not> crashed p \<Longrightarrow> runs p = (n, Inside prev) # outer \<Longrightarrow> run_step nested p (forget_node n prev outer p)"
| restore: "\<not> crashed p \<Longrightarrow> runs p = (n, Restoring prev) # outer \<Longrightarrow> run_step nested p (restore_handler prev outer p)"
| ask: "\<not> crashed p \<Longrightarrow> run_step nested p (raise_stop n p)"
| interrupted: "\<not> crashed p \<Longrightarrow> run_step nested p (interrupt p)"

section \<open>The stack of handlers\<close>

text \<open>
  The handler that is installed is determined by the calls of \<open>run\<close>: each remembers the one that was installed when it
  was called, the outermost the handler of the client. The running node is the node of the innermost
  call, or none.
\<close>

fun handlers_ok :: "handler \<Rightarrow> (nid \<times> run_phase) list \<Rightarrow> bool" where
  "handlers_ok h [] \<longleftrightarrow> h = ClientHandler"
| "handlers_ok h ((n, Installing) # outer) \<longleftrightarrow> handlers_ok h outer"
| "handlers_ok h ((n, Clearing prev) # outer) \<longleftrightarrow> h = InterruptSignalHandler \<and> handlers_ok prev outer"
| "handlers_ok h ((n, Inside prev) # outer) \<longleftrightarrow> h = InterruptSignalHandler \<and> handlers_ok prev outer"
| "handlers_ok h ((n, Restoring prev) # outer) \<longleftrightarrow> h = InterruptSignalHandler \<and> handlers_ok prev outer"

fun running_ok :: "bool \<Rightarrow> nid option \<Rightarrow> (nid \<times> run_phase) list \<Rightarrow> bool" where
  "running_ok nested r [] \<longleftrightarrow> r = None"
| "running_ok nested r ((n, Inside prev) # outer) \<longleftrightarrow> r = Some n \<or> nested \<and> r = None"
| "running_ok nested r ((n, Restoring prev) # outer) \<longleftrightarrow> r = None"
| "running_ok nested r ((n, phase) # outer) \<longleftrightarrow> r = Some n"

definition waiting_inside :: "bool \<Rightarrow> (nid \<times> run_phase) list \<Rightarrow> bool" where
  "waiting_inside nested rs \<longleftrightarrow>
     (\<forall>c \<in> set (drop 1 rs). \<exists>n prev. c = (n, Inside prev)) \<and> (\<not> nested \<longrightarrow> length rs \<le> 1)"

definition run_inv :: "bool \<Rightarrow> process \<Rightarrow> bool" where
  "run_inv nested p \<longleftrightarrow>
     handlers_ok (sigint_handler p) (runs p) \<and> running_ok nested (running_node p) (runs p) \<and> waiting_inside nested (runs p)"

lemma running_ok_outer:
  assumes "waiting_inside nested (c # outer)"
  shows "running_ok nested None outer"
  using assms by (cases outer) (auto simp: waiting_inside_def)

lemma waiting_inside_outer: "waiting_inside nested (c # outer) \<Longrightarrow> waiting_inside nested outer"
  by (cases outer) (auto simp: waiting_inside_def)

lemma interrupt_simps [simp]:
  "runs (interrupt p) = runs p" "sigint_handler (interrupt p) = sigint_handler p" "running_node (interrupt p) = running_node p"
  by (simp_all add: run_defs split: handler.split option.split)

lemma run_inv_step: "run_step nested p q \<Longrightarrow> run_inv nested p \<Longrightarrow> run_inv nested q"
proof (induction rule: run_step.induct)
  case (restore p n prev outer)
  then show ?case
    using running_ok_outer [of nested _ outer] waiting_inside_outer [of nested _ outer]
    by (auto simp: run_inv_def restore_handler_def)
qed (auto simp: run_inv_def enter_run_def install_handler_def clear_stop_def forget_node_def raise_stop_def waiting_inside_def)

lemma run_inv_reachable: "(run_step nested)\<^sup>*\<^sup>* (new_process stops) p \<Longrightarrow> run_inv nested p"
  by (induction rule: rtranclp_induct) (auto simp: run_inv_step, simp add: run_inv_def new_process_def waiting_inside_def)

section \<open>Properties\<close>

text \<open>C33: When every call of \<open>run\<close> has returned, the handler of the client is installed again, however the calls were
  nested. While one call runs its node, an interrupt asks that node to stop, and does nothing else. Not so at the edges:
  an interrupt between installing the handler and clearing the stop signal is lost, one that arrives while the
  destructor runs ends the process, and so does every interrupt of a node that runs on after a node it ran
  inside its own thread function has returned.\<close>

theorem interrupts_stop_the_running_node:
  assumes "(run_step nested)\<^sup>*\<^sup>* (new_process stops) p"
  shows "(runs p = [] \<longrightarrow> sigint_handler p = ClientHandler \<and> running_node p = None) \<and>
    (\<forall>n prev. \<not> nested \<and> runs p = [(n, Inside prev)] \<longrightarrow> interrupt p = p\<lparr>stop_signals := (stop_signals p)(n := True)\<rparr>) \<and>
    (\<forall>n prev outer. runs p = (n, Clearing prev) # outer \<longrightarrow>
       clear_stop n prev outer (interrupt p) = clear_stop n prev outer p) \<and>
    (\<forall>n prev outer. runs p = (n, Restoring prev) # outer \<longrightarrow> crashed (interrupt p)) \<and>
    (\<forall>m n prev prev' outer. runs p = (m, Restoring prev) # (n, Inside prev') # outer \<longrightarrow>
       crashed (interrupt (restore_handler prev ((n, Inside prev') # outer) p)))"
  using run_inv_reachable [OF assms] by (auto simp: run_inv_def run_defs)

theorem interrupts_stop_the_running_node_witness:
  "\<exists>p. (run_step True)\<^sup>*\<^sup>* (new_process (\<lambda>_. False)) p \<and> runs p = [(4, Restoring InterruptSignalHandler), (3, Inside ClientHandler)] \<and>
     crashed (interrupt (restore_handler InterruptSignalHandler [(3, Inside ClientHandler)] p))"
proof -
  let ?p0 = "new_process (\<lambda>_. False)"
  let ?p1 = "enter_run 3 ?p0"
  let ?p2 = "install_handler 3 [] ?p1"
  let ?p3 = "clear_stop 3 ClientHandler [] ?p2"
  let ?outer = "[(3, Inside ClientHandler)]"
  let ?p4 = "enter_run 4 ?p3"
  let ?p5 = "install_handler 4 ?outer ?p4"
  let ?p6 = "clear_stop 4 InterruptSignalHandler ?outer ?p5"
  let ?p7 = "forget_node 4 InterruptSignalHandler ?outer ?p6"
  note defs = new_process_def enter_run_def install_handler_def clear_stop_def forget_node_def
  have "run_step True ?p0 ?p1"
    by (rule run_step.enter) (simp_all add: defs)
  moreover have "run_step True ?p1 ?p2"
    by (rule run_step.install) (simp_all add: defs)
  moreover have "run_step True ?p2 ?p3"
    by (rule run_step.clear) (simp_all add: defs)
  moreover have "run_step True ?p3 ?p4"
    by (rule run_step.enter_inside [of _ _ 3 ClientHandler "[]"]) (simp_all add: defs)
  moreover have "run_step True ?p4 ?p5"
    by (rule run_step.install) (simp_all add: defs)
  moreover have "run_step True ?p5 ?p6"
    by (rule run_step.clear) (simp_all add: defs)
  moreover have "run_step True ?p6 ?p7"
    by (rule run_step.leave) (simp_all add: defs)
  ultimately have reach: "(run_step True)\<^sup>*\<^sup>* ?p0 ?p7"
    by (meson converse_rtranclp_into_rtranclp rtranclp.rtrancl_refl)
  have "runs ?p7 = [(4, Restoring InterruptSignalHandler), (3, Inside ClientHandler)]"
    by (simp add: defs)
  with reach interrupts_stop_the_running_node [OF reach] show ?thesis
    by blast
qed

end
