(* ===== verification/Triggers.thy ===== *)
theory Triggers
  imports Delivery Runnable
begin

text \<open>
  What the thread of a \<open>FrequencyGenerator\<close> does (\<open>frequency_generator.cpp\<close>, \<open>utils.cpp\<close>): the times to which it
  sleeps, and the messages that it signals to the nodes below it until it is asked to stop.
\<close>

section \<open>Times\<close>

lemma next_interval_phase:
  assumes "0 < i" and "start_t \<le> t"
  shows "t < next_interval start_t i t" and "next_interval start_t i t \<le> t + i"
    and "\<exists>n. next_interval start_t i t = start_t + of_int n * i"
proof -
  let ?x = "(t - start_t) / i"
  have x: "0 \<le> ?x" "?x * i = t - start_t"
    using assms by simp_all
  have eq: "next_interval start_t i t = start_t + (of_int \<lfloor>?x\<rfloor> + 1) * i"
    using x assms by (simp add: next_interval_def fmod_def not_less [THEN iffD2, OF x(1)] algebra_simps)
  have "of_int \<lfloor>?x\<rfloor> * i \<le> ?x * i" "?x * i < (of_int \<lfloor>?x\<rfloor> + 1) * i"
    using assms(1) by (intro mult_right_mono mult_strict_right_mono; linarith)+
  then show "t < next_interval start_t i t" "next_interval start_t i t \<le> t + i"
    unfolding eq using x(2) by (simp_all add: algebra_simps)
  have "start_t + (of_int \<lfloor>?x\<rfloor> + 1) * i = start_t + of_int (\<lfloor>?x\<rfloor> + 1) * i"
    by simp
  with eq show "\<exists>n. next_interval start_t i t = start_t + of_int n * i"
    by metis
qed

section \<open>A node that can be signalled does not receive its own message\<close>

lemma those_SomeD: "those xs = Some ys \<Longrightarrow> xs = map Some ys"
  by (induction xs arbitrary: ys) (auto split: option.splits)

lemma deliveries_Some:
  assumes "deliveries (Suc d) G n = Some xs"
  shows "\<exists>xss. xs = n # concat xss \<and> (\<forall>ys \<in> set xss. \<exists>c \<in> set (G n). deliveries d G c = Some ys)"
proof -
  obtain xss where xss: "xs = n # concat xss" "map (deliveries d G) (G n) = map Some xss"
    using assms those_SomeD by auto
  then have "Some ys \<in> deliveries d G ` set (G n)" if "ys \<in> set xss" for ys
    using that by (metis image_eqI image_set)
  with xss(1) show ?thesis
    by (metis imageE)
qed

lemma deliveries_reach: "deliveries d G n = Some xs \<Longrightarrow> x \<in> set xs \<Longrightarrow> (n, x) \<in> {(a, c). c \<in> set (G a)}\<^sup>*"
proof (induction d arbitrary: n xs)
  case (Suc d)
  obtain xss where xss: "xs = n # concat xss" "\<forall>ys \<in> set xss. \<exists>c \<in> set (G n). deliveries d G c = Some ys"
    using deliveries_Some [OF Suc.prems(1)] by blast
  show ?case
  proof (cases "x = n")
    case False
    then obtain c where "c \<in> set (G n)" "(c, x) \<in> {(a, c). c \<in> set (G a)}\<^sup>*"
      using xss Suc.prems(2) Suc.IH by auto
    then show ?thesis
      by (intro converse_rtrancl_into_rtrancl [of n c]) simp_all
  qed simp
qed simp

lemma deliveries_self_once:
  assumes "deliveries (Suc d) G n = Some xs"
  shows "count_list xs n = 1"
proof -
  let ?E = "{(a, c). c \<in> set (G a)}"
  obtain xss where xss: "xs = n # concat xss" "\<forall>ys \<in> set xss. \<exists>c \<in> set (G n). deliveries d G c = Some ys"
    using deliveries_Some [OF assms] by blast
  have False if n: "n \<in> set (concat xss)"
  proof -
    obtain ys where ys: "ys \<in> set xss" "n \<in> set ys"
      using n by auto
    then obtain c where c: "c \<in> set (G n)" "deliveries d G c = Some ys"
      using xss(2) by blast
    note cn = deliveries_reach [OF c(2) ys(2)]
    have C: "set (G x) \<inter> {x. (x, n) \<in> ?E\<^sup>*} \<noteq> {}" if x: "x \<in> {x. (x, n) \<in> ?E\<^sup>*}" for x
    proof (cases "x = n")
      case True
      with c(1) cn show ?thesis by blast
    next
      case False
      have "(x, n) \<in> ?E\<^sup>*"
        using x by simp
      then obtain y where "y \<in> set (G x)" "(y, n) \<in> ?E\<^sup>*"
        using False by (cases rule: converse_rtranclE) auto
      then show ?thesis by blast
    qed
    have "deliveries (Suc d) G n = None"
      by (rule deliveries_cycle [OF C]) simp_all
    with assms show False
      by simp
  qed
  then show ?thesis
    using xss(1) by (auto simp: count_list_0_iff)
qed

section \<open>One trigger\<close>

text \<open>A signal of a new message, from a node whose messages go to plain nodes.\<close>

lemma send_unsent:
  assumes obs: "get_observers w = G" "n \<in> N" "\<forall>x \<in> N. passes (class_part (heap w x)) \<and> set (G x) \<subseteq> N"
    and m: "mutation_laws (lib E)" "has_meta (msgs w m) t (- 1) nil_uuid nm md name"
    and n: "length (node_name (heap w n)) \<le> 32" "message_send_counter (heap w n) \<noteq> - 1" "node_guid (heap w n) \<noteq> nil_uuid"
    and xs: "deliveries (Suc d) G n = Some xs"
  shows "\<exists>m'. send d E n m w = Returns () (fold count_send xs (w\<lparr>msgs := (msgs w)(m := m')\<rparr>)) \<and>
    has_meta m' t (message_send_counter (heap w n)) (node_guid (heap w n)) (padded_name (node_name (heap w n))) md name"
proof -
  obtain m' where m': "set_sender_info (lib E) (node_name (heap w n)) (node_guid (heap w n)) (message_send_counter (heap w n)) (msgs w m) =
        Returns () m'"
      "has_meta m' t (message_send_counter (heap w n)) (node_guid (heap w n)) (padded_name (node_name (heap w n))) md name"
    by (rule stamp_first [OF m n(1)])
  let ?w = "w\<lparr>msgs := (msgs w)(m := m')\<rparr>"
  have "get_observers ?w = G"
    using obs(1) by (simp add: get_observers_def fun_eq_iff)
  moreover have st: "stamped (lib E) m'"
    using n(2,3) by (simp add: stamped_def has_meta_simps [OF m'(2)])
  ultimately have plain: "plain_part E N G m' m ?w"
    using obs(3) by (simp add: plain_part_def)
  have "send d E n m w = send d E n m ?w"
    using m'(1) stamped_unchanged [OF st] by (simp add: signal_def stamp_message_def)
  also have "\<dots> = counted (deliveries (Suc d) G n) ?w"
  proof (rule send_counted [OF plain])
    show "receive_from d E c m n u = counted (deliveries d G c) u" if "c \<in> set (G n)" "plain_part E N G m' m u" for c u
      using that(2) by (rule receive_counted) (use that(1) obs(2,3) in auto)
  qed
  finally show ?thesis
    using m'(2) xs by (auto simp: counted_def)
qed


section \<open>The loop\<close>

text \<open>The generator runs at a constant frequency, and its messages go to plain nodes.\<close>

definition generates :: "'u env \<Rightarrow> nid set \<Rightarrow> (nid \<Rightarrow> nid list) \<Rightarrow> nid \<Rightarrow> real \<Rightarrow> 'u world \<Rightarrow> bool" where
  "generates E N G self hz w \<longleftrightarrow>
     (\<exists>c. class_part (heap w self) = FrequencyGenerator hz c) \<and>
     (\<exists>t. thread_part (heap w self) = Some \<lparr>my_thread = t, stop_signal = False\<rparr>) \<and>
     length (node_name (heap w self)) \<le> 32 \<and> node_guid (heap w self) \<noteq> nil_uuid \<and>
     get_observers w = G \<and> self \<in> N \<and> (\<forall>n \<in> N. passes (class_part (heap w n)) \<and> set (G n) \<subseteq> N)"

text \<open>From \<open>w\<close> to \<open>v\<close> the generator has signalled \<open>k\<close> triggers; the clock is read three times for each.\<close>

definition sleep_of :: "'u env \<Rightarrow> real \<Rightarrow> real \<Rightarrow> 'u world \<Rightarrow> nat \<Rightarrow> real" where
  "sleep_of E start_t hz w j =
     (let t = clock E (ticks w + 3 * j) in (next_interval start_t (1 / hz) t - t) * 1000)"

definition triggered ::
  "'u env \<Rightarrow> nid list \<Rightarrow> nid \<Rightarrow> real \<Rightarrow> real \<Rightarrow> nat \<Rightarrow> 'u world \<Rightarrow> 'u world \<Rightarrow> bool" where
  "triggered E xs self hz start_t k w v \<longleftrightarrow>
     next_msg v = next_msg w + k \<and> (\<forall>i < next_msg w. msgs v i = msgs w i) \<and>
     (\<forall>j < k. has_meta (msgs v (next_msg w + j)) (clock E (ticks w + 3 * j + 2))
        (message_send_counter (heap w self) + of_nat j) (node_guid (heap w self))
        (padded_name (node_name (heap w self))) ''core'' ''FrequencyTrigger'') \<and>
     (\<forall>n. message_send_counter (heap v n) = message_send_counter (heap w n) + of_nat (k * count_list xs n)) \<and>
     invocation_count (class_part (heap v self)) = invocation_count (class_part (heap w self)) + of_nat k \<and>
     sleeps v = sleeps w @ map (sleep_of E start_t hz w) [0..<k] \<and>
     ticks v = ticks w + 3 * k \<and> polls v = polls w + k \<and>
     (\<forall>n. node_name (heap v n) = node_name (heap w n) \<and> node_guid (heap v n) = node_guid (heap w n))"

lemma triggered_none: "triggered E xs self hz start_t 0 w w"
  by (simp add: triggered_def)

lemma triggered_trans:
  assumes "triggered E xs self hz start_t (Suc 0) w u" and "triggered E xs self hz start_t k u v"
    and "count_list xs self = 1"
  shows "triggered E xs self hz start_t (Suc k) w v"
proof -
  have u: "next_msg u = next_msg w + 1" "\<forall>i < next_msg w. msgs u i = msgs w i" "ticks u = ticks w + 3" "polls u = polls w + 1"
      "\<And>n. message_send_counter (heap u n) = message_send_counter (heap w n) + of_nat (count_list xs n)"
      "invocation_count (class_part (heap u self)) = invocation_count (class_part (heap w self)) + 1"
      "sleeps u = sleeps w @ [sleep_of E start_t hz w 0]"
      "\<And>n. node_name (heap u n) = node_name (heap w n)" "\<And>n. node_guid (heap u n) = node_guid (heap w n)"
    and first: "has_meta (msgs u (next_msg w)) (clock E (ticks w + 2)) (message_send_counter (heap w self)) (node_guid (heap w self))
      (padded_name (node_name (heap w self))) ''core'' ''FrequencyTrigger''"
    using assms(1) by (simp_all add: triggered_def)
  have v: "next_msg v = next_msg u + k" "\<forall>i < next_msg u. msgs v i = msgs u i" "ticks v = ticks u + 3 * k" "polls v = polls u + k"
      "\<And>n. message_send_counter (heap v n) = message_send_counter (heap u n) + of_nat (k * count_list xs n)"
      "invocation_count (class_part (heap v self)) = invocation_count (class_part (heap u self)) + of_nat k"
      "sleeps v = sleeps u @ map (sleep_of E start_t hz u) [0..<k]"
      "\<And>n. node_name (heap v n) = node_name (heap u n)" "\<And>n. node_guid (heap v n) = node_guid (heap u n)"
    and rest: "\<And>j. j < k \<Longrightarrow> has_meta (msgs v (next_msg u + j)) (clock E (ticks u + 3 * j + 2))
      (message_send_counter (heap u self) + of_nat j) (node_guid (heap u self))
      (padded_name (node_name (heap u self))) ''core'' ''FrequencyTrigger''"
    using assms(2) by (simp_all add: triggered_def)
  have meta: "has_meta (msgs v (next_msg w + j)) (clock E (ticks w + 3 * j + 2))
      (message_send_counter (heap w self) + of_nat j) (node_guid (heap w self))
      (padded_name (node_name (heap w self))) ''core'' ''FrequencyTrigger''" if j: "j < Suc k" for j
  proof (cases j)
    case 0
    then show ?thesis using first u(1) v(2) by simp
  next
    case (Suc i)
    then show ?thesis using rest [of i] j u assms(3) by (simp add: algebra_simps)
  qed
  have sleep: "map (sleep_of E start_t hz w) [0..<Suc k] = sleep_of E start_t hz w 0 # map (sleep_of E start_t hz u) [0..<k]"
    unfolding map_upt_Suc by (simp add: sleep_of_def u(3) add.assoc)
  have sent: "message_send_counter (heap v n) = message_send_counter (heap w n) + of_nat (Suc k * count_list xs n)" for n
    unfolding v(5) u(5) by (simp add: algebra_simps)
  show ?thesis
    unfolding triggered_def sleep
    using meta sent u(1-4,6-9) v(1-4,6-9) by (intro conjI allI impI) (simp_all del: upt_Suc add: algebra_simps)
qed

text \<open>The loop up to the trigger, when no one has asked to stop and the frequency has not been changed.\<close>

definition slept :: "'u env \<Rightarrow> real \<Rightarrow> real \<Rightarrow> 'u world \<Rightarrow> 'u world" where
  "slept E start_t hz w = w\<lparr>polls := polls w + 1, sleeps := sleeps w @ [sleep_of E start_t hz w 0], ticks := ticks w + 1 + 1\<rparr>"

lemma loop_round:
  assumes "class_part (heap w self) = FrequencyGenerator hz i" and "0 < hz" and "\<not> stopper E (polls w)"
    and "thread_part (heap w self) = Some \<lparr>my_thread = t, stop_signal = False\<rparr>"
  shows "frequency_loop (Suc k) E rf (start_t, hz) self w =
    andthen (on_trigger E rf self (slept E start_t hz w))
      (\<lambda>w. frequency_loop k E rf (start_t, hz) self (set_invocation_count (invocation_count (class_part (heap w self)) + 1) self w))"
  using assms
  by (simp add: stop_requested_def sleep_until_next_interval_def get_current_time_def slept_def sleep_of_def Let_def)

lemma one_round:
  assumes g: "generates E N G self hz w" "0 < hz" "\<not> stopper E (polls w)"
    and L: "mutation_laws (lib E)"
      "\<And>now. has_data (lib E) (FMap [(''_meta'', fresh_meta (lib E) now (- 1) ''core'' ''FrequencyTrigger'')])"
    and xs: "deliveries (Suc d) G self = Some xs" and c: "message_send_counter (heap w self) \<noteq> - 1"
  shows "\<exists>u. frequency_loop (Suc k) E (receive_from d E) (start_t, hz) self w =
      frequency_loop k E (receive_from d E) (start_t, hz) self u \<and>
    generates E N G self hz u \<and> triggered E xs self hz start_t (Suc 0) w u"
proof -
  let ?m = "blank_message (lib E) (clock E (ticks w + 1 + 1)) ''FrequencyTrigger''"
  let ?w = "w\<lparr>polls := polls w + 1, sleeps := sleeps w @ [sleep_of E start_t hz w 0], ticks := ticks w + 1 + 1 + 1,
    msgs := (msgs w)(next_msg w := ?m), next_msg := next_msg w + 1\<rparr>"
  have meta: "has_meta (msgs ?w (next_msg w)) (clock E (ticks w + 1 + 1)) (- 1) nil_uuid (replicate 32 CHR 0x00) ''core'' ''FrequencyTrigger''"
    unfolding blank_message_def using has_meta_new [OF L(1) L(2)] by simp
  obtain i t where i: "class_part (heap w self) = FrequencyGenerator hz i"
      "thread_part (heap w self) = Some \<lparr>my_thread = t, stop_signal = False\<rparr>"
    using g(1) by (auto simp: generates_def)
  have obs: "get_observers ?w = G" "self \<in> N" "\<forall>n \<in> N. passes (class_part (heap ?w n)) \<and> set (G n) \<subseteq> N"
    and self: "length (node_name (heap ?w self)) \<le> 32" "message_send_counter (heap ?w self) \<noteq> - 1" "node_guid (heap ?w self) \<noteq> nil_uuid"
    using g(1) c by (simp_all add: generates_def get_observers_def fun_eq_iff)
  obtain m' where m': "send d E self (next_msg w) ?w = Returns () (fold count_send xs (?w\<lparr>msgs := (msgs ?w)(next_msg w := m')\<rparr>))"
      "has_meta m' (clock E (ticks w + 1 + 1)) (message_send_counter (heap w self)) (node_guid (heap w self))
         (padded_name (node_name (heap w self))) ''core'' ''FrequencyTrigger''"
    using send_unsent [OF obs L(1) meta self xs] by auto
  let ?v = "fold count_send xs (?w\<lparr>msgs := (msgs ?w)(next_msg w := m')\<rparr>)"
  let ?u = "set_invocation_count (i + 1) self ?v"
  have "frequency_loop (Suc k) E (receive_from d E) (start_t, hz) self w =
      frequency_loop k E (receive_from d E) (start_t, hz) self ?u"
    unfolding loop_round [OF i(1) g(2,3) i(2)] using i m'(1)
    by (simp add: get_current_time_def on_trigger_def signal_new_def new_message_def slept_def fold_count_send)
  moreover have "get_observers ?v = get_observers ?w"
    unfolding fold_count_send by (simp add: get_observers_def fun_eq_iff)
  then have "get_observers ?u = G"
    using obs(1) by (simp add: set_invocation_count_def get_observers_def fun_eq_iff)
  then have "generates E N G self hz ?u"
    using g(1) i by (auto simp: generates_def set_invocation_count_def fold_count_send)
  moreover have "triggered E xs self hz start_t (Suc 0) w ?u"
    using i m'(2) by (simp add: triggered_def set_invocation_count_def fold_count_send counter_counts)
  ultimately show ?thesis
    by blast
qed


lemma loop_triggers:
  assumes L: "mutation_laws (lib E)"
      "\<And>now. has_data (lib E) (FMap [(''_meta'', fresh_meta (lib E) now (- 1) ''core'' ''FrequencyTrigger'')])"
    and hz: "0 < hz" and xs: "deliveries (Suc d) G self = Some xs"
  shows "generates E N G self hz w \<Longrightarrow> \<forall>j < k. \<not> stopper E (polls w + j) \<Longrightarrow> stopper E (polls w + k) \<Longrightarrow>
    unat (message_send_counter (heap w self)) + k < 2 ^ 64 \<Longrightarrow>
    \<exists>v. frequency_loop (Suc k) E (receive_from d E) (start_t, hz) self w =
        Returns () (node_request_stop self (v\<lparr>polls := polls v + 1\<rparr>)) \<and>
      triggered E xs self hz start_t k w v"
proof (induction k arbitrary: w)
  case 0
  then have "frequency_loop (Suc 0) E (receive_from d E) (start_t, hz) self w =
      Returns () (node_request_stop self (w\<lparr>polls := polls w + 1\<rparr>))"
    by (simp add: stop_requested_def)
  then show ?case
    using triggered_none by blast
next
  case (Suc k)
  have once: "count_list xs self = 1"
    by (rule deliveries_self_once [OF xs])
  have sent: "message_send_counter (heap w self) \<noteq> - 1"
    using Suc.prems(4) by (auto simp: unsigned_minus_1_eq_mask mask_eq_exp_minus_1)
  have "\<not> stopper E (polls w)"
    using Suc.prems(2) by (metis add.right_neutral zero_less_Suc)
  then obtain u where u: "frequency_loop (Suc (Suc k)) E (receive_from d E) (start_t, hz) self w =
        frequency_loop (Suc k) E (receive_from d E) (start_t, hz) self u"
      "generates E N G self hz u" "triggered E xs self hz start_t (Suc 0) w u"
    using one_round [OF Suc.prems(1) hz _ L xs sent] by blast
  have later: "polls u = polls w + 1" "message_send_counter (heap u self) = message_send_counter (heap w self) + 1"
    using u(3) once by (simp_all add: triggered_def)
  have "unat (message_send_counter (heap w self) + 1) = unat (message_send_counter (heap w self)) + 1"
    using Suc.prems(4) unat_add_lem [of "message_send_counter (heap w self)" 1] by simp
  then have "unat (message_send_counter (heap u self)) + k < 2 ^ 64"
    using Suc.prems(4) by (simp add: later)
  moreover have "\<forall>j < k. \<not> stopper E (polls u + j)"
    using Suc.prems(2) by (metis Suc_less_eq add_Suc_right add_Suc_shift later(1) plus_1_eq_Suc add.commute)
  moreover have "stopper E (polls u + k)"
    using Suc.prems(3) later(1) by simp
  ultimately obtain v where v: "frequency_loop (Suc k) E (receive_from d E) (start_t, hz) self u =
        Returns () (node_request_stop self (v\<lparr>polls := polls v + 1\<rparr>))" "triggered E xs self hz start_t k u v"
    using Suc.IH [OF u(2)] by blast
  show ?case
    unfolding u(1) v(1) using triggered_trans [OF u(3) v(2) once] by blast
qed

section \<open>Properties\<close>

text \<open>C32: The thread of a generator with a positive frequency signals one trigger in every round until it is asked to stop,
  to all nodes below it, with consecutive counters and its own identifier. Before each of them it sleeps to
  the next multiple of its interval after its start on a clock that does not run backwards, however long the work below takes: the triggers do
  not drift.\<close>

theorem generator_triggers_in_phase:
  assumes "generates E N (get_observers w) self hz w" and "0 < hz"
    and "\<forall>j < k. \<not> stopper E (polls w + j)" and "stopper E (polls w + k)"
    and "deliveries (Suc d) (get_observers w) self = Some xs"
    and "unat (message_send_counter (heap w self)) + k < 2 ^ 64" and "mutation_laws (lib E)"
    and "\<And>now. has_data (lib E) (FMap [(''_meta'', fresh_meta (lib E) now (- 1) ''core'' ''FrequencyTrigger'')])"
    and "\<forall>j < k. clock E (ticks w) \<le> clock E (ticks w + 1 + 3 * j)"
  shows "\<exists>v ts. frequency_thread_fn (Suc k) E (receive_from d E) self w = Returns () v \<and> next_msg v = next_msg w + k \<and>
    (\<forall>j < k. let m = msgs v (next_msg w + j) in
       message_name (lib E) m = ''FrequencyTrigger'' \<and> source_node_guid (lib E) m = Some (node_guid (heap w self)) \<and>
       message_counter (lib E) m = message_send_counter (heap w self) + of_nat j) \<and>
    (\<forall>n. message_send_counter (heap v n) = message_send_counter (heap w n) + of_nat (k * count_list xs n)) \<and>
    length ts = k \<and> sleeps v = sleeps w @ map (\<lambda>(now, wake). (wake - now) * 1000) ts \<and>
    (\<forall>(now, wake) \<in> set ts. now < wake \<and> wake \<le> now + 1 / hz \<and> (\<exists>n :: int. wake = clock E (ticks w) + of_int n / hz))"
proof -
  let ?w = "snd (get_current_time E w)" and ?start = "clock E (ticks w)"
  have w: "polls ?w = polls w" "heap ?w = heap w" "next_msg ?w = next_msg w" "sleeps ?w = sleeps w" "ticks ?w = ticks w + 1"
    by (simp_all add: get_current_time_def)
  have "get_observers ?w = get_observers w"
    using w(2) by (simp add: get_observers_def fun_eq_iff)
  then have "generates E N (get_observers w) self hz ?w"
    using assms(1) by (simp add: generates_def w)
  then obtain v where v: "frequency_loop (Suc k) E (receive_from d E) (?start, hz) self ?w =
        Returns () (node_request_stop self (v\<lparr>polls := polls v + 1\<rparr>))" "triggered E xs self hz ?start k ?w v"
    using loop_triggers [OF assms(7,8,2,5), of N ?w k ?start] assms(3,4,6) by (auto simp: w)
  let ?v = "node_request_stop self (v\<lparr>polls := polls v + 1\<rparr>)"
  let ?now = "\<lambda>j. clock E (ticks w + 1 + 3 * j)"
  define ts where "ts = map (\<lambda>j. (?now j, next_interval ?start (1 / hz) (?now j))) [0..<k]"
  have "frequency_hz (class_part (heap w self)) = hz"
    using assms(1) by (auto simp: generates_def)
  then have "frequency_thread_fn (Suc k) E (receive_from d E) self w = Returns () ?v"
    using v(1) by (simp add: frequency_thread_fn_def get_current_time_def del: frequency_loop.simps)
  moreover have same: "msgs ?v = msgs v" "next_msg ?v = next_msg v" "sleeps ?v = sleeps v"
      "message_send_counter (heap ?v n) = message_send_counter (heap v n)" for n
    by (simp_all add: node_request_stop_def update_runnable_def)
  moreover have "sleeps ?v = sleeps w @ map (\<lambda>(now, wake). (wake - now) * 1000) ts"
    using v(2) unfolding same triggered_def w by (simp add: ts_def sleep_of_def Let_def comp_def w)
  moreover have "let m = msgs ?v (next_msg w + j) in
       message_name (lib E) m = ''FrequencyTrigger'' \<and> source_node_guid (lib E) m = Some (node_guid (heap w self)) \<and>
       message_counter (lib E) m = message_send_counter (heap w self) + of_nat j" if "j < k" for j
  proof -
    have "has_meta (msgs v (next_msg w + j)) (clock E (ticks w + 1 + 3 * j + 2)) (message_send_counter (heap w self) + of_nat j)
        (node_guid (heap w self)) (padded_name (node_name (heap w self))) ''core'' ''FrequencyTrigger''"
      using v(2) that unfolding triggered_def w by blast
    then show ?thesis
      unfolding same by (simp add: has_meta_simps Let_def)
  qed
  moreover have "now < wake \<and> wake \<le> now + 1 / hz \<and> (\<exists>n :: int. wake = ?start + of_int n / hz)"
    if ts: "(now, wake) \<in> set ts" for now wake
  proof -
    obtain j where j: "j < k" "now = ?now j" "wake = next_interval ?start (1 / hz) (?now j)"
      using ts by (auto simp: ts_def)
    then show ?thesis
      using next_interval_phase [of "1 / hz" ?start "?now j"] assms(2,9) by simp
  qed
  moreover have "next_msg ?v = next_msg w + k" "length ts = k"
      "message_send_counter (heap ?v n) = message_send_counter (heap w n) + of_nat (k * count_list xs n)" for n
    using v(2) unfolding same triggered_def w by (simp_all add: ts_def)
  ultimately show ?thesis
    by blast
qed


text \<open>A generator at address 0 with one receiver is asked to stop after two rounds.\<close>

definition generator_world :: "unit world" where
  "generator_world = set_node 0 (\<lambda>nd. nd\<lparr>thread_part := Some \<lparr>my_thread = Some Running, stop_signal = False\<rparr>\<rparr>)
     (example_world ((\<lambda>_. [])(0 := [1])) ((\<lambda>_. PlainNode)(0 := FrequencyGenerator 2 0)))"

theorem generator_triggers_in_phase_witness:
  "\<exists>v. frequency_thread_fn 3 (example_env\<lparr>stopper := \<lambda>i. 2 \<le> i\<rparr>) (receive_from 1 (example_env\<lparr>stopper := \<lambda>i. 2 \<le> i\<rparr>)) 0 generator_world =
       Returns () v \<and> next_msg v = 3 \<and> message_counter (sample_lib FNull) (msgs v 2) = 1 \<and>
     message_send_counter (heap v 1) = 2 \<and> length (sleeps v) = 2"
proof -
  let ?E = "example_env\<lparr>stopper := \<lambda>i. 2 \<le> i\<rparr> :: unit env" and ?w = generator_world and ?G = "(\<lambda>_. [])(0 := [1])"
  have w: "get_observers ?w = ?G" "polls ?w = 0" "ticks ?w = 0" "next_msg ?w = 1" "sleeps ?w = []"
      "message_send_counter (heap ?w n) = 0" for n
    by (auto simp: generator_world_def get_observers_def fun_eq_iff example_world_def example_node_def)
  have "generates ?E {0, 1} ?G 0 2 ?w"
    using w(1) by (auto simp: generates_def generator_world_def nil_uuid_def)
  moreover have "\<forall>j < 2. \<not> stopper ?E (polls ?w + j)" "stopper ?E (polls ?w + 2)"
    by (simp_all add: w)
  moreover have "deliveries (Suc 1) ?G 0 = Some [0, 1]"
    by simp
  moreover have "\<forall>j < 2. clock ?E (ticks ?w) \<le> clock ?E (ticks ?w + 1 + 3 * j)"
    by (simp add: w example_env_def)
  ultimately obtain v ts where v: "frequency_thread_fn (Suc 2) ?E (receive_from 1 ?E) 0 ?w = Returns () v" "next_msg v = next_msg ?w + 2"
      "\<forall>j < 2. let m = msgs v (next_msg ?w + j) in message_name (lib ?E) m = ''FrequencyTrigger'' \<and>
         source_node_guid (lib ?E) m = Some (node_guid (heap ?w 0)) \<and> message_counter (lib ?E) m = message_send_counter (heap ?w 0) + of_nat j"
      "\<forall>n. message_send_counter (heap v n) = message_send_counter (heap ?w n) + of_nat (2 * count_list [0, 1] n)"
      "length ts = 2" "sleeps v = sleeps ?w @ map (\<lambda>(now, wake). (wake - now) * 1000) ts"
    using generator_triggers_in_phase [of ?E "{0, 1}" ?w 0 2 2 1 "[0, 1]"] sample_lib_laws sample_has_data w by auto
  have "message_counter (lib ?E) (msgs v 2) = 1"
    using v(3) [rule_format, of 1] by (simp add: w Let_def numeral_2_eq_2)
  then show ?thesis
    using v(1,2,4,5,6) by (auto simp: w)
qed

end
