(* ===== verification/Tensor_Pipeline.thy ===== *)
theory Tensor_Pipeline
  imports Triggers Tensor_Messages
begin

text \<open>
  A whole program on top of the library, the example \<open>examples/cpp/tensors_0.cpp\<close>: a generator triggers a node that makes
  tensors of the counters of the triggers, a printer shows the messages, and a last node takes the tensors out
  of them again. The client's functions change a state of the client; \<open>now\<close> is the clock they read,
  \<open>double_of\<close> the conversion of a counter to the type of the elements.
\<close>

section \<open>The program\<close>

record 'a tensors_0_state =
  printed_tensors :: "'a tensor list"
  made :: nat

definition counter_tensor :: "(u64 \<Rightarrow> 'a) \<Rightarrow> u64 \<Rightarrow> 'a tensor" where
  "counter_tensor double_of c = \<lparr>shape = [2, 3], elems = replicate 6 (double_of c)\<rparr>"

definition tensor_creator ::
  "flexlib \<Rightarrow> (nat \<Rightarrow> real) \<Rightarrow> (u64 \<Rightarrow> 'a) \<Rightarrow> 'a element \<Rightarrow> mid \<Rightarrow> message \<Rightarrow> 'a tensors_0_state \<Rightarrow>
   (error, 'a tensors_0_state, mapped) outcome" where
  "tensor_creator L now double_of e i m u =
     (let d = counter_tensor double_of (message_counter L m);
          time = now (made u); u = u\<lparr>made := made u + 1\<rparr>
      in case tensor_message L time e d ''TensorMessage'' ''t'' of
           None \<Rightarrow> Throws LogicError u
         | Some msg \<Rightarrow> Returns (NewMessage msg) u)"

text \<open>The exceptions of the readers of tensors have no constructor in the errors of nodes.\<close>

definition tensor_printer ::
  "flexlib \<Rightarrow> 'a adapt \<Rightarrow> 'a element \<Rightarrow> mid \<Rightarrow> message \<Rightarrow> 'a tensors_0_state \<Rightarrow> (error, 'a tensors_0_state, unit) outcome" where
  "tensor_printer L adapt e i m u =
     (case tensor_message_value L adapt e 2 ''t'' m of
        Inl err \<Rightarrow> Throws (UserException 0) u
      | Inr d \<Rightarrow> Returns () (u\<lparr>printed_tensors := printed_tensors u @ [d]\<rparr>))"

definition tensors_0_graph :: "'u env \<Rightarrow> 'u world \<Rightarrow> (error, 'u world, nid) outcome" where
  "tensors_0_graph E w =
     bnd (new_frequency_generator E 2 ''FrequencyGenerator'' w) (\<lambda>frequency_generator w.
       let (tensor_creator, w) = new_node E ''MapFun'' None (MapFun 0) w;
           (message_printer, w) = new_node E ''MESSAGE IS:'' None MessagePrinter w;
           (tensor_printer, w) = new_node E ''CallbackFun'' None (CallbackFun 0) w
       in andthen (connect frequency_generator tensor_creator w)
            (\<lambda>w. andthen (connect tensor_creator message_printer w)
              (\<lambda>w. andthen (connect message_printer tensor_printer w)
                (Returns frequency_generator))))"

text \<open>The main thread sleeps for three seconds while the generator runs, and then stops it.\<close>

definition tensors_0_main :: "nat \<Rightarrow> nat \<Rightarrow> 'u env \<Rightarrow> 'u act" where
  "tensors_0_main k d E w =
     bnd (tensors_0_graph E w) (\<lambda>frequency_generator w.
       let w = node_start frequency_generator w; w = w\<lparr>sleeps := sleeps w @ [3000]\<rparr>
       in andthen (frequency_thread_fn k E (receive_from d E) frequency_generator w)
            (\<lambda>w. let w = node_stop_and_join frequency_generator w
                 in Returns () (w\<lparr>console := console w @ [''DONE'']\<rparr>)))"

section \<open>One trigger on its way\<close>

text \<open>The client's functions, and what the program relies on: the library, and that printing a message does not throw.\<close>

definition tensors_0_env ::
  "(nat \<Rightarrow> real) \<Rightarrow> (u64 \<Rightarrow> 'a) \<Rightarrow> 'a element \<Rightarrow> 'a adapt \<Rightarrow> 'a tensors_0_state env \<Rightarrow> bool" where
  "tensors_0_env now double_of e adapt E \<longleftrightarrow>
     mapfun E 0 = tensor_creator (lib E) now double_of e \<and> callbackfun E 0 = tensor_printer (lib E) adapt e \<and>
     mutation_laws (lib E) \<and>
     (\<forall>t. has_data (lib E) (FMap [(''_meta'', fresh_meta (lib E) t (- 1) ''core'' ''FrequencyTrigger'')])) \<and>
     (\<forall>t c. has_data (lib E) (FMap [(''_meta'', fresh_meta (lib E) t (- 1) ''core'' ''TensorMessage''),
        (''t'', tensor_map [2, 3] (bytes_of e (replicate 6 (double_of c))) (dtype_of e))])) \<and>
     element_type e \<and> adapts adapt \<and>
     (\<forall>i m. virtual_to_string E i m \<noteq> None)"

definition pipeline :: "nid \<Rightarrow> nid \<Rightarrow> nid \<Rightarrow> nid \<Rightarrow> 'u world \<Rightarrow> bool" where
  "pipeline gen cr pr tp w \<longleftrightarrow>
     distinct [gen, cr, pr, tp] \<and>
     (\<exists>i. class_part (heap w gen) = FrequencyGenerator 2 i) \<and>
     (\<exists>t. thread_part (heap w gen) = Some \<lparr>my_thread = t, stop_signal = False\<rparr>) \<and>
     class_part (heap w cr) = MapFun 0 \<and> class_part (heap w pr) = MessagePrinter \<and> class_part (heap w tp) = CallbackFun 0 \<and>
     observers (heap w gen) = [cr] \<and> observers (heap w cr) = [pr] \<and> observers (heap w pr) = [tp] \<and> observers (heap w tp) = [] \<and>
     (\<forall>n \<in> {gen, cr}. length (node_name (heap w n)) \<le> 32 \<and> node_guid (heap w n) \<noteq> nil_uuid)"

text \<open>From \<open>w\<close> to \<open>v\<close> the tensor has been printed, behind a line with its message, and the nodes of \<open>A\<close> have sent once.\<close>

definition passed :: "nid set \<Rightarrow> 'a tensor \<Rightarrow> 'a tensors_0_state world \<Rightarrow> 'a tensors_0_state world \<Rightarrow> bool" where
  "passed A t w v \<longleftrightarrow>
     heap v = (\<lambda>n. (heap w n)\<lparr>message_send_counter := message_send_counter (heap w n) + (if n \<in> A then 1 else 0)\<rparr>) \<and>
     polls v = polls w \<and> printed_tensors (user v) = printed_tensors (user w) @ [t] \<and> (\<exists>line. console v = console w @ [line])"

lemma signal_stamped:
  "stamped (lib E) (msgs w m) \<Longrightarrow>
   signal E rf n m w = for_each (\<lambda>o'. rf o' m n) (observers (heap w n)) (count_send n w)"
  by (simp add: signal_def stamp_message_def stamped_unchanged notify_observers_def count_send_def get_observers_def Let_def)

lemma receive_tensor_printer:
  assumes "callbackfun E 0 = tensor_printer (lib E) adapt e" and "class_part (heap w tp) = CallbackFun 0" and "observers (heap w tp) = []"
    and "stamped (lib E) (msgs w m)" and "tensor_message_value (lib E) adapt e 2 ''t'' (msgs w m) = Inr t"
  shows "receive_from (Suc d) E tp m s w = Returns () (count_send tp (w\<lparr>user := (user w)\<lparr>printed_tensors := printed_tensors (user w) @ [t]\<rparr>\<rparr>))"
  using assms
  by (simp add: virtual_receive_from_def receive_def callback_fun_receive_def tensor_printer_def signal_stamped)

lemma for_each_none: "for_each f [] = Returns ()"
  by (rule ext) simp

lemma receive_message_printer:
  assumes E: "tensors_0_env now double_of e adapt E" and w: "pipeline gen cr pr tp w"
    and m: "stamped (lib E) (msgs w m)" "tensor_message_value (lib E) adapt e 2 ''t'' (msgs w m) = Inr t"
  shows "\<exists>v. receive_from (Suc (Suc d)) E pr m s w = Returns () v \<and> passed {pr, tp} t w v"
proof -
  obtain line where line: "virtual_to_string E m (msgs w m) = Some line"
    using E unfolding tensors_0_env_def by blast
  let ?u = "count_send pr (w\<lparr>console := console w @ [node_name (heap w pr) @ '' '' @ line]\<rparr>)"
  have "receive_from (Suc (Suc d)) E pr m s w = andthen (receive_from (Suc d) E tp m pr ?u) (Returns ())"
    using w m(1) line
    by (simp add: receive_from_Suc [of "Suc d"] virtual_receive_from_def receive_def message_printer_receive_def signal_stamped pipeline_def
        for_each_none del: receive_from.simps)
  also have "receive_from (Suc d) E tp m pr ?u =
      Returns () (count_send tp (?u\<lparr>user := (user ?u)\<lparr>printed_tensors := printed_tensors (user ?u) @ [t]\<rparr>\<rparr>))"
    using E w m by (intro receive_tensor_printer) (auto simp: tensors_0_env_def pipeline_def count_send_def)
  finally show ?thesis
    using w by (auto simp: passed_def count_send_def pipeline_def fun_eq_iff)
qed


text \<open>The tensor that is made of a counter, read from the message after it has been stamped.\<close>

lemma made_tensor:
  assumes E: "tensors_0_env now double_of e adapt E" and name: "length name \<le> 32" and c: "c \<noteq> - 1" and g: "g \<noteq> nil_uuid"
  shows "\<exists>msg m'. tensor_message (lib E) time e (counter_tensor double_of k) ''TensorMessage'' ''t'' = Some msg \<and>
    set_sender_info (lib E) name g c msg = Returns () m' \<and> stamped (lib E) m' \<and>
    tensor_message_value (lib E) adapt e 2 ''t'' m' = Inr (counter_tensor double_of k)"
proof -
  let ?t = "counter_tensor double_of k"
  let ?kv = "(''t'', tensor_map [2, 3] (bytes_of e (replicate 6 (double_of k))) (dtype_of e))"
  let ?msg = "write_map_root (lib E) time ''core'' ''TensorMessage'' [?kv]"
  have L: "mutation_laws (lib E)" "element_type e" "adapts adapt"
      "has_data (lib E) (FMap ((''_meta'', fresh_meta (lib E) time (- 1) ''core'' ''TensorMessage'') # [?kv]))"
    using E unfolding tensors_0_env_def by blast+
  have msg: "tensor_message (lib E) time e ?t ''TensorMessage'' ''t'' = Some ?msg"
    by (simp add: tensor_message_def serialize_flex_tensor_def keyed_def counter_tensor_def)
  obtain m' where m': "set_sender_info (lib E) name g c ?msg = Returns () m'"
      "has_meta m' time c g (padded_name name) ''core'' ''TensorMessage''"
      "\<And>k. k \<noteq> ''_meta'' \<Longrightarrow> root_val (lib E) m' k = root_val (lib E) ?msg k"
    by (rule stamp_first [where guid = g and c = c, OF L(1) has_meta_new [OF L(1,4)] name]) (rule that)
  have "root_val (lib E) ?msg ''t'' = snd ?kv"
    using root_val_payload [OF L(4)] by (simp add: map_at_def)
  then have at: "map_at (root_map (lib E) m') ''t'' = snd ?kv"
    using m'(3) [of "''t''"] by (simp add: root_val_def)
  have wf: "wf_tensor ?t" "length (shape ?t) = 2"
    by (simp_all add: wf_tensor_def volume_def counter_tensor_def)
  have "tensor_message_value (lib E) adapt e 2 ''t'' m' = Inr ?t"
    using tensor_value_map [OF L(2,3) wf(1), of "elems ?t" "lib E" m' "''t''"] at wf(2) by (simp add: counter_tensor_def numeral_2_eq_2)
  moreover have "stamped (lib E) m'"
    using c g by (simp add: stamped_def has_meta_simps [OF m'(2)])
  ultimately show ?thesis
    using msg m'(1) by blast
qed

lemma receive_tensor_creator:
  assumes E: "tensors_0_env now double_of e adapt E" and w: "pipeline gen cr pr tp w"
    and c: "message_send_counter (heap w cr) \<noteq> - 1"
  shows "\<exists>v. receive_from (Suc (Suc (Suc d))) E cr m s w = Returns () v \<and>
    passed {cr, pr, tp} (counter_tensor double_of (message_counter (lib E) (msgs w m))) w v"
proof -
  let ?k = "message_counter (lib E) (msgs w m)"
  let ?t = "counter_tensor double_of ?k"
  have cr: "length (node_name (heap w cr)) \<le> 32" "node_guid (heap w cr) \<noteq> nil_uuid"
    using w by (simp_all add: pipeline_def)
  obtain msg m' where msg: "tensor_message (lib E) (now (made (user w))) e ?t ''TensorMessage'' ''t'' = Some msg"
      "set_sender_info (lib E) (node_name (heap w cr)) (node_guid (heap w cr)) (message_send_counter (heap w cr)) msg = Returns () m'"
      "stamped (lib E) m'" "tensor_message_value (lib E) adapt e 2 ''t'' m' = Inr ?t"
    using made_tensor [OF E cr(1) c cr(2)] by blast
  let ?u = "count_send cr (w\<lparr>user := (user w)\<lparr>made := made (user w) + 1\<rparr>, next_msg := next_msg w + 1,
    msgs := (msgs w)(next_msg w := m')\<rparr>)"
  have "receive_from (Suc (Suc (Suc d))) E cr m s w = andthen (receive_from (Suc (Suc d)) E pr (next_msg w) cr ?u) (Returns ())"
    using E w msg(1,2)
    by (simp add: receive_from_Suc [of "Suc (Suc d)"] virtual_receive_from_def receive_def map_fun_receive_def tensors_0_env_def
        tensor_creator_def signal_def stamp_message_def notify_observers_def new_message_def get_observers_def count_send_def
        pipeline_def for_each_none Let_def del: receive_from.simps)
  moreover have u: "pipeline gen cr pr tp ?u" "stamped (lib E) (msgs ?u (next_msg w))"
      "tensor_message_value (lib E) adapt e 2 ''t'' (msgs ?u (next_msg w)) = Inr ?t"
    using w msg(3,4) by (auto simp: pipeline_def count_send_def)
  obtain v where v: "receive_from (Suc (Suc d)) E pr (next_msg w) cr ?u = Returns () v" "passed {pr, tp} ?t ?u v"
    using receive_message_printer [OF E u] by blast
  moreover have "passed {cr, pr, tp} ?t w v"
    using v(2) w by (auto simp: passed_def count_send_def pipeline_def fun_eq_iff)
  ultimately show ?thesis
    by auto
qed


section \<open>The thread of the generator\<close>

text \<open>The state before the trigger with number \<open>j\<close>: tensors have been printed for all counters before.\<close>

definition rounds_done ::
  "(u64 \<Rightarrow> 'a) \<Rightarrow> 'a tensor list \<Rightarrow> string list \<Rightarrow> nat \<Rightarrow> nid \<Rightarrow> nid \<Rightarrow> nid \<Rightarrow> nid \<Rightarrow> nat \<Rightarrow> 'a tensors_0_state world \<Rightarrow> bool" where
  "rounds_done double_of before lines polls0 gen cr pr tp j w \<longleftrightarrow>
     pipeline gen cr pr tp w \<and> message_send_counter (heap w gen) = of_nat j \<and> message_send_counter (heap w cr) = of_nat j \<and>
     printed_tensors (user w) = before @ map (\<lambda>i. counter_tensor double_of (of_nat i)) [0..<j] \<and>
     (\<exists>out. console w = lines @ out \<and> length out = j) \<and> polls w = polls0 + j"

lemma of_nat_not_max: "j < 2 ^ 64 - 1 \<Longrightarrow> (of_nat j :: u64) \<noteq> - 1"
proof
  assume j: "j < 2 ^ 64 - 1" "(of_nat j :: u64) = - 1"
  then have "unat (of_nat j :: u64) = 2 ^ 64 - 1"
    by (simp add: unsigned_minus_1_eq_mask mask_eq_exp_minus_1)
  moreover have "unat (of_nat j :: u64) = j"
    using j(1) by (simp add: unsigned_of_nat take_bit_nat_eq_self)
  ultimately show False
    using j(1) by simp
qed

lemma trigger_passes:
  assumes E: "tensors_0_env now double_of e adapt E" and w: "rounds_done double_of before lines p0 gen cr pr tp j w"
    and j: "j < 2 ^ 64 - 1" and d: "3 \<le> d"
  shows "\<exists>v. on_trigger E (receive_from d E) gen (slept E start_t 2 w) = Returns () v \<and>
    rounds_done double_of before lines p0 gen cr pr tp (Suc j) (set_invocation_count i gen v)"
proof -
  let ?s = "slept E start_t 2 w"
  let ?m = "blank_message (lib E) (clock E (ticks ?s)) ''FrequencyTrigger''"
  have L: "mutation_laws (lib E)"
      "has_data (lib E) (FMap [(''_meta'', fresh_meta (lib E) (clock E (ticks ?s)) (- 1) ''core'' ''FrequencyTrigger'')])"
    using E unfolding tensors_0_env_def by blast+
  have heap: "heap ?s = heap w" "user ?s = user w" "console ?s = console w" "polls ?s = polls w + 1" "msgs ?s = msgs w" "next_msg ?s = next_msg w"
    by (simp_all add: slept_def)
  have p: "pipeline gen cr pr tp w" and sent: "message_send_counter (heap w gen) = of_nat j" "message_send_counter (heap w cr) = of_nat j"
    using w by (simp_all add: rounds_done_def)
  have name: "length (node_name (heap w gen)) \<le> 32" and g: "node_guid (heap w gen) \<noteq> nil_uuid"
    using p by (simp_all add: pipeline_def)
  have c: "(of_nat j :: u64) \<noteq> - 1"
    by (rule of_nat_not_max [OF j])
  have meta: "has_meta ?m (clock E (ticks ?s)) (- 1) nil_uuid (replicate 32 CHR 0x00) ''core'' ''FrequencyTrigger''"
    unfolding blank_message_def by (rule has_meta_new [OF L])
  obtain m' where m': "set_sender_info (lib E) (node_name (heap w gen)) (node_guid (heap w gen)) (of_nat j) ?m = Returns () m'"
      "has_meta m' (clock E (ticks ?s)) (of_nat j) (node_guid (heap w gen)) (padded_name (node_name (heap w gen))) ''core'' ''FrequencyTrigger''"
    by (rule stamp_first [where guid = "node_guid (heap w gen)" and c = "of_nat j", OF L(1) meta name]) (rule that)
  let ?u = "count_send gen (?s\<lparr>ticks := ticks ?s + 1, next_msg := next_msg w + 1, msgs := (msgs w)(next_msg w := m')\<rparr>)"
  have "on_trigger E (receive_from d E) gen ?s = andthen (receive_from d E cr (next_msg w) gen ?u) (Returns ())"
    using p m'(1) sent(1)
    by (simp add: on_trigger_def get_current_time_def signal_new_def new_message_def signal_def stamp_message_def notify_observers_def
        get_observers_def count_send_def pipeline_def for_each_none heap Let_def)
  moreover have u: "pipeline gen cr pr tp ?u"
    using p by (auto simp: pipeline_def count_send_def heap)
  have "message_send_counter (heap ?u cr) = of_nat j"
    using p sent(2) by (simp add: count_send_def heap pipeline_def)
  then have cr: "message_send_counter (heap ?u cr) \<noteq> - 1"
    using c by simp
  obtain d' where d': "d = Suc (Suc (Suc d'))"
    using d by (metis Suc_le_D Suc_le_mono eval_nat_numeral(3) numeral_2_eq_2)
  obtain v where v: "receive_from d E cr (next_msg w) gen ?u = Returns () v"
      "passed {cr, pr, tp} (counter_tensor double_of (message_counter (lib E) (msgs ?u (next_msg w)))) ?u v"
    using receive_tensor_creator [OF E u cr] unfolding d' by blast
  have "message_counter (lib E) (msgs ?u (next_msg w)) = of_nat j"
    using has_meta_simps(2) [OF m'(2)] by (simp add: count_send_def)
  then have v': "passed {cr, pr, tp} (counter_tensor double_of (of_nat j)) ?u v"
    using v(2) by (simp only:)
  moreover have "rounds_done double_of before lines p0 gen cr pr tp (Suc j) (set_invocation_count i gen v)"
    using w v' by (auto simp: rounds_done_def pipeline_def passed_def set_invocation_count_def count_send_def heap)
  ultimately show ?thesis
    using v(1) by simp
qed

lemma loop_prints:
  assumes E: "tensors_0_env now double_of e adapt E" and d: "3 \<le> d" and k: "k < 2 ^ 64"
    and stops: "\<forall>j < k. \<not> stopper E (p0 + j)" "stopper E (p0 + k)"
  shows "rounds_done double_of before lines p0 gen cr pr tp j w \<Longrightarrow> j + r = k \<Longrightarrow>
    \<exists>v. frequency_loop (Suc r) E (receive_from d E) (start_t, 2) gen w =
        Returns () (node_request_stop gen (v\<lparr>polls := polls v + 1\<rparr>)) \<and> rounds_done double_of before lines p0 gen cr pr tp k v"
proof (induction r arbitrary: j w)
  case 0
  then have "stopper E (polls w)"
    using stops(2) by (simp add: rounds_done_def)
  then have "frequency_loop (Suc 0) E (receive_from d E) (start_t, 2) gen w =
      Returns () (node_request_stop gen (w\<lparr>polls := polls w + 1\<rparr>))"
    by (simp add: stop_requested_def)
  then show ?case
    using 0 by auto
next
  case (Suc r)
  have j: "j < k" "j < 2 ^ 64 - 1"
    using Suc.prems(2) k by simp_all
  obtain i t where w: "class_part (heap w gen) = FrequencyGenerator 2 i" "thread_part (heap w gen) = Some \<lparr>my_thread = t, stop_signal = False\<rparr>"
      "\<not> stopper E (polls w)"
    using Suc.prems(1) stops(1) j(1) by (auto simp: rounds_done_def pipeline_def)
  obtain v where v: "on_trigger E (receive_from d E) gen (slept E start_t 2 w) = Returns () v"
      "\<And>i. rounds_done double_of before lines p0 gen cr pr tp (Suc j) (set_invocation_count i gen v)"
    using trigger_passes [OF E Suc.prems(1) j(2) d] by (metis outcome.inject(1))
  have "frequency_loop (Suc (Suc r)) E (receive_from d E) (start_t, 2) gen w =
      frequency_loop (Suc r) E (receive_from d E) (start_t, 2) gen (set_invocation_count (invocation_count (class_part (heap v gen)) + 1) gen v)"
    by (simp add: loop_round [OF w(1) _ w(3,2)] v(1) del: frequency_loop.simps)
  then show ?case
    using Suc.IH [OF v(2)] Suc.prems(2) by simp
qed


lemma program_starts:
  "\<exists>v. tensors_0_graph E w = Returns (next_node w) v \<and>
    rounds_done double_of (printed_tensors (user w)) (console w) (polls w) (next_node w) (next_node w + 1) (next_node w + 2) (next_node w + 3) 0
      ((node_start (next_node w) v)\<lparr>sleeps := xs\<rparr>)"
proof -
  let ?n = "next_node w"
  have new: "new_frequency_generator E 2 name v = Returns (next_node v)
      (snd (new_node E name new_thread_part (FrequencyGenerator 2 0) v))" for name v
    by (simp add: new_frequency_generator_def new_node_def split_beta)
  have guid: "uuid4 a b \<noteq> nil_uuid" for a b
    by (rule uuid4_not_nil)
  show ?thesis
    unfolding tensors_0_graph_def new
    by (simp add: new_node_def split_beta connect_def push_observer_def on_connect_def node_start_def update_runnable_def
        rounds_done_def pipeline_def start_thread_def new_thread_part_def guid Let_def)
qed

section \<open>Properties\<close>

text \<open>C9: The example program prints, for each trigger until the main thread stops the generator, a line with the message
  and then the tensor of the trigger's number, from zero on and without a gap: the
  generator, the mapping node, the printer and the callback hand on every message, and a tensor arrives as it was
  made. At the end the thread has been joined.\<close>

theorem tensors_0_prints_the_counters:
  assumes "tensors_0_env now double_of e adapt E" and "3 \<le> d" and "k < 2 ^ 64"
    and "\<forall>j < k. \<not> stopper E (polls w + j)" and "stopper E (polls w + k)"
  shows "\<exists>v out. tensors_0_main (Suc k) d E w = Returns () v \<and>
    printed_tensors (user v) = printed_tensors (user w) @ map (\<lambda>i. \<lparr>shape = [2, 3], elems = replicate 6 (double_of (of_nat i))\<rparr>) [0..<k] \<and>
    console v = console w @ out @ [''DONE''] \<and> length out = k \<and>
    thread_part (heap v (next_node w)) = Some \<lparr>my_thread = None, stop_signal = True\<rparr>"
proof -
  let ?n = "next_node w"
  obtain g where g: "tensors_0_graph E w = Returns ?n g" 
    using program_starts by blast
  let ?w = "(node_start ?n g)\<lparr>sleeps := sleeps (node_start ?n g) @ [3000]\<rparr>"
  let ?s = "snd (get_current_time E ?w)" and ?done = "rounds_done double_of (printed_tensors (user w)) (console w) (polls w) ?n (?n + 1) (?n + 2) (?n + 3)"
  have w: "?done 0 ?w"
    using program_starts [of E w double_of "sleeps (node_start ?n g) @ [3000]"] g by auto
  then have s: "?done 0 ?s"
    by (simp add: rounds_done_def pipeline_def get_current_time_def)
  obtain v where v: "frequency_loop (Suc k) E (receive_from d E) (clock E (ticks ?w), 2) ?n ?s =
      Returns () (node_request_stop ?n (v\<lparr>polls := polls v + 1\<rparr>))" "?done k v"
    using loop_prints [OF assms s] by auto
  let ?v = "node_request_stop ?n (v\<lparr>polls := polls v + 1\<rparr>)"
  have "frequency_hz (class_part (heap ?w ?n)) = 2"
    using w by (auto simp: rounds_done_def pipeline_def)
  then have "frequency_thread_fn (Suc k) E (receive_from d E) ?n ?w = Returns () ?v"
    using v(1) by (simp add: frequency_thread_fn_def get_current_time_def del: frequency_loop.simps)
  then have "tensors_0_main (Suc k) d E w = Returns () ((node_stop_and_join ?n ?v)\<lparr>console := console (node_stop_and_join ?n ?v) @ [''DONE'']\<rparr>)"
    using g by (simp add: tensors_0_main_def Let_def)
  moreover obtain t out where v': "thread_part (heap v ?n) = Some \<lparr>my_thread = t, stop_signal = False\<rparr>"
      "console v = console w @ out" "length out = k"
      "printed_tensors (user v) = printed_tensors (user w) @ map (\<lambda>i. counter_tensor double_of (of_nat i)) [0..<k]"
    using v(2) by (auto simp: rounds_done_def pipeline_def)
  moreover have "thread_part (heap (node_stop_and_join ?n ?v) ?n) = Some \<lparr>my_thread = None, stop_signal = True\<rparr>"
    using v'(1) by (cases t) (simp_all add: node_request_stop_def node_stop_and_join_def update_runnable_def thread_defs)
  moreover have "console (node_stop_and_join ?n ?v) = console v" "user (node_stop_and_join ?n ?v) = user v"
    by (simp_all add: node_request_stop_def node_stop_and_join_def update_runnable_def)
  ultimately show ?thesis
    by (intro exI [of _ "(node_stop_and_join ?n ?v)\<lparr>console := console w @ out @ [''DONE'']\<rparr>"] exI [of _ out] conjI)
      (simp_all add: counter_tensor_def)
qed

definition first_world :: "u32 tensors_0_state world" where
  "first_world =
     \<lparr>heap = (\<lambda>n. example_node n [] PlainNode), next_node = 0, msgs = (\<lambda>_. fresh_message), next_msg = 0, ticks = 0, draws = 0,
      files = (\<lambda>_. []), console = [], sleeps = [], polls = 0, user = \<lparr>printed_tensors = [], made = 0\<rparr>\<rparr>"

definition tensors_0_sample_env :: "u32 tensors_0_state env" where
  "tensors_0_sample_env = example_env\<lparr>virtual_to_string := \<lambda>_ _. Some ''message'', stopper := \<lambda>i. 2 \<le> i,
     mapfun := \<lambda>_. tensor_creator (sample_lib FNull) real ucast uint32_element,
     callbackfun := \<lambda>_. tensor_printer (sample_lib FNull) sample_adapt uint32_element\<rparr>"

theorem tensors_0_prints_the_counters_witness:
  "\<exists>v. tensors_0_main 3 3 tensors_0_sample_env first_world = Returns () v \<and> length (console v) = 3 \<and>
     printed_tensors (user v) = [\<lparr>shape = [2, 3], elems = [0, 0, 0, 0, 0, 0]\<rparr>, \<lparr>shape = [2, 3], elems = [1, 1, 1, 1, 1, 1]\<rparr>]"
proof -
  have "tensors_0_env real ucast uint32_element sample_adapt tensors_0_sample_env"
    using sample_lib_laws sample_has_data uint32.element_type_axioms sample_adapts
    by (simp add: tensors_0_env_def tensors_0_sample_env_def)
  moreover have "\<forall>j < 2. \<not> stopper tensors_0_sample_env (polls first_world + j)" "stopper tensors_0_sample_env (polls first_world + 2)"
    by (simp_all add: tensors_0_sample_env_def first_world_def)
  ultimately obtain v out where v: "tensors_0_main (Suc 2) 3 tensors_0_sample_env first_world = Returns () v"
      "printed_tensors (user v) = printed_tensors (user first_world) @
        map (\<lambda>i. \<lparr>shape = [2, 3], elems = replicate 6 (ucast (of_nat i :: u64))\<rparr>) [0..<2]"
      "console v = console first_world @ out @ [''DONE'']" "length out = 2"
    using tensors_0_prints_the_counters [of real ucast uint32_element sample_adapt tensors_0_sample_env 3 2 first_world] by auto
  then show ?thesis
    by (auto simp: first_world_def numeral_2_eq_2 eval_nat_numeral)
qed

end
