(* ===== verification/Memory_Usage.thy ===== *)
theory Memory_Usage
  imports Uuid
begin

text \<open>
  The memory of the process (\<open>get_process_memory_usage.cpp\<close>), in its branches for Linux: the text of
  \<open>/proc/self/statm\<close>, if it can be opened, and the numbers that the operating system answers are arguments. The
  environment of the world has these readings as \<open>current_rss\<close>.
\<close>

section \<open>Reading with fscanf\<close>

text \<open>The conversion \<open>%*s\<close> skips a word, and \<open>%ld\<close> reads a number, which the library limits to the range of a \<open>long\<close>.\<close>

definition scan_word :: "string \<Rightarrow> string option" where
  "scan_word s =
     (let s1 = dropWhile is_ws s in if s1 = [] then None else Some (dropWhile (\<lambda>c. \<not> is_ws c) s1))"

definition is_dec :: "char \<Rightarrow> bool" where
  "is_dec c \<longleftrightarrow> 48 \<le> (of_char c :: nat) \<and> (of_char c :: nat) \<le> 57"

definition scan_long :: "string \<Rightarrow> int option" where
  "scan_long s =
     (let (negative, s1) = split_sign (dropWhile is_ws s);
          digits = takeWhile is_dec s1;
          n = int (radix_value 10 (map (\<lambda>c. of_char c - 48) digits))
      in if digits = [] then None
         else Some (max (- (2 ^ 63)) (min (2 ^ 63 - 1) (if negative then - n else n))))"

definition getCurrentRSS :: "string option \<Rightarrow> u64 \<Rightarrow> u64" where
  "getCurrentRSS statm page_size =
     (case statm of
        None \<Rightarrow> 0
      | Some text \<Rightarrow>
          (case Option.bind (scan_word text) scan_long of
             None \<Rightarrow> 0
           | Some rss \<Rightarrow> word_of_int rss * page_size))"

definition getPeakRSS :: "int \<Rightarrow> u64" where
  "getPeakRSS ru_maxrss = word_of_int (ru_maxrss * 1024)"

section \<open>What the kernel prints is read\<close>

lemma dec_hex_digit:
  assumes "d < 10"
  shows "is_dec (hex_digit d)" and "of_char (hex_digit d) - 48 = d" and "\<not> is_ws (hex_digit d)"
proof -
  have "d \<in> {0, 1, 2, 3, 4, 5, 6, 7, 8, 9}"
    using assms by auto
  then show "is_dec (hex_digit d)" "of_char (hex_digit d) - 48 = d" "\<not> is_ws (hex_digit d)"
    by (auto simp: is_dec_def is_ws_def hex_digit_def)
qed

lemma dec_digits:
  assumes "c \<in> set (dec_str n)"
  shows "is_dec c" and "\<not> is_ws c"
proof -
  obtain d where "c = hex_digit d" "d < 10"
    using assms radix_digits [of 10 _ n] by (auto simp: dec_str_def)
  then show "is_dec c" "\<not> is_ws c"
    by (simp_all add: dec_hex_digit)
qed

lemma dec_str_not_Nil [simp]: "dec_str n \<noteq> []"
  by (simp add: dec_str_def)

lemma dec_str_value: "radix_value 10 (map (\<lambda>c. of_char c - 48) (dec_str n)) = n"
proof -
  have "map ((\<lambda>c. of_char c - 48) \<circ> hex_digit) (radix 10 n) = radix 10 n"
    by (rule map_idI) (use dec_hex_digit radix_digits [of 10 _ n] in simp)
  then show ?thesis
    by (simp add: dec_str_def radix_value_radix)
qed

lemma dropWhile_ws_dec: "dropWhile is_ws (dec_str n @ s) = dec_str n @ s"
  using dec_digits(2) [of "hd (dec_str n)" n] by (cases "dec_str n") (auto simp: dec_str_not_Nil)

lemma split_sign_dec: "split_sign (dec_str n @ s) = (False, dec_str n @ s)"
  using dec_digits(1) [of "hd (dec_str n)" n] by (cases "dec_str n") (auto simp: is_dec_def)

lemma scan_long_dec:
  assumes "n < 2 ^ 63"
  shows "scan_long (CHR '' '' # dec_str n @ CHR '' '' # s) = Some (int n)"
proof -
  have ws: "is_ws CHR '' ''" "\<not> is_dec CHR '' ''"
    by (simp_all add: is_ws_def is_dec_def)
  have "takeWhile is_dec (dec_str n @ CHR '' '' # s) = dec_str n"
    using ws(2) dec_digits(1) by (simp add: takeWhile_append2)
  then show ?thesis
    using assms ws(1) by (simp add: scan_long_def dropWhile_ws_dec split_sign_dec dec_str_value)
qed

text \<open>The second number of the line is the resident size in pages.\<close>

lemma current_rss_of_statm:
  assumes "resident < 2 ^ 63"
  shows "getCurrentRSS (Some (dec_str pages @ CHR '' '' # dec_str resident @ CHR '' '' # rest)) page_size = of_nat resident * page_size"
proof -
  have "dropWhile (\<lambda>c. \<not> is_ws c) (dec_str pages @ CHR '' '' # s) = CHR '' '' # s" for s
    using dec_digits(2) [of _ pages] by (subst dropWhile_append2) (auto simp: is_ws_def)
  then show ?thesis
    by (simp add: getCurrentRSS_def scan_word_def dropWhile_ws_dec scan_long_dec [OF assms])
qed

lemma current_rss_unreadable: "getCurrentRSS None page_size = 0 \<and> getCurrentRSS (Some []) page_size = 0"
  by (simp add: getCurrentRSS_def scan_word_def)

end
