(* ===== verification/Spec2Isabelle.thy ===== *)
theory Spec2Isabelle
  imports Reachable_Worlds Profiling Graph_Filter Metrics_Reports Recorder Tensor_Buffer Events Interrupts Tensor_Pipeline Memory_Usage
begin

text \<open>
  A verification library for roboflex, a library of nodes that pass messages to the nodes that observe them.

  \<^bold>\<open>How the program is put together.\<close> A message (\<open>message.h\<close>, \<open>message.cpp\<close>) is a buffer with an eight-byte header
  (\<open>message_backing_store.h\<close>) and a FlexBuffers value, a map with the meta information of the message and its
  payload. A node (\<open>node.h\<close>, \<open>node.cpp\<close>) keeps a list of observers. Signalling a message stamps the first sender into it
  and calls the virtual \<open>receive\<close> of every observer, on the same thread; the node classes of
  \<open>core_nodes\<close> override it. A runnable node has a thread. Metrics nodes (\<open>metrics.h\<close>, \<open>metrics.cpp\<close>) stand between
  two nodes, keep running statistics and publish them as messages. A graph root (\<open>graph_root.h\<close>, \<open>graph_root.cpp\<close>) is a
  runnable node that starts and stops the runnable nodes below it, and that puts a metrics node into every connection below it
  and takes them out again. The saver and the player write messages to a file and play them back. Tensors travel in messages
  in the format of \<open>serialization\<close>, and right buffers collect them. Producers (\<open>producer.h\<close>) and \<open>take\<close> (\<open>take.cpp\<close>)
  hand messages from one thread to another, with the events of \<open>event.h\<close> or a condition variable.

  \<^bold>\<open>The theories.\<close>
  \<^item> \<open>Roboflex_Prelude\<close>: errors, outcomes of operations on a state (a value and a state, an exception and
    the state it leaves, or no return), sequencing and for loops, number formats, byte codecs.
  \<^item> \<open>Uuid\<close>: \<open>util/uuid.h\<close>, identifiers, their printed forms and generators.
  \<^item> \<open>Backing_Store\<close>: \<open>message_backing_store.h\<close> and \<open>.cpp\<close>, the two stores and the header.
  \<^item> \<open>Flex_Value\<close>: the values of FlexBuffers, which is not part of the repository, and the library functions as the
    record of parameters \<open>flexlib\<close>, with the documented behaviour that theorems assume.
  \<^item> \<open>Message\<close>, \<open>Copy_Flex\<close>: the class \<open>Message\<close>: constructors, accessors, stamping in place, printing, and copying another
    message's entries (\<open>copy_flex\<close>).
  \<^item> \<open>Core_Messages\<close>: the messages of \<open>core_messages.h\<close> without tensors.
  \<^item> \<open>Metric_Tracker\<close>: \<open>MetricTracker\<close> and \<open>MetricsMessage\<close> of \<open>metrics.h\<close> and \<open>metrics.cpp\<close>.
  \<^item> \<open>World\<close>: the heap of nodes and messages, the classes of nodes as the datatype \<open>node_class\<close>, what the program gets
    from outside (\<open>env\<close>), construction, connecting and disconnecting.
  \<^item> \<open>Example_World\<close>: small concrete worlds for the witnesses, and the properties of messages.
  \<^item> \<open>Graph_Walk\<close>: \<open>walk_nodes\<close>, \<open>walk_connections\<close> and \<open>filter_nodes\<close> with callbacks that may change the graph.
  \<^item> \<open>Dispatch\<close>: \<open>signal\<close>, \<open>notify_observers\<close> and the \<open>receive\<close> of every class. \<open>Dispatch_Frame\<close>: what no signal
    changes. \<open>Delivery\<close>: termination, how often each node is reached, cycles.
  \<^item> \<open>Graph_Filter\<close>: which nodes \<open>filter_nodes\<close> leaves below a node.
  \<^item> \<open>Heap_Typing\<close>, \<open>Reachable_Worlds\<close>: an invariant of the heap (\<open>well_typed\<close>: unlocked publishers, one for each metrics
    node, and the classes that pointers promise), kept by every operation, and that signals return in every world
    that a client reaches from the one without nodes.
  \<^item> \<open>Runnable\<close>: threads, remote procedure calls, the frequency generator. \<open>Triggers\<close>: what the thread of a generator signals,
    and when. \<open>Interrupts\<close>: \<open>RunnableNode::run\<close> with the handler of the interrupt signal that it installs, a step relation
    in which an interrupt may arrive between any two statements.
  \<^item> \<open>Graph_Root\<close>: the operations of \<open>GraphRoot\<close>. \<open>Instrumentation\<close>, \<open>Deinstrumentation\<close>: what inserting and removing
    metrics nodes does to the observer lists. \<open>Profiling\<close>: a whole profile. \<open>Root_Control\<close>: the threads below a root.
  \<^item> \<open>Events\<close>: \<open>Event\<close>, \<open>Producer\<close> and \<open>take\<close>, step relations of the waiting thread beside the sending one.
  \<^item> \<open>Metrics_Reports\<close>: the printed forms of trackers, metrics messages and publishers, and the count of missed messages.
  \<^item> \<open>Tensor_Pipeline\<close>: a whole program, \<open>examples/cpp/tensors_0.cpp\<close>, composed of the nodes above.
  \<^item> \<open>Memory_Usage\<close>: \<open>get_process_memory_usage.cpp\<close> on Linux.
  \<^item> \<open>Recorder\<close>: \<open>UniversalDataSaver\<close> and \<open>UniversalDataPlayer\<close>.
  \<^item> \<open>Tensor_Format\<close>, \<open>Tensor_Serialization\<close>, \<open>Tensor_Messages\<close>, \<open>Tensor_Buffer\<close>: \<open>flex_tensor_format\<close>, \<open>flex_xtensor.h\<close>,
    \<open>flex_eigen.h\<close>, the messages that carry tensors, \<open>tensor_buffer.h\<close>.

  \<^bold>\<open>State.\<close> A node of the heap has the members of \<open>Node\<close>, the thread of a \<open>RunnableNode\<close> where it is one, and a value of
  \<open>node_class\<close> with the members of its class. Pointers to nodes and messages are addresses. A world also holds the messages, the files as
  byte lists (the put position of an output stream is a member of its saver), what was printed, and counters that index the readings of the clock, the random device and the questions of threads
  whether to stop. Functions that clients install are parameters that read the message and change a client state.

  \<^bold>\<open>Bounds.\<close> Signalling, walking and the loops of threads have a depth as their first argument, and are \<open>NoReturn\<close> when it is used
  up. For acyclic graphs the number of nodes below the sender is enough (\<open>acyclic_signal_returns\<close>), and more changes
  nothing; on cycles every depth is used up (\<open>cycle_never_returns\<close>). One more than the number of nodes is enough for a
  walk, one more than the number of records for a player. The operations of a graph root take one bound for roots
  below roots and one for the walks; for inserting or removing metrics nodes, twice the nodes and connections below the root
  with one metrics node for each connection is enough (\<open>profile_restores_the_graph\<close>), and a root that is below itself
  uses up every bound (\<open>root_below_itself_never_starts\<close>).

  \<^bold>\<open>What the lemmas show.\<close> Messages: the header, the stamp of the first sender, copying, printing, round trips. Dispatch: frame conditions
  by two interpretations of one locale of relations that every \<open>receive\<close> respects; termination; exact numbers of deliveries.
  Walks: each reachable node once, children before parents; which nodes a filter leaves. Reachable worlds: whatever a client
  has done before, no lock is held and every metrics node has its publisher, which is where the assumptions \<open>unlocked\<close>
  and \<open>owns_publishers\<close> of the theorems on dispatch come from. Graph roots: metrics
  nodes go into every connection and out again, a profile restores the graph, the threads below a root are started
  once each, children before their parents, and stopped. Metrics: the running statistics are those of the samples.
  Threads: an invariant of the step relation of one thread and its controller; what a producer signals is in the order of what
  it was given, \<open>take\<close> returns the first messages; a frequency generator
  sends numbered triggers at multiples of its interval until it is asked to stop, and in the example
  program they arrive as tensors at the last of four nodes; an interrupt stops the node that runs. Recording: a locale of framed records,
  interpreted on the format of the files, the round trip through a file, and which files are only appended to. Tensors: round trips and rejections, and a right
  buffer as a window on all that was added. Several theorems state what the code does where that is not what it means
  to do: the maximum of negative samples, the variance of a message that was read, half stamped messages, double counted bytes,
  truncated records, shapes in untyped vectors, a missed first message that is not noticed, two savers that overwrite each
  other's records in one file, a request to stop that a call of \<open>run\<close> takes back, interrupts around such a call
  that are lost or end the process.

  \<^bold>\<open>Not modelled.\<close> The bindings to Python, the other examples, the experiments in \<open>serialization.h\<close>, \<open>serializer.h\<close> and
  \<open>serialization.cpp\<close>, the readings of the operating system (the memory of the process on other systems than Linux, the MAC address, the date of
  \<open>printftime\<close>) and third-party code, which is a parameter where it is used. Floating-point numbers are reals.
  Nodes are not destroyed, so what the destructors do, and the dangling of a pointer that \<open>connect(Node&)\<close> made without owning
  its node, are outside the model. Writes reach a file at once, without the buffer of the stream.
  The function that a client gives a graph root to run is a parameter, and so
  is what the virtual \<open>to_string\<close> of a message object prints: a message of the world is its bytes and does not know its class,
  and the printed forms of the classes are functions of their own. Two threads that run at the same time are modelled
  only in \<open>Runnable\<close>, \<open>Interrupts\<close> and \<open>Events\<close>; elsewhere another thread acts through \<open>stopper\<close> and the mutex of the metrics publisher.
\<close>

end
